(* ===== verification/Prelude.thy ===== *)
theory Prelude
  imports Main "HOL-Library.Word"
begin

unbundle bit_operations_syntax

text \<open>
  Shared vocabulary of the development: the Go types the model uses, the sentinel and formatted
  errors of the sources, the wrap-around of Go's 64-bit integers, the big-endian codecs of
  encoding/binary, and the generic facts on lists and words that the component theories use.

  Go's byte and uint64 are words; the sizes and counters whose arithmetic is written
  with signed 64-bit types in the sources are integers, with \<open>wrap64\<close> (or \<open>uwrap64\<close>)
  around every operation that can overflow.
\<close>

section \<open>Types\<close>

type_synonym byte = "8 word"
type_synonym bytes = "byte list"
type_synonym u64 = "64 word"

text \<open>
  The error values. The constructors without argument are the sentinel errors that the sources
  compare or return by name; \<open>Errorf\<close> is an error made on the spot by errors.New or
  fmt.Errorf, named by its constant text.
\<close>

datatype go_error =
    ErrClosedPipe
  | ErrEOF
  | ErrUnexpectedEOF
  | ErrDeadlineExceeded
  | ErrShortWrite
  | ErrNetClosed
  | ErrReceiveBufferFull
  | ErrDataFrameReplay
  | ErrUnexpectedDataFrameType
  | ErrUnknownClient
  | Errorf string

type_synonym 'a result = "go_error + 'a"

definition bind_result :: "'a result \<Rightarrow> ('a \<Rightarrow> 'b result) \<Rightarrow> 'b result" where
  "bind_result r f = (case r of Inl e \<Rightarrow> Inl e | Inr x \<Rightarrow> f x)"

named_theorems go_simps \<open>evaluation rules for the modelled Go operations\<close>

lemma bind_result_simps [simp]:
  "bind_result (Inl e) f = Inl e"
  "bind_result (Inr x) f = f x"
  by (simp_all add: bind_result_def)

lemma bind_result_Inr_iff:
  "bind_result r f = Inr y \<longleftrightarrow> (\<exists>x. r = Inr x \<and> f x = Inr y)"
  by (cases r) auto

lemma bind_result_cong [fundef_cong]:
  "r = r' \<Longrightarrow> (\<And>x. r' = Inr x \<Longrightarrow> f x = g x) \<Longrightarrow> bind_result r f = bind_result r' g"
  by (cases r') auto

section \<open>Go's 64-bit integers\<close>

definition wrap64 :: "int \<Rightarrow> int" where
  "wrap64 x = (x + 2 ^ 63) mod 2 ^ 64 - 2 ^ 63"

definition uwrap64 :: "int \<Rightarrow> int" where
  "uwrap64 x = x mod 2 ^ 64"

abbreviation in_i64 :: "int \<Rightarrow> bool" where
  "in_i64 x \<equiv> - (2 ^ 63) \<le> x \<and> x < 2 ^ 63"

abbreviation in_u64 :: "int \<Rightarrow> bool" where
  "in_u64 x \<equiv> 0 \<le> x \<and> x < 2 ^ 64"

lemma wrap64_id [simp]: "in_i64 x \<Longrightarrow> wrap64 x = x"
  by (simp add: wrap64_def)

lemma wrap64_range: "in_i64 (wrap64 x)"
proof -
  have "0 \<le> (x + 2 ^ 63) mod 2 ^ 64" "(x + 2 ^ 63) mod 2 ^ 64 < 2 ^ 64"
    by simp_all
  then show ?thesis
    by (simp add: wrap64_def)
qed

lemma wrap64_idem [simp]: "wrap64 (wrap64 x) = wrap64 x"
  using wrap64_range [of x] by simp

lemma uwrap64_id [simp]: "in_u64 x \<Longrightarrow> uwrap64 x = x"
  by (simp add: uwrap64_def)

lemma uwrap64_range: "in_u64 (uwrap64 x)"
  by (simp add: uwrap64_def)

text \<open>Go's integer division truncates towards zero; its remainder has the dividend's sign.\<close>

definition go_div :: "int \<Rightarrow> int \<Rightarrow> int" where
  "go_div a b = sgn a * sgn b * (\<bar>a\<bar> div \<bar>b\<bar>)"

definition go_mod :: "int \<Rightarrow> int \<Rightarrow> int" where
  "go_mod a b = a - go_div a b * b"

lemma go_div_nonneg [simp]: "0 \<le> a \<Longrightarrow> 0 < b \<Longrightarrow> go_div a b = a div b"
  by (cases "a = 0") (simp_all add: go_div_def)

lemma go_mod_nonneg [simp]: "0 \<le> a \<Longrightarrow> 0 < b \<Longrightarrow> go_mod a b = a mod b"
  by (simp add: go_mod_def minus_div_mult_eq_mod)

section \<open>Big-endian integers (encoding/binary)\<close>

text \<open>
  \<open>be_put n v\<close> is what PutUint32 (n = 4) and PutUint64 (n = 8) store;
  \<open>be_get\<close> is what Uint32 and Uint64 read. Conversion to the width of the field
  drops the high bytes, as Go's conversion does.
\<close>

fun be_put :: "nat \<Rightarrow> nat \<Rightarrow> bytes" where
  "be_put 0 v = []"
| "be_put (Suc n) v = of_nat (v div 256 ^ n) # be_put n v"

definition be_get :: "bytes \<Rightarrow> nat" where
  "be_get bs = foldl (\<lambda>acc b. acc * 256 + unat b) 0 bs"

lemma length_be_put [simp]: "length (be_put n v) = n"
  by (induction n) auto

lemma be_put_4: "be_put 4 v = [of_nat (v div 16777216), of_nat (v div 65536), of_nat (v div 256), of_nat v]"
  by (simp add: numeral_eq_Suc(1) [of "num.Bit0 (num.Bit0 num.One)"] numeral_3_eq_3)

lemma be_get_Nil [simp]: "be_get [] = 0"
  by (simp add: be_get_def)

lemma be_get_foldl: "foldl (\<lambda>acc b. acc * 256 + unat b) a (bs :: bytes) = a * 256 ^ length bs + be_get bs"
proof (induction bs arbitrary: a)
  case Nil
  then show ?case by simp
next
  case (Cons b bs)
  have "be_get (b # bs) = unat b * 256 ^ length bs + be_get bs"
    using Cons.IH [of "unat b"] by (simp add: be_get_def)
  with Cons.IH [of "a * 256 + unat b"] show ?case
    by (simp add: algebra_simps)
qed

lemma be_get_Cons: "be_get (b # bs) = unat b * 256 ^ length bs + be_get bs"
  using be_get_foldl [of "unat b" bs] by (simp add: be_get_def)

lemma be_get_bound: "be_get bs < 256 ^ length bs"
proof (induction bs)
  case Nil
  then show ?case by simp
next
  case (Cons b bs)
  have "unat b + 1 \<le> 256"
    using unsigned_less [of b, where 'a = nat] by simp
  then have "(unat b + 1) * 256 ^ length bs \<le> 256 * 256 ^ length bs"
    by (rule mult_le_mono1)
  with Cons.IH have "unat b * 256 ^ length bs + be_get bs < 256 * 256 ^ length bs"
    unfolding add_mult_distrib by linarith
  then show ?case
    by (simp add: be_get_Cons)
qed

lemma be_get_put: "be_get (be_put n v) = v mod 256 ^ n"
proof (induction n)
  case 0
  then show ?case by simp
next
  case (Suc n)
  have "v mod 256 ^ Suc n = (v div 256 ^ n) mod 256 * 256 ^ n + v mod 256 ^ n"
    using mod_mult2_eq [of v "256 ^ n" 256] by (simp add: mult.commute)
  with Suc.IH show ?case
    by (simp add: be_get_Cons unat_of_nat take_bit_eq_mod)
qed

lemma be_put_get: "be_put (length bs) (be_get bs) = bs"
proof -
  have "be_put (length bs) (k * 256 ^ length bs + be_get bs) = bs" for k
  proof (induction bs arbitrary: k)
    case Nil
    then show ?case by simp
  next
    case (Cons b bs)
    have eq: "k * 256 ^ length (b # bs) + be_get (b # bs) =
        (k * 256 + unat b) * 256 ^ length bs + be_get bs"
      by (simp add: be_get_Cons algebra_simps)
    have "((k * 256 + unat b) * 256 ^ length bs + be_get bs) div 256 ^ length bs = k * 256 + unat b"
      using be_get_bound [of bs] by simp
    moreover have "of_nat (k * 256 + unat b) = b"
    proof -
      have "(256 :: byte) = 0" by simp
      then show ?thesis by (simp only: of_nat_add of_nat_mult of_nat_numeral mult_zero_right add_0) simp
    qed
    ultimately show ?case
      using Cons.IH [of "k * 256 + unat b"] by (simp only: eq be_put.simps length_Cons [of b bs, symmetric]) (simp only: length_Cons be_put.simps)
  qed
  from this [of 0] show ?thesis by simp
qed

lemma be_put_inj: "v < 256 ^ n \<Longrightarrow> w < 256 ^ n \<Longrightarrow> be_put n v = be_put n w \<Longrightarrow> v = w"
  by (metis be_get_put mod_less)

lemma unat_succ: "(w :: u64) \<noteq> -1 \<Longrightarrow> unat (w + 1) = Suc (unat w)"
  using unatSuc [of w] by (simp add: add.commute eq_neg_iff_add_eq_0)

end
