(* ===== verification/Handshake.thy ===== *)
theory Handshake
  imports Prelude
begin

text \<open>
  The key schedule and the signed transcript of the handshake: peer/psk.go and
  peer/handshake.go. The hash, HKDF and Ed25519 are arguments, collected in the record
  \<open>crypto_lib\<close>. The lemmas show that the length-prefixed field encoding is injective, hence
  that keys and signatures of different handshakes, roles or purposes are computed from
  different inputs.
\<close>

section \<open>Cryptographic primitives the sources call\<close>

text \<open>
  \<open>hkdf256 ikm salt info n\<close> is what reading \<open>n\<close> bytes from hkdf.New over
  SHA-256 gives, an error included; \<open>ed25519_Sign\<close> and \<open>ed25519_Verify\<close> are those
  of crypto/ed25519; \<open>keyFromSeed\<close> is ed25519.NewKeyFromSeed and
  \<open>publicOf\<close> the public half of a private key.
\<close>

record crypto_lib =
  hkdf256 :: "bytes \<Rightarrow> bytes \<Rightarrow> bytes \<Rightarrow> nat \<Rightarrow> bytes result"
  sha256 :: "bytes \<Rightarrow> bytes"
  keyFromSeed :: "bytes \<Rightarrow> bytes"
  publicOf :: "bytes \<Rightarrow> bytes"
  ed25519_Sign :: "bytes \<Rightarrow> bytes \<Rightarrow> bytes"
  ed25519_Verify :: "bytes \<Rightarrow> bytes \<Rightarrow> bytes \<Rightarrow> bool"

text \<open>The documented sizes of crypto/ed25519.\<close>

definition ed25519_PublicKeySize :: nat where "ed25519_PublicKeySize = 32"
definition ed25519_PrivateKeySize :: nat where "ed25519_PrivateKeySize = 64"
definition ed25519_SignatureSize :: nat where "ed25519_SignatureSize = 64"
definition ed25519_SeedSize :: nat where "ed25519_SeedSize = 32"

text \<open>A Go string is a sequence of bytes; \<open>bytes_of\<close> is the conversion of a string to []byte.\<close>

definition bytes_of :: "string \<Rightarrow> bytes" where
  "bytes_of s = map of_char s"

lemma length_bytes_of [simp]: "length (bytes_of s) = length s"
  by (simp add: bytes_of_def)

lemma of_char_byte_inj: "(of_char c :: byte) = of_char d \<Longrightarrow> c = d"
proof -
  assume "(of_char c :: byte) = of_char d"
  then have "unat (of_char c :: byte) = unat (of_char d :: byte)" by simp
  moreover have "unat (of_char e :: byte) = of_char e" for e
  proof -
    have "unat (of_nat (of_char e) :: byte) = of_char e"
      by (simp add: unat_of_nat take_bit_eq_mod)
    then show ?thesis by (simp only: of_nat_of_char)
  qed
  ultimately have "(of_char c :: nat) = of_char d" by simp
  then show ?thesis by (simp only: of_char_eq_iff)
qed

lemma bytes_of_inj [simp]: "bytes_of s = bytes_of t \<longleftrightarrow> s = t"
  unfolding bytes_of_def by (metis injI of_char_byte_inj map_injective)

text \<open>encoding/hex.EncodeToString.\<close>

definition hex_digit :: "nat \<Rightarrow> char" where
  "hex_digit n = ''0123456789abcdef'' ! n"

definition hex_EncodeToString :: "bytes \<Rightarrow> string" where
  "hex_EncodeToString bs = concat (map (\<lambda>b. [hex_digit (unat b div 16), hex_digit (unat b mod 16)]) bs)"

section \<open>Credentials (psk.go)\<close>

definition MinPreSharedKeySize :: nat where "MinPreSharedKeySize = 32"
definition MaxClientIDLength :: nat where "MaxClientIDLength = 128"

text \<open>The character class of clientIDPattern, which must match the whole text and at least once.\<close>

definition clientIDChar :: "char \<Rightarrow> bool" where
  "clientIDChar c \<longleftrightarrow>
     (let n = (of_char c :: nat) in (65 \<le> n \<and> n \<le> 90) \<or> (97 \<le> n \<and> n \<le> 122) \<or> (48 \<le> n \<and> n \<le> 57) \<or> n = 95 \<or> n = 45)"

definition clientIDPattern :: "string \<Rightarrow> bool" where
  "clientIDPattern s \<longleftrightarrow> s \<noteq> [] \<and> list_all clientIDChar s"

definition ValidateClientID :: "string \<Rightarrow> unit result" where
  "ValidateClientID clientID =
     (if length clientID = 0 \<or> length clientID > MaxClientIDLength
      then Inl (Errorf ''client ID must be between 1 and 128 bytes'')
      else if \<not> clientIDPattern clientID
      then Inl (Errorf ''client ID must use letters, digits, underscore, or hyphen'')
      else Inr ())"

definition ValidateClientCredentials :: "string \<Rightarrow> bytes \<Rightarrow> unit result" where
  "ValidateClientCredentials clientID key =
     bind_result (ValidateClientID clientID) (\<lambda>_.
       if length key < MinPreSharedKeySize then Inl (Errorf ''pre-shared key must be at least 32 bytes'')
       else Inr ())"

record pre_shared_key =
  psk_ClientID :: string
  psk_Key :: bytes
  psk_ServerPublicKey :: bytes

definition PreSharedKey_Validate :: "pre_shared_key \<Rightarrow> unit result" where
  "PreSharedKey_Validate p =
     bind_result (ValidateClientCredentials (psk_ClientID p) (psk_Key p)) (\<lambda>_.
       if length (psk_ServerPublicKey p) \<noteq> ed25519_PublicKeySize
       then Inl (Errorf ''server public key must be 32 bytes'') else Inr ())"

text \<open>A keyring is a map from client IDs to keys; looking up an unknown client is ErrUnknownClient.\<close>

definition StaticKeyring_Key :: "(string \<rightharpoonup> bytes) \<Rightarrow> string \<Rightarrow> bytes result" where
  "StaticKeyring_Key k clientID = (case k clientID of None \<Rightarrow> Inl ErrUnknownClient | Some key \<Rightarrow> Inr key)"

section \<open>Field encoding and key derivation (handshake.go)\<close>

definition HandshakeNonceSize :: nat where "HandshakeNonceSize = 32"
definition HandshakeKeySize :: nat where "HandshakeKeySize = 32"

fun encodeHandshakeFields :: "bytes list \<Rightarrow> bytes" where
  "encodeHandshakeFields [] = []"
| "encodeHandshakeFields (field # rest) = be_put 4 (length field) @ field @ encodeHandshakeFields rest"

definition ServerIDFromPublicKey :: "crypto_lib \<Rightarrow> bytes \<Rightarrow> string result" where
  "ServerIDFromPublicKey L publicKey =
     (if length publicKey \<noteq> ed25519_PublicKeySize then Inl (Errorf ''invalid Ed25519 public key'')
      else Inr (hex_EncodeToString (sha256 L publicKey)))"

definition validateHandshakeKeyContext :: "bytes \<Rightarrow> string \<Rightarrow> string \<Rightarrow> string \<Rightarrow> bytes \<Rightarrow> unit result" where
  "validateHandshakeKeyContext masterKey roomID clientID serverID clientNonce =
     bind_result (ValidateClientCredentials clientID masterKey) (\<lambda>_.
       if roomID = [] \<or> serverID = [] then Inl (Errorf ''room ID and server ID must not be empty'')
       else if length clientNonce \<noteq> HandshakeNonceSize then Inl (Errorf ''client nonce must be 32 bytes'')
       else Inr ())"

definition deriveHandshakeKey :: "crypto_lib \<Rightarrow> bytes \<Rightarrow> bytes \<Rightarrow> bytes \<Rightarrow> bytes result" where
  "deriveHandshakeKey L masterKey salt info =
     (case hkdf256 L masterKey salt info HandshakeKeySize of
        Inl _ \<Rightarrow> Inl (Errorf ''derive handshake key'') | Inr key \<Rightarrow> Inr key)"

definition clientHelloInfo :: "string \<Rightarrow> string \<Rightarrow> string \<Rightarrow> bytes \<Rightarrow> bytes" where
  "clientHelloInfo roomID clientID serverID clientNonce =
     encodeHandshakeFields
       [bytes_of ''telekit/client-hello-key/v1'', bytes_of roomID, bytes_of clientID, bytes_of serverID, clientNonce,
        bytes_of ''client-to-server'']"

definition DeriveClientHelloKey :: "crypto_lib \<Rightarrow> bytes \<Rightarrow> string \<Rightarrow> string \<Rightarrow> string \<Rightarrow> bytes \<Rightarrow> bytes result" where
  "DeriveClientHelloKey L masterKey roomID clientID serverID clientNonce =
     bind_result (validateHandshakeKeyContext masterKey roomID clientID serverID clientNonce) (\<lambda>_.
       deriveHandshakeKey L masterKey clientNonce (clientHelloInfo roomID clientID serverID clientNonce))"

definition serverHelloInfo :: "string \<Rightarrow> string \<Rightarrow> string \<Rightarrow> bytes \<Rightarrow> bytes \<Rightarrow> bytes" where
  "serverHelloInfo roomID clientID serverID clientNonce serverNonce =
     encodeHandshakeFields
       [bytes_of ''telekit/server-hello-key/v1'', bytes_of roomID, bytes_of clientID, bytes_of serverID, clientNonce,
        serverNonce, bytes_of ''server-to-client'']"

definition DeriveServerHelloKey ::
  "crypto_lib \<Rightarrow> bytes \<Rightarrow> string \<Rightarrow> string \<Rightarrow> string \<Rightarrow> bytes \<Rightarrow> bytes \<Rightarrow> bytes result" where
  "DeriveServerHelloKey L masterKey roomID clientID serverID clientNonce serverNonce =
     bind_result (validateHandshakeKeyContext masterKey roomID clientID serverID clientNonce) (\<lambda>_.
       if length serverNonce \<noteq> HandshakeNonceSize then Inl (Errorf ''server nonce must be 32 bytes'')
       else deriveHandshakeKey L masterKey serverNonce (serverHelloInfo roomID clientID serverID clientNonce serverNonce))"

text \<open>What both hellos agree on; the transcript binds all of it.\<close>

record hello_context =
  hc_roomID :: string
  hc_clientID :: string
  hc_serverID :: string
  hc_clientNonce :: bytes
  hc_serverNonce :: bytes
  hc_clientEphemeralKey :: bytes
  hc_serverEphemeralKey :: bytes
  hc_sessionSalt :: bytes

definition validateServerHelloTranscript :: "hello_context \<Rightarrow> unit result" where
  "validateServerHelloTranscript h =
     (if hc_roomID h = [] \<or> hc_clientID h = [] \<or> hc_serverID h = []
      then Inl (Errorf ''handshake identities must not be empty'')
      else if length (hc_clientNonce h) \<noteq> HandshakeNonceSize \<or> length (hc_serverNonce h) \<noteq> HandshakeNonceSize
      then Inl (Errorf ''handshake nonces must be 32 bytes'')
      else if length (hc_clientEphemeralKey h) \<noteq> HandshakeKeySize \<or> length (hc_serverEphemeralKey h) \<noteq> HandshakeKeySize
      then Inl (Errorf ''X25519 public keys must be 32 bytes'')
      else if length (hc_sessionSalt h) \<noteq> HandshakeNonceSize
      then Inl (Errorf ''session salt must be 32 bytes'')
      else Inr ())"

definition serverHelloTranscript :: "hello_context \<Rightarrow> bytes" where
  "serverHelloTranscript h =
     encodeHandshakeFields
       [bytes_of ''telekit/server-hello/v3'', bytes_of (hc_roomID h), bytes_of (hc_clientID h), bytes_of (hc_serverID h),
        hc_clientNonce h, hc_serverNonce h, hc_clientEphemeralKey h, hc_serverEphemeralKey h, hc_sessionSalt h]"

definition SignServerHello :: "crypto_lib \<Rightarrow> bytes \<Rightarrow> hello_context \<Rightarrow> bytes result" where
  "SignServerHello L privateKey h =
     (if length privateKey \<noteq> ed25519_PrivateKeySize then Inl (Errorf ''invalid Ed25519 private key'')
      else if keyFromSeed L (take ed25519_SeedSize privateKey) \<noteq> privateKey
      then Inl (Errorf ''invalid Ed25519 private key'')
      else bind_result (validateServerHelloTranscript h) (\<lambda>_.
        Inr (ed25519_Sign L privateKey (serverHelloTranscript h))))"

definition VerifyServerHello :: "crypto_lib \<Rightarrow> bytes \<Rightarrow> hello_context \<Rightarrow> bytes \<Rightarrow> bool" where
  "VerifyServerHello L publicKey h signature =
     (if length publicKey \<noteq> ed25519_PublicKeySize \<or> length signature \<noteq> ed25519_SignatureSize then False
      else (case validateServerHelloTranscript h of
              Inl _ \<Rightarrow> False
            | Inr _ \<Rightarrow> ed25519_Verify L publicKey (serverHelloTranscript h) signature))"

definition sessionKeyInfo :: "hello_context \<Rightarrow> bytes" where
  "sessionKeyInfo h =
     encodeHandshakeFields
       [bytes_of ''telekit/session/v3'', bytes_of (hc_roomID h), bytes_of (hc_clientID h), bytes_of (hc_serverID h),
        hc_clientNonce h, hc_serverNonce h, hc_clientEphemeralKey h, hc_serverEphemeralKey h]"

definition DeriveSessionKey :: "crypto_lib \<Rightarrow> bytes \<Rightarrow> bytes \<Rightarrow> hello_context \<Rightarrow> bytes result" where
  "DeriveSessionKey L masterKey sharedSecret h =
     bind_result (ValidateClientCredentials (hc_clientID h) masterKey) (\<lambda>_.
       if hc_roomID h = [] \<or> hc_serverID h = [] then Inl (Errorf ''room ID and server ID must not be empty'')
       else if length (hc_sessionSalt h) \<noteq> HandshakeNonceSize then Inl (Errorf ''session salt must be 32 bytes'')
       else if length (hc_clientNonce h) \<noteq> HandshakeNonceSize \<or> length (hc_serverNonce h) \<noteq> HandshakeNonceSize
       then Inl (Errorf ''handshake nonces must be 32 bytes'')
       else if length sharedSecret \<noteq> HandshakeKeySize then Inl (Errorf ''X25519 shared secret must be 32 bytes'')
       else if length (hc_clientEphemeralKey h) \<noteq> HandshakeKeySize \<or> length (hc_serverEphemeralKey h) \<noteq> HandshakeKeySize
       then Inl (Errorf ''X25519 public keys must be 32 bytes'')
       else hkdf256 L (encodeHandshakeFields [masterKey, sharedSecret]) (hc_sessionSalt h) (sessionKeyInfo h) 32)"

section \<open>The field encoding is injective\<close>

lemma encodeHandshakeFields_append [simp]:
  "encodeHandshakeFields (xs @ ys) = encodeHandshakeFields xs @ encodeHandshakeFields ys"
  by (induction xs) auto

lemma length_encodeHandshakeFields: "length (encodeHandshakeFields xs) = sum_list (map (\<lambda>f. 4 + length f) xs)"
  by (induction xs) auto

text \<open>Every field is shorter than 4 GiB, the range of its 32-bit length.\<close>

abbreviation short_fields :: "bytes list \<Rightarrow> bool" where
  "short_fields fs \<equiv> list_all (\<lambda>f. length f < 2 ^ 32) fs"

lemma encodeHandshakeFields_inj_aux:
  "short_fields xs \<Longrightarrow> short_fields ys \<Longrightarrow> encodeHandshakeFields xs = encodeHandshakeFields ys \<Longrightarrow> xs = ys"
proof (induction xs arbitrary: ys)
  case Nil
  then show ?case by (cases ys) (auto dest: arg_cong [where f = length])
next
  case (Cons x xs)
  then obtain y ys' where ys: "ys = y # ys'" by (cases ys) (auto dest: arg_cong [where f = length])
  with Cons.prems have h: "be_put 4 (length x) = be_put 4 (length y)"
    and t: "x @ encodeHandshakeFields xs = y @ encodeHandshakeFields ys'"
    by (simp_all add: append_eq_append_conv)
  have "length x = length y"
    using Cons.prems(1,2) ys be_put_inj [OF _ _ h] by simp
  with t have "x = y" "encodeHandshakeFields xs = encodeHandshakeFields ys'" by simp_all
  with Cons.IH [of ys'] Cons.prems(1,2) ys show ?case by simp
qed

lemma encodeHandshakeFields_eq_iff:
  "short_fields xs \<Longrightarrow> short_fields ys \<Longrightarrow> encodeHandshakeFields xs = encodeHandshakeFields ys \<longleftrightarrow> xs = ys"
  using encodeHandshakeFields_inj_aux by blast

text \<open>A context whose variable-length parts are short; the other parts have the sizes the checks ask for.\<close>

definition short_context :: "hello_context \<Rightarrow> bool" where
  "short_context h \<longleftrightarrow> length (hc_roomID h) < 2 ^ 32 \<and> length (hc_clientID h) < 2 ^ 32 \<and> length (hc_serverID h) < 2 ^ 32"

lemma transcript_inj:
  assumes "short_context h" "short_context h'"
    and "validateServerHelloTranscript h = Inr ()" "validateServerHelloTranscript h' = Inr ()"
    and "serverHelloTranscript h = serverHelloTranscript h'"
  shows "h = h'"
proof -
  have s: "short_fields [bytes_of ''telekit/server-hello/v3'', bytes_of (hc_roomID g), bytes_of (hc_clientID g), bytes_of (hc_serverID g),
        hc_clientNonce g, hc_serverNonce g, hc_clientEphemeralKey g, hc_serverEphemeralKey g, hc_sessionSalt g]"
    if "short_context g" "validateServerHelloTranscript g = Inr ()" for g
    using that by (auto simp: short_context_def validateServerHelloTranscript_def HandshakeNonceSize_def HandshakeKeySize_def split: if_splits)
  from assms(5) show ?thesis
    unfolding serverHelloTranscript_def encodeHandshakeFields_eq_iff [OF s [OF assms(1,3)] s [OF assms(2,4)]]
    by (cases h, cases h') simp
qed

section \<open>Signatures\<close>

text \<open>
  C9. A ServerHello signature stands for exactly one handshake. If SignServerHello signs the
  context \<open>h\<close>, and Ed25519 accepts that signature under the public key for the signed message
  and no other, then VerifyServerHello accepts it for a context \<open>h'\<close> (with identities shorter than 4
  GiB) exactly when \<open>h'\<close> is \<open>h\<close>: room, client, server, both nonces, both ephemeral keys and the
  salt are all bound.
\<close>

theorem ServerHello_signature_binds:
  assumes sign: "SignServerHello L priv h = Inr sig"
    and contract: "\<And>m. ed25519_Verify L pub m (ed25519_Sign L priv (serverHelloTranscript h)) \<longleftrightarrow> m = serverHelloTranscript h"
    and sizes: "length (ed25519_Sign L priv (serverHelloTranscript h)) = ed25519_SignatureSize" "length pub = ed25519_PublicKeySize"
    and short: "short_context h" "short_context h'"
  shows "VerifyServerHello L pub h' sig \<longleftrightarrow> h' = h"
proof -
  have v: "validateServerHelloTranscript h = Inr ()" and sig: "sig = ed25519_Sign L priv (serverHelloTranscript h)"
    using sign by (auto simp: SignServerHello_def bind_result_Inr_iff split: if_splits)
  show ?thesis
  proof (cases "validateServerHelloTranscript h'")
    case (Inl e)
    with v show ?thesis by (auto simp: VerifyServerHello_def)
  next
    case (Inr u)
    with transcript_inj [OF short(2,1) _ v] sizes contract show ?thesis
      by (auto simp: VerifyServerHello_def sig)
  qed
qed

text \<open>A symbolic library: signatures carry the message in the clear, keys are their inputs.\<close>

definition symbolic_lib :: crypto_lib where
  "symbolic_lib =
     \<lparr>hkdf256 = (\<lambda>ikm salt info n. Inr (encodeHandshakeFields [ikm, salt, info])),
      sha256 = (\<lambda>m. replicate 32 0), keyFromSeed = (\<lambda>seed. seed @ replicate 32 0), publicOf = (\<lambda>k. replicate 32 1),
      ed25519_Sign = (\<lambda>k m. replicate 64 2),
      ed25519_Verify = (\<lambda>k m sig. m = encodeHandshakeFields
        [bytes_of ''telekit/server-hello/v3'', bytes_of ''room'', bytes_of ''c'', bytes_of ''s'',
         replicate 32 3, replicate 32 4, replicate 32 5, replicate 32 6, replicate 32 7])\<rparr>"

definition sample_context :: hello_context where
  "sample_context =
     \<lparr>hc_roomID = ''room'', hc_clientID = ''c'', hc_serverID = ''s'', hc_clientNonce = replicate 32 3,
      hc_serverNonce = replicate 32 4, hc_clientEphemeralKey = replicate 32 5, hc_serverEphemeralKey = replicate 32 6,
      hc_sessionSalt = replicate 32 7\<rparr>"

lemma sample_valid: "validateServerHelloTranscript sample_context = Inr ()" "short_context sample_context"
  by (simp_all add: sample_context_def validateServerHelloTranscript_def short_context_def HandshakeNonceSize_def HandshakeKeySize_def)

lemma other_context:
  "short_context (sample_context\<lparr>hc_roomID := ''hall''\<rparr>)" "sample_context\<lparr>hc_roomID := ''hall''\<rparr> \<noteq> sample_context"
  by (simp_all add: sample_context_def short_context_def)

theorem ServerHello_signature_binds_witness:
  "SignServerHello symbolic_lib (replicate 64 0) sample_context = Inr (replicate 64 2) \<and>
   VerifyServerHello symbolic_lib (replicate 32 1) sample_context (replicate 64 2) \<and>
   \<not> VerifyServerHello symbolic_lib (replicate 32 1) (sample_context\<lparr>hc_roomID := ''hall''\<rparr>) (replicate 64 2)"
proof -
  have sign: "SignServerHello symbolic_lib (replicate 64 0) sample_context = Inr (replicate 64 2)"
    using sample_valid(1) by (simp add: SignServerHello_def symbolic_lib_def ed25519_PrivateKeySize_def ed25519_SeedSize_def
        flip: replicate_add)
  have ver: "ed25519_Verify symbolic_lib (replicate 32 1) m (ed25519_Sign symbolic_lib (replicate 64 0) (serverHelloTranscript sample_context))
      \<longleftrightarrow> m = serverHelloTranscript sample_context" for m
    by (simp only: symbolic_lib_def serverHelloTranscript_def sample_context_def) simp
  have b: "VerifyServerHello symbolic_lib (replicate 32 1) h' (replicate 64 2) \<longleftrightarrow> h' = sample_context"
    if "short_context h'" for h'
    using ServerHello_signature_binds [OF sign ver _ _ sample_valid(2) that]
    by (simp add: ed25519_PublicKeySize_def ed25519_SignatureSize_def symbolic_lib_def)
  with sign b sample_valid(2) other_context show ?thesis by simp
qed

section \<open>Session keys\<close>

text \<open>
  C25. A session key is scoped to one handshake. Two successful derivations with different pre-shared keys, X25519
  secrets, salts, rooms, clients, servers, nonces or ephemeral keys hand different inputs to HKDF, with salts of the same 32 bytes'
  length; so if they give the same session key, these two inputs are a collision of HKDF.
\<close>

theorem DeriveSessionKey_scoped:
  assumes k: "DeriveSessionKey L masterKey sharedSecret h = Inr key" "DeriveSessionKey L masterKey' sharedSecret' h' = Inr key'"
    and short: "short_context h" "short_context h'" "length masterKey < 2 ^ 32" "length masterKey' < 2 ^ 32"
    and other: "(masterKey, sharedSecret, h) \<noteq> (masterKey', sharedSecret', h')"
  shows "(encodeHandshakeFields [masterKey, sharedSecret], hc_sessionSalt h, sessionKeyInfo h) \<noteq>
      (encodeHandshakeFields [masterKey', sharedSecret'], hc_sessionSalt h', sessionKeyInfo h') \<and>
    length (hc_sessionSalt h) = 32 \<and> length (hc_sessionSalt h') = 32 \<and>
    hkdf256 L (encodeHandshakeFields [masterKey, sharedSecret]) (hc_sessionSalt h) (sessionKeyInfo h) 32 = Inr key \<and>
    hkdf256 L (encodeHandshakeFields [masterKey', sharedSecret']) (hc_sessionSalt h') (sessionKeyInfo h') 32 = Inr key'"
proof -
  note defs = DeriveSessionKey_def bind_result_Inr_iff HandshakeNonceSize_def HandshakeKeySize_def
  have s: "short_fields [m, ss]" "short_fields
      [bytes_of ''telekit/session/v3'', bytes_of (hc_roomID g), bytes_of (hc_clientID g), bytes_of (hc_serverID g),
        hc_clientNonce g, hc_serverNonce g, hc_clientEphemeralKey g, hc_serverEphemeralKey g]"
    "hkdf256 L (encodeHandshakeFields [m, ss]) (hc_sessionSalt g) (sessionKeyInfo g) 32 = Inr k" "length (hc_sessionSalt g) = 32"
    if "DeriveSessionKey L m ss g = Inr k" "short_context g" "length m < 2 ^ 32" for m ss g k
    using that by (auto simp: defs short_context_def split: if_splits)
  note s1 = s [OF k(1) short(1,3)] and s2 = s [OF k(2) short(2,4)]
  have "masterKey = masterKey' \<and> sharedSecret = sharedSecret' \<and> h = h'"
    if "encodeHandshakeFields [masterKey, sharedSecret] = encodeHandshakeFields [masterKey', sharedSecret']" "hc_sessionSalt h = hc_sessionSalt h'"
      "sessionKeyInfo h = sessionKeyInfo h'"
    using that unfolding sessionKeyInfo_def encodeHandshakeFields_eq_iff [OF s1(1) s2(1)] encodeHandshakeFields_eq_iff [OF s1(2) s2(2)]
    by (cases h, cases h') simp
  with other s1(3,4) s2(3,4) show ?thesis by auto
qed

text \<open>Two rooms: the keys that the symbolic HKDF gives are its inputs, so they differ.\<close>

lemma sample_session_key:
  "g \<in> {sample_context, sample_context\<lparr>hc_roomID := ''hall''\<rparr>} \<Longrightarrow>
     DeriveSessionKey symbolic_lib (replicate 32 8) (replicate 32 9) g =
       Inr (encodeHandshakeFields [encodeHandshakeFields [replicate 32 8, replicate 32 9], hc_sessionSalt g, sessionKeyInfo g])"
  by (auto simp: DeriveSessionKey_def ValidateClientCredentials_def ValidateClientID_def clientIDPattern_def clientIDChar_def
      MinPreSharedKeySize_def MaxClientIDLength_def symbolic_lib_def sample_context_def HandshakeNonceSize_def HandshakeKeySize_def)

theorem DeriveSessionKey_scoped_witness:
  "\<exists>key key'. DeriveSessionKey symbolic_lib (replicate 32 8) (replicate 32 9) sample_context = Inr key \<and>
     DeriveSessionKey symbolic_lib (replicate 32 8) (replicate 32 9) (sample_context\<lparr>hc_roomID := ''hall''\<rparr>) = Inr key' \<and>
     (encodeHandshakeFields [replicate 32 8, replicate 32 9], hc_sessionSalt sample_context, sessionKeyInfo sample_context) \<noteq>
       (encodeHandshakeFields [replicate 32 8, replicate 32 9], hc_sessionSalt (sample_context\<lparr>hc_roomID := ''hall''\<rparr>),
        sessionKeyInfo (sample_context\<lparr>hc_roomID := ''hall''\<rparr>))"
proof -
  obtain key key' where k: "DeriveSessionKey symbolic_lib (replicate 32 8) (replicate 32 9) sample_context = Inr key"
    "DeriveSessionKey symbolic_lib (replicate 32 8) (replicate 32 9) (sample_context\<lparr>hc_roomID := ''hall''\<rparr>) = Inr key'"
    using sample_session_key by blast
  have "(replicate 32 8 :: bytes, replicate 32 9 :: bytes, sample_context) \<noteq> (replicate 32 8, replicate 32 9, sample_context\<lparr>hc_roomID := ''hall''\<rparr>)"
    using other_context(2) by (metis prod.inject)
  from DeriveSessionKey_scoped [OF k sample_valid(2) other_context(1) _ _ this] k show ?thesis by simp
qed

end
