(* ===== verification/Addressing.thy ===== *)
theory Addressing
  imports Handshake
begin

text \<open>
  Names and addresses: the room-scoped address of peer/addr.go with the parts of net and
  strconv it uses, the validation of rooms, route prefixes and message types (signaling/types.go),
  the routes that the MQTT, NATS and Centrifugo adapters build from them, and the session and
  endpoint names of the WebSocket relay (relays/websocket/protocol.go and utils.go).
\<close>

section \<open>Decimal numbers (strconv)\<close>

definition digit :: "nat \<Rightarrow> char" where "digit n = char_of (48 + n)"

definition is_digit :: "char \<Rightarrow> bool" where
  "is_digit c \<longleftrightarrow> 48 \<le> (of_char c :: nat) \<and> (of_char c :: nat) \<le> 57"

fun nat_digits :: "nat \<Rightarrow> string" where
  "nat_digits n = (if n < 10 then [digit n] else nat_digits (n div 10) @ [digit (n mod 10)])"

declare nat_digits.simps [simp del]

definition digits_value :: "string \<Rightarrow> nat" where
  "digits_value s = foldl (\<lambda>v c. v * 10 + (of_char c - 48)) 0 s"

definition strconv_Itoa :: "int \<Rightarrow> string" where
  "strconv_Itoa i = (if i < 0 then CHR ''-'' # nat_digits (nat (- i)) else nat_digits (nat i))"

definition strconv_Atoi :: "string \<Rightarrow> int option" where
  "strconv_Atoi s =
     (let neg = (s \<noteq> [] \<and> hd s = CHR ''-'');
          ds = (if s \<noteq> [] \<and> (hd s = CHR ''-'' \<or> hd s = CHR ''+'') then tl s else s);
          v = (if neg then - int (digits_value ds) else int (digits_value ds))
      in if ds = [] \<or> \<not> list_all is_digit ds then None else if in_i64 v then Some v else None)"

lemma digit_facts:
  assumes "n < 10"
  shows "is_digit (digit n)" and "(of_char (digit n) :: nat) = 48 + n"
proof -
  show c: "(of_char (digit n) :: nat) = 48 + n" using assms by (simp add: digit_def)
  show "is_digit (digit n)" unfolding is_digit_def c using assms by simp
qed

lemma nat_digits_ok: "list_all is_digit (nat_digits n) \<and> nat_digits n \<noteq> [] \<and> digits_value (nat_digits n) = n"
proof (induction n rule: nat_digits.induct)
  case (1 n)
  show ?case
  proof (cases "n < 10")
    case True
    with digit_facts [OF True] show ?thesis by (simp add: nat_digits.simps [of n] digits_value_def)
  next
    case False
    have m: "n mod 10 < 10" by simp
    from 1 [OF False] digit_facts [OF m] False show ?thesis
      by (simp add: nat_digits.simps [of n] digits_value_def)
  qed
qed

lemma sign_not_digit: "is_digit c \<Longrightarrow> c \<noteq> CHR ''-'' \<and> c \<noteq> CHR ''+'' \<and> c \<noteq> CHR '':'' \<and> c \<noteq> CHR ''['' \<and> c \<noteq> CHR '']''"
  by (auto simp: is_digit_def)

lemma Atoi_Itoa: "in_i64 i \<Longrightarrow> strconv_Atoi (strconv_Itoa i) = Some i"
proof -
  assume i: "in_i64 i"
  have h: "hd (nat_digits n) \<noteq> CHR ''-'' \<and> hd (nat_digits n) \<noteq> CHR ''+''" for n
    using nat_digits_ok [of n] sign_not_digit by (cases "nat_digits n") auto
  show ?thesis
    using i h nat_digits_ok [of "nat i"] nat_digits_ok [of "nat (- i)"]
    by (auto simp: strconv_Atoi_def strconv_Itoa_def Let_def)
qed

lemma Itoa_chars: "CHR '':'' \<notin> set (strconv_Itoa i) \<and> CHR ''['' \<notin> set (strconv_Itoa i) \<and> CHR '']'' \<notin> set (strconv_Itoa i)"
  using nat_digits_ok [of "nat i"] nat_digits_ok [of "nat (- i)"] sign_not_digit
  by (auto simp: strconv_Itoa_def list_all_iff)

section \<open>Host and port (net)\<close>

definition index_of :: "char \<Rightarrow> string \<Rightarrow> nat option" where
  "index_of c s = (if c \<in> set s then Some (length (takeWhile (\<lambda>x. x \<noteq> c) s)) else None)"

definition last_index_of :: "char \<Rightarrow> string \<Rightarrow> nat option" where
  "last_index_of c s = (if c \<in> set s then Some (length s - 1 - length (takeWhile (\<lambda>x. x \<noteq> c) (rev s))) else None)"

definition net_JoinHostPort :: "string \<Rightarrow> string \<Rightarrow> string" where
  "net_JoinHostPort host port =
     (if CHR '':'' \<in> set host then ''['' @ host @ '']:'' @ port else host @ '':'' @ port)"

text \<open>
  SplitHostPort: the port starts after the last colon; a bracketed host ends at the first closing bracket,
  which must stand just before that colon; brackets are not allowed anywhere else.
\<close>

definition net_SplitHostPort :: "string \<Rightarrow> (string \<times> string) option" where
  "net_SplitHostPort hostport =
     (case last_index_of (CHR '':'') hostport of
        None \<Rightarrow> None
      | Some i \<Rightarrow>
          if hd hostport = CHR ''['' then
            (case index_of (CHR '']'') hostport of
               None \<Rightarrow> None
             | Some e \<Rightarrow>
                 if e + 1 \<noteq> i then None
                 else if CHR ''['' \<in> set (drop 1 hostport) \<or> CHR '']'' \<in> set (drop (e + 1) hostport) then None
                 else Some (drop 1 (take e hostport), drop (i + 1) hostport))
          else
            (let host = take i hostport
             in if CHR '':'' \<in> set host then None
                else if CHR ''['' \<in> set hostport \<or> CHR '']'' \<in> set hostport then None
                else Some (host, drop (i + 1) hostport)))"

lemma takeWhile_sep: "c \<notin> set s \<Longrightarrow> takeWhile (\<lambda>x. x \<noteq> c) (s @ c # t) = s"
  by (induction s) auto

lemma last_index_append: "c \<notin> set t \<Longrightarrow> last_index_of c (s @ c # t) = Some (length s)"
  by (simp add: last_index_of_def takeWhile_sep)

lemma index_append: "c \<notin> set s \<Longrightarrow> index_of c (s @ c # t) = Some (length s)"
  by (simp add: index_of_def takeWhile_sep)

lemma Split_Join:
  assumes "CHR ''['' \<notin> set host" "CHR '']'' \<notin> set host"
    and "CHR '':'' \<notin> set port" "CHR ''['' \<notin> set port" "CHR '']'' \<notin> set port"
  shows "net_SplitHostPort (net_JoinHostPort host port) = Some (host, port)"
proof (cases "CHR '':'' \<in> set host")
  case True
  let ?s = "(CHR ''['' # host @ '']'') @ CHR '':'' # port"
  have l: "last_index_of (CHR '':'') ?s = Some (length host + 2)" using last_index_append [OF assms(3), of "CHR ''['' # host @ '']''"] by simp
  have e: "index_of (CHR '']'') ?s = Some (length host + 1)"
    using index_append [of "CHR '']''" "CHR ''['' # host" "CHR '':'' # port"] assms(2) by simp
  have "net_SplitHostPort ?s = Some (host, port)"
    unfolding net_SplitHostPort_def l e using assms by simp
  with True show ?thesis by (simp add: net_JoinHostPort_def)
next
  case False
  let ?s = "host @ CHR '':'' # port"
  have h: "hd ?s \<noteq> CHR ''[''" using assms(1) by (cases host) auto
  have "net_SplitHostPort ?s = Some (host, port)"
    unfolding net_SplitHostPort_def last_index_append [OF assms(3)] using assms False h by simp
  with False show ?thesis by (simp add: net_JoinHostPort_def)
qed

section \<open>Addresses (peer/addr.go)\<close>

record addr =
  RoomID :: string
  PeerID :: string
  IP :: string
  Port :: int

definition zero_addr :: addr where "zero_addr = \<lparr>RoomID = [], PeerID = [], IP = [], Port = 0\<rparr>"

text \<open>
  A net.Addr: one of the three pointer types, possibly nil, with its address already printed, or any other
  implementation, of which only the text is used.
\<close>

datatype net_addr = UDPAddr "(string \<times> int) option" | TCPAddr "(string \<times> int) option" | IPAddr "string option" | OtherAddr string

definition Addr_Network :: "addr \<Rightarrow> string" where "Addr_Network a = ''telekit''"

definition Addr_String :: "addr \<Rightarrow> string" where
  "Addr_String a =
     (let identity = RoomID a
      in if PeerID a = [] then
           (if IP a = [] \<and> Port a = 0 then identity
            else identity @ ''@'' @ net_JoinHostPort (IP a) (strconv_Itoa (Port a)))
         else
           (let identity = RoomID a @ ''/'' @ PeerID a
            in if IP a = [] \<and> Port a = 0 then identity
               else identity @ ''@'' @ net_JoinHostPort (IP a) (strconv_Itoa (Port a))))"

definition AddrFromNet :: "string \<Rightarrow> string \<Rightarrow> net_addr option \<Rightarrow> addr" where
  "AddrFromNet roomID peerID address =
     (let result = \<lparr>RoomID = roomID, PeerID = peerID, IP = [], Port = 0\<rparr>
      in (case address of
            None \<Rightarrow> result
          | Some (UDPAddr (Some (ip, port))) \<Rightarrow> result\<lparr>IP := ip, Port := port\<rparr>
          | Some (UDPAddr None) \<Rightarrow> result
          | Some (TCPAddr (Some (ip, port))) \<Rightarrow> result\<lparr>IP := ip, Port := port\<rparr>
          | Some (TCPAddr None) \<Rightarrow> result
          | Some (IPAddr (Some ip)) \<Rightarrow> result\<lparr>IP := ip\<rparr>
          | Some (IPAddr None) \<Rightarrow> result
          | Some (OtherAddr text) \<Rightarrow>
              (case net_SplitHostPort text of
                 None \<Rightarrow> result
               | Some (host, port) \<Rightarrow>
                   (case strconv_Atoi port of
                      None \<Rightarrow> result
                    | Some parsed \<Rightarrow> result\<lparr>IP := host, Port := parsed\<rparr>))))"

text \<open>
  C40. Printing an address and reading it back loses nothing: the address of a peer inside a room,
  taken from any connection whose address prints as host and port, has that host and that port, also when the
  host is an IPv6 address.
\<close>

theorem AddrFromNet_round_trip:
  assumes "CHR ''['' \<notin> set ip" "CHR '']'' \<notin> set ip" and "in_i64 port"
  shows "AddrFromNet room peer (Some (OtherAddr (net_JoinHostPort ip (strconv_Itoa port)))) =
           \<lparr>RoomID = room, PeerID = peer, IP = ip, Port = port\<rparr>"
  using Split_Join [OF assms(1,2)] Itoa_chars [of port] Atoi_Itoa [OF assms(3)] by (simp add: AddrFromNet_def)

theorem AddrFromNet_round_trip_witness:
  "AddrFromNet ''room'' ''c'' (Some (OtherAddr (net_JoinHostPort ''fe80::1'' (strconv_Itoa 4433)))) =
     \<lparr>RoomID = ''room'', PeerID = ''c'', IP = ''fe80::1'', Port = 4433\<rparr>"
  by (rule AddrFromNet_round_trip) simp_all


section \<open>Rooms, message types and routes (signaling/types.go and the adapters)\<close>

definition MaxRoomIDLength :: nat where "MaxRoomIDLength = 128"
definition MaxMessageTypeLength :: nat where "MaxMessageTypeLength = 32"
definition MaxRoutePrefixLength :: nat where "MaxRoutePrefixLength = 128"

definition MessageHello :: string where "MessageHello = ''hello''"
definition MessageOffer :: string where "MessageOffer = ''offer''"
definition MessageAnswer :: string where "MessageAnswer = ''answer''"

text \<open>The pattern of rooms, which is also the pattern of message types; like that of client names it is anchored at both ends.\<close>

definition roomChar :: "char \<Rightarrow> bool" where
  "roomChar c \<longleftrightarrow>
     (let n = (of_char c :: nat) in (65 \<le> n \<and> n \<le> 90) \<or> (97 \<le> n \<and> n \<le> 122) \<or> (48 \<le> n \<and> n \<le> 57) \<or> n = 95 \<or> n = 45)"

definition roomPattern :: "string \<Rightarrow> bool" where
  "roomPattern s \<longleftrightarrow> s \<noteq> [] \<and> list_all roomChar s"

definition ValidateRoomID :: "string \<Rightarrow> unit result" where
  "ValidateRoomID roomID =
     (if length roomID = 0 \<or> length roomID > MaxRoomIDLength then Inl (Errorf ''invalid room ID length'')
      else if \<not> roomPattern roomID then Inl (Errorf ''invalid room ID'')
      else Inr ())"

definition ValidateMessageType :: "string \<Rightarrow> unit result" where
  "ValidateMessageType typ =
     (if length typ = 0 \<or> length typ > MaxMessageTypeLength then Inl (Errorf ''invalid signaling message type length'')
      else if \<not> roomPattern typ then Inl (Errorf ''invalid signaling message type'')
      else Inr ())"

fun strings_Split :: "string \<Rightarrow> char \<Rightarrow> string list" where
  "strings_Split [] sep = [[]]"
| "strings_Split (c # s) sep =
     (if c = sep then [] # strings_Split s sep
      else (c # hd (strings_Split s sep)) # tl (strings_Split s sep))"

definition ValidateRoutePrefix :: "string \<Rightarrow> char \<Rightarrow> unit result" where
  "ValidateRoutePrefix prefix separator =
     (if length prefix = 0 \<or> length prefix > MaxRoutePrefixLength then Inl (Errorf ''invalid route prefix length'')
      else if separator \<noteq> CHR ''/'' \<and> separator \<noteq> CHR ''.'' \<and> separator \<noteq> CHR '':'' then Inl (Errorf ''unsupported route prefix separator'')
      else if \<not> list_all roomPattern (strings_Split prefix separator) then Inl (Errorf ''invalid route prefix'')
      else Inr ())"

definition mqtt_topic :: "string \<Rightarrow> string \<Rightarrow> string \<Rightarrow> string" where
  "mqtt_topic baseTopic roomID typ = baseTopic @ ''/'' @ roomID @ ''/'' @ typ"

definition nats_subject :: "string \<Rightarrow> string \<Rightarrow> string \<Rightarrow> string" where
  "nats_subject baseSubject roomID typ = baseSubject @ ''.'' @ roomID @ ''.'' @ typ"

definition centrifugo_topic :: "string \<Rightarrow> string \<Rightarrow> string \<Rightarrow> string" where
  "centrifugo_topic baseChannel roomID typ = baseChannel @ '':'' @ roomID @ '':'' @ typ"

lemma Split_Nil_iff [simp]: "strings_Split s sep \<noteq> []"
  by (cases s) auto

lemma Split_segments: "list_all (list_all roomChar) (strings_Split s sep) \<Longrightarrow> list_all (\<lambda>c. roomChar c \<or> c = sep) s"
proof (induction s)
  case (Cons c s)
  then show ?case by (cases "strings_Split s sep") (auto split: if_splits)
qed simp

lemma Split_chars: "list_all roomPattern (strings_Split s sep) \<Longrightarrow> list_all (\<lambda>c. roomChar c \<or> c = sep) s"
  by (rule Split_segments) (auto simp: roomPattern_def list_all_iff)

text \<open>Two texts that end in a separator and a separator-free part agree only if both parts agree.\<close>

lemma last_segment:
  assumes "p @ sep # x = q @ sep # y" and "sep \<notin> set x" "sep \<notin> set y"
  shows "p = q \<and> x = y"
proof -
  have "rev x @ sep # rev p = rev y @ sep # rev q" using arg_cong [where f = rev, OF assms(1)] by simp
  then have "takeWhile (\<lambda>c. c \<noteq> sep) (rev x @ sep # rev p) = takeWhile (\<lambda>c. c \<noteq> sep) (rev y @ sep # rev q)" by simp
  then have "x = y" using assms(2,3) by (simp add: takeWhile_sep)
  with assms(1) show ?thesis by simp
qed

lemma route_inj:
  assumes "\<not> roomChar sep" and "roomPattern r" "roomPattern r'" "roomPattern t" "roomPattern t'"
    and "b @ [sep] @ r @ [sep] @ t = b' @ [sep] @ r' @ [sep] @ t'"
  shows "b = b' \<and> r = r' \<and> t = t'"
proof -
  have n: "sep \<notin> set r" "sep \<notin> set r'" "sep \<notin> set t" "sep \<notin> set t'"
    using assms(1-5) by (auto simp: roomPattern_def list_all_iff)
  have "(b @ sep # r) @ sep # t = (b' @ sep # r') @ sep # t'" using assms(6) by simp
  from last_segment [OF this n(3,4)] have "b @ sep # r = b' @ sep # r'" "t = t'" by simp_all
  with last_segment [OF this(1) n(1,2)] show ?thesis by simp
qed

lemma validated:
  "ValidateRoomID r = Inr () \<Longrightarrow> roomPattern r"
  "ValidateMessageType t = Inr () \<Longrightarrow> roomPattern t"
  "ValidateRoutePrefix b sep = Inr () \<Longrightarrow> list_all (\<lambda>c. roomChar c \<or> c = sep) b"
  by (auto simp: ValidateRoomID_def ValidateMessageType_def ValidateRoutePrefix_def intro: Split_chars split: if_splits)

text \<open>
  C37. Routes do not collide and carry no wildcards. For validated prefixes, rooms and message types, two routes of
  one adapter are equal only if their prefixes, rooms and types are, so a message never
  reaches another room or another type of handler; and a route has no characters other than those of rooms and the separator,
  so it is never a pattern of the broker.
\<close>

theorem routes_separated:
  assumes "ValidateRoomID room = Inr ()" "ValidateRoomID room' = Inr ()"
    and "ValidateMessageType typ = Inr ()" "ValidateMessageType typ' = Inr ()"
  shows "(mqtt_topic base room typ = mqtt_topic base' room' typ' \<longleftrightarrow> base = base' \<and> room = room' \<and> typ = typ') \<and>
    (nats_subject base room typ = nats_subject base' room' typ' \<longleftrightarrow> base = base' \<and> room = room' \<and> typ = typ') \<and>
    (centrifugo_topic base room typ = centrifugo_topic base' room' typ' \<longleftrightarrow> base = base' \<and> room = room' \<and> typ = typ') \<and>
    (ValidateRoutePrefix base (CHR ''/'') = Inr () \<longrightarrow> list_all (\<lambda>c. roomChar c \<or> c = CHR ''/'') (mqtt_topic base room typ)) \<and>
    (ValidateRoutePrefix base (CHR ''.'') = Inr () \<longrightarrow> list_all (\<lambda>c. roomChar c \<or> c = CHR ''.'') (nats_subject base room typ)) \<and>
    (ValidateRoutePrefix base (CHR '':'') = Inr () \<longrightarrow> list_all (\<lambda>c. roomChar c \<or> c = CHR '':'') (centrifugo_topic base room typ))"
proof -
  note v = validated(1) [OF assms(1)] validated(1) [OF assms(2)] validated(2) [OF assms(3)] validated(2) [OF assms(4)]
  have s: "\<not> roomChar (CHR ''/'')" "\<not> roomChar (CHR ''.'')" "\<not> roomChar (CHR '':'')" by (simp_all add: roomChar_def)
  note i = route_inj [OF _ v, of _ base base']
  have c: "list_all (\<lambda>c. roomChar c \<or> c = sep) room" "list_all (\<lambda>c. roomChar c \<or> c = sep) typ" for sep
    using v by (auto simp: roomPattern_def list_all_iff)
  show ?thesis
    using i [OF s(1)] i [OF s(2)] i [OF s(3)] c validated(3)
    by (auto simp: mqtt_topic_def nats_subject_def centrifugo_topic_def)
qed

theorem routes_separated_witness:
  "mqtt_topic ''a'' ''r1'' MessageOffer \<noteq> mqtt_topic ''a/r1'' ''offer'' ''hello'' \<and>
   list_all (\<lambda>c. roomChar c \<or> c = CHR ''/'') (mqtt_topic ''a/b'' ''r1'' MessageOffer)"
proof -
  have "ValidateRoomID ''r1'' = Inr ()" "ValidateRoomID ''offer'' = Inr ()" "ValidateMessageType MessageOffer = Inr ()"
    "ValidateMessageType ''hello'' = Inr ()" "ValidateRoutePrefix ''a/b'' (CHR ''/'') = Inr ()"
    by (simp_all add: ValidateRoomID_def ValidateMessageType_def ValidateRoutePrefix_def roomPattern_def roomChar_def MessageOffer_def
        MaxRoomIDLength_def MaxMessageTypeLength_def MaxRoutePrefixLength_def)
  with routes_separated [of "''r1''" "''offer''" MessageOffer "''hello''" "''a''" "''a/r1''"]
    routes_separated [of "''r1''" "''offer''" MessageOffer "''hello''" "''a/b''" "''a/b''"]
  show ?thesis by auto
qed

section \<open>Names of the WebSocket relay (relays/websocket)\<close>

definition RelaySessionID :: "string \<Rightarrow> string \<Rightarrow> string" where
  "RelaySessionID namespace endpointID = namespace @ '':'' @ endpointID"

definition DefaultRelayPathPrefix :: string where "DefaultRelayPathPrefix = ''/relay''"

text \<open>url.PathEscape: which bytes of a path segment stay as they are, and the escape of the others.\<close>

definition path_unreserved :: "char \<Rightarrow> bool" where
  "path_unreserved c \<longleftrightarrow>
     (let n = (of_char c :: nat) in (65 \<le> n \<and> n \<le> 90) \<or> (97 \<le> n \<and> n \<le> 122) \<or> (48 \<le> n \<and> n \<le> 57)) \<or>
     c \<in> {CHR ''-'', CHR ''_'', CHR ''.'', CHR ''~'', CHR ''$'', CHR ''&'', CHR ''+'', CHR '':'', CHR ''='', CHR ''@''}"

definition upper_hex :: "nat \<Rightarrow> char" where
  "upper_hex n = ''0123456789ABCDEF'' ! n"

definition url_PathEscape :: "string \<Rightarrow> string" where
  "url_PathEscape s =
     concat (map (\<lambda>c. if path_unreserved c then [c]
                      else [CHR ''%'', upper_hex (of_char c div 16), upper_hex (of_char c mod 16)]) s)"

definition trimRight :: "char \<Rightarrow> string \<Rightarrow> string" where
  "trimRight c s = rev (dropWhile (\<lambda>x. x = c) (rev s))"

definition EndpointPath :: "string \<Rightarrow> string \<Rightarrow> string result" where
  "EndpointPath pathPrefix serverID =
     (if serverID = [] then Inl (Errorf ''websocket relay server ID is empty'')
      else (let prefix = trimRight (CHR ''/'') pathPrefix;
                prefix' = (if prefix = [] then DefaultRelayPathPrefix else prefix)
            in Inr (prefix' @ ''/'' @ url_PathEscape serverID)))"

text \<open>A parsed URL with the fields the sources look at; the parser and the printer of net/url are arguments.\<close>

record url =
  u_Scheme :: string
  u_Host :: string
  u_Path :: string
  u_RawPath :: string

definition EndpointURL :: "(string \<Rightarrow> url option) \<Rightarrow> (url \<Rightarrow> string) \<Rightarrow> string \<Rightarrow> string \<Rightarrow> string result" where
  "EndpointURL url_Parse url_String baseURL serverID =
     (if baseURL = [] then Inl (Errorf ''websocket relay base URL is empty'')
      else if serverID = [] then Inl (Errorf ''websocket relay server ID is empty'')
      else (case url_Parse baseURL of
              None \<Rightarrow> Inl (Errorf ''parse websocket relay base URL'')
            | Some u \<Rightarrow>
                if (u_Scheme u \<noteq> ''ws'' \<and> u_Scheme u \<noteq> ''wss'') \<or> u_Host u = []
                then Inl (Errorf ''websocket relay base URL must use ws or wss and include a host'')
                else if u_Path u = [] \<or> u_Path u = ''/''
                then bind_result (EndpointPath [] serverID) (\<lambda>path. Inr (url_String (u\<lparr>u_Path := path, u_RawPath := []\<rparr>)))
                else if last (u_Path u) = CHR ''/''
                then bind_result (EndpointPath (u_Path u) serverID) (\<lambda>path. Inr (url_String (u\<lparr>u_Path := path, u_RawPath := []\<rparr>)))
                else Inr (url_String u)))"

text \<open>The escape of a name has no slash and determines the name, so the path of a server determines its name.\<close>

definition escape_char :: "char \<Rightarrow> string" where
  "escape_char c = (if path_unreserved c then [c] else [CHR ''%'', upper_hex (of_char c div 16), upper_hex (of_char c mod 16)])"

lemma PathEscape_Cons: "url_PathEscape (c # s) = escape_char c @ url_PathEscape s"
  by (simp add: url_PathEscape_def escape_char_def)

lemma upper_hex_cases: "(n :: nat) < 16 \<Longrightarrow> n \<in> {0, 1, 2, 3, 4, 5, 6, 7, 8, 9, 10, 11, 12, 13, 14, 15}"
  by simp presburger

lemma upper_hex_inj: "m < 16 \<Longrightarrow> n < 16 \<Longrightarrow> upper_hex m = upper_hex n \<Longrightarrow> m = n"
  using upper_hex_cases [of m] upper_hex_cases [of n] by (auto simp: upper_hex_def)

lemma upper_hex_slash: "n < 16 \<Longrightarrow> upper_hex n \<noteq> CHR ''/''"
  using upper_hex_cases [of n] by (auto simp: upper_hex_def)

lemma of_char_bound: "(of_char c :: nat) < 256"
  using of_char_of [where 'a = nat, of "of_char c"] by (metis of_char_mod_256 mod_less_divisor zero_less_numeral)

lemma hex_bound: "(of_char c :: nat) div 16 < 16"
  by (rule less_mult_imp_div_less) (use of_char_bound [of c] in simp)

lemma escape_char_prefix:
  assumes "escape_char c @ s = escape_char d @ t"
  shows "c = d \<and> s = t"
proof (cases "path_unreserved c = path_unreserved d")
  case True
  have "(of_char c :: nat) = of_char d" if "\<not> path_unreserved c"
  proof -
    have "(of_char c :: nat) div 16 = of_char d div 16" "(of_char c :: nat) mod 16 = of_char d mod 16"
      using assms True that by (auto simp: escape_char_def intro!: upper_hex_inj hex_bound)
    then show ?thesis by (metis div_mult_mod_eq)
  qed
  with assms True show ?thesis by (auto simp: escape_char_def split: if_splits)
next
  case False
  have "\<not> path_unreserved (CHR ''%'')" by (simp add: path_unreserved_def)
  with False assms show ?thesis by (auto simp: escape_char_def split: if_splits)
qed

lemma PathEscape_inj: "url_PathEscape s = url_PathEscape t \<Longrightarrow> s = t"
proof (induction s arbitrary: t)
  case Nil
  then show ?case by (cases t) (auto simp: PathEscape_Cons escape_char_def url_PathEscape_def split: if_splits)
next
  case (Cons c s)
  then show ?case
    by (cases t) (auto simp: PathEscape_Cons dest!: escape_char_prefix, auto simp: escape_char_def url_PathEscape_def split: if_splits)
qed

lemma PathEscape_slash: "CHR ''/'' \<notin> set (url_PathEscape s)"
proof -
  have "CHR ''/'' \<notin> set (escape_char c)" for c
    using upper_hex_slash [of "of_char c div 16"] upper_hex_slash [of "of_char c mod 16"] hex_bound [of c]
    by (auto simp: escape_char_def path_unreserved_def)
  then show ?thesis by (induction s) (auto simp: PathEscape_Cons url_PathEscape_def [of "[]"])
qed

text \<open>
  C39. Two relay servers never share an endpoint: whatever the two prefixes are, equal paths mean equal server
  names and equal prefixes, up to trailing slashes and the default prefix.
\<close>

theorem EndpointPath_inj:
  assumes "EndpointPath prefix server = Inr path" and "EndpointPath prefix' server' = Inr path"
  shows "server = server' \<and> (trimRight (CHR ''/'') prefix = trimRight (CHR ''/'') prefix' \<or>
    {trimRight (CHR ''/'') prefix, trimRight (CHR ''/'') prefix'} = {[], DefaultRelayPathPrefix})"
proof -
  define pre where "pre p = (if trimRight (CHR ''/'') p = [] then DefaultRelayPathPrefix else trimRight (CHR ''/'') p)" for p
  have "pre prefix @ CHR ''/'' # url_PathEscape server = pre prefix' @ CHR ''/'' # url_PathEscape server'"
    using assms by (auto simp: EndpointPath_def pre_def Let_def split: if_splits)
  from last_segment [OF this PathEscape_slash PathEscape_slash] have "pre prefix = pre prefix'" "server = server'"
    using PathEscape_inj by auto
  then show ?thesis by (auto simp: pre_def split: if_splits)
qed

theorem EndpointPath_inj_witness:
  "\<not> (\<exists>path. EndpointPath ''/x/'' ''a/b'' = Inr path \<and> EndpointPath ''/x/a/'' ''b'' = Inr path)"
  using EndpointPath_inj [of "''/x/''" "''a/b''" _ "''/x/a/''" "''b''"] by fastforce

end
