(* ===== verification/Encryption.thy ===== *)
theory Encryption
  imports Handshake
begin

text \<open>
  utils/encryption: the nonce source and the five AEAD wrappers. The ciphers themselves, their
  constructors and HKDF over SHA-512 are arguments; crypto/rand is the argument \<open>rnd\<close>, which gives
  the bytes read or an error. The lemmas show that decryption inverts encryption and that one
  encrypting instance never uses a nonce twice.
\<close>

section \<open>Ciphers\<close>

text \<open>A cipher.AEAD under a fixed key; \<open>Seal\<close> and \<open>Open\<close> take nonce, text and additional data.\<close>

record cipher_aead =
  NonceSize :: nat
  Overhead :: nat
  Seal :: "bytes \<Rightarrow> bytes \<Rightarrow> bytes \<Rightarrow> bytes"
  Open :: "bytes \<Rightarrow> bytes \<Rightarrow> bytes \<Rightarrow> bytes option"

record aead_lib = crypto_lib +
  hkdf512 :: "bytes \<Rightarrow> nat \<Rightarrow> bytes result"
  aes_NewGCM :: "bytes \<Rightarrow> cipher_aead result"
  ascon_New :: "bytes \<Rightarrow> cipher_aead result"
  camellia_NewGCM :: "bytes \<Rightarrow> cipher_aead result"
  chacha20poly1305_New :: "bytes \<Rightarrow> cipher_aead result"
  chacha20poly1305_NewX :: "bytes \<Rightarrow> cipher_aead result"

text \<open>The documented contract of cipher.AEAD: Open inverts Seal, which adds Overhead bytes.\<close>

definition aead_ok :: "cipher_aead \<Rightarrow> bool" where
  "aead_ok A \<longleftrightarrow>
     (\<forall>n p a. length n = NonceSize A \<longrightarrow> Open A n (Seal A n p a) a = Some p \<and> length (Seal A n p a) = length p + Overhead A)"

text \<open>Open accepts nothing but what Seal makes: encryption is deterministic and the tag is recomputed.\<close>

definition aead_tidy :: "cipher_aead \<Rightarrow> bool" where
  "aead_tidy A \<longleftrightarrow> (\<forall>n c a p. Open A n c a = Some p \<longrightarrow> c = Seal A n p a)"

type_synonym random = "nat \<Rightarrow> bytes result"

section \<open>Nonces (nonce.go)\<close>

definition nonceCounterSize :: nat where "nonceCounterSize = 8"

record nonce_source =
  ns_prefix :: bytes
  ns_counter :: u64

definition newNonceSource :: "random \<Rightarrow> nat \<Rightarrow> nonce_source result" where
  "newNonceSource rnd n =
     (if n \<le> nonceCounterSize then Inl (Errorf ''nonce size is too small'')
      else bind_result (rnd (n - nonceCounterSize)) (\<lambda>prefix. Inr \<lparr>ns_prefix = prefix, ns_counter = 0\<rparr>))"

text \<open>
  next fills a buffer of \<open>n\<close> bytes. The compare-and-swap loop gives each caller its own
  increment of the counter, so a call is one step from the counter to its successor.
\<close>

definition nonceSource_next :: "nonce_source \<Rightarrow> nat \<Rightarrow> (bytes \<times> nonce_source) result" where
  "nonceSource_next s n =
     (if n \<noteq> length (ns_prefix s) + nonceCounterSize then Inl (Errorf ''invalid nonce size'')
      else if ns_counter s = - 1 then Inl (Errorf ''nonce counter exhausted'')
      else Inr (ns_prefix s @ be_put 8 (unat (ns_counter s + 1)), s\<lparr>ns_counter := ns_counter s + 1\<rparr>))"

section \<open>The five implementations\<close>

record aead_impl =
  impl_aead :: cipher_aead
  impl_nonce :: nonce_source

datatype i_encryption =
    AES256GCM aead_impl
  | Ascon128a aead_impl
  | CamelliaGCM aead_impl
  | ChaCha20Poly1305 aead_impl
  | XChaCha20Poly1305 aead_impl

fun kit_impl :: "i_encryption \<Rightarrow> aead_impl" where
  "kit_impl (AES256GCM i) = i"
| "kit_impl (Ascon128a i) = i"
| "kit_impl (CamelliaGCM i) = i"
| "kit_impl (ChaCha20Poly1305 i) = i"
| "kit_impl (XChaCha20Poly1305 i) = i"

fun kit_update :: "i_encryption \<Rightarrow> aead_impl \<Rightarrow> i_encryption" where
  "kit_update (AES256GCM _) i = AES256GCM i"
| "kit_update (Ascon128a _) i = Ascon128a i"
| "kit_update (CamelliaGCM _) i = CamelliaGCM i"
| "kit_update (ChaCha20Poly1305 _) i = ChaCha20Poly1305 i"
| "kit_update (XChaCha20Poly1305 _) i = XChaCha20Poly1305 i"

definition withNonceSource :: "random \<Rightarrow> cipher_aead \<Rightarrow> aead_impl result" where
  "withNonceSource rnd A =
     bind_result (newNonceSource rnd (NonceSize A)) (\<lambda>nonce. Inr \<lparr>impl_aead = A, impl_nonce = nonce\<rparr>)"

text \<open>
  NewAES256GCM and NewChaCha20Poly1305 overwrite the error of the HKDF read: on such an error they would go on
  with the key buffer as made, all zeros. The other three return it.
\<close>

definition NewAES256GCM :: "aead_lib \<Rightarrow> random \<Rightarrow> bytes \<Rightarrow> i_encryption result" where
  "NewAES256GCM L rnd secret =
     (let key = (case hkdf512 L secret 32 of Inl _ \<Rightarrow> replicate 32 0 | Inr k \<Rightarrow> k)
      in bind_result (aes_NewGCM L key) (\<lambda>gcm.
           bind_result (withNonceSource rnd gcm) (\<lambda>i. Inr (AES256GCM i))))"

definition NewAscon128a :: "aead_lib \<Rightarrow> random \<Rightarrow> bytes \<Rightarrow> i_encryption result" where
  "NewAscon128a L rnd secret =
     bind_result (hkdf512 L secret 16) (\<lambda>key.
       bind_result (ascon_New L key) (\<lambda>aead.
         bind_result (withNonceSource rnd aead) (\<lambda>i. Inr (Ascon128a i))))"

definition NewCamellia256GCM :: "aead_lib \<Rightarrow> random \<Rightarrow> bytes \<Rightarrow> i_encryption result" where
  "NewCamellia256GCM L rnd secret =
     bind_result (hkdf512 L secret 32) (\<lambda>key.
       bind_result (camellia_NewGCM L key) (\<lambda>aead.
         bind_result (withNonceSource rnd aead) (\<lambda>i. Inr (CamelliaGCM i))))"

definition NewChaCha20Poly1305 :: "aead_lib \<Rightarrow> random \<Rightarrow> bytes \<Rightarrow> i_encryption result" where
  "NewChaCha20Poly1305 L rnd secret =
     (let key = (case hkdf512 L secret 32 of Inl _ \<Rightarrow> replicate 32 0 | Inr k \<Rightarrow> k)
      in bind_result (chacha20poly1305_New L key) (\<lambda>aead.
           bind_result (withNonceSource rnd aead) (\<lambda>i. Inr (ChaCha20Poly1305 i))))"

definition NewXChaCha20Poly1305 :: "aead_lib \<Rightarrow> random \<Rightarrow> bytes \<Rightarrow> i_encryption result" where
  "NewXChaCha20Poly1305 L rnd secret =
     bind_result (hkdf512 L secret 32) (\<lambda>key.
       bind_result (chacha20poly1305_NewX L key) (\<lambda>aead.
         bind_result (withNonceSource rnd aead) (\<lambda>i. Inr (XChaCha20Poly1305 i))))"

text \<open>The bodies of Encrypt and Decrypt, the same in the five files: the nonce goes before the ciphertext.\<close>

definition impl_Encrypt :: "aead_impl \<Rightarrow> bytes \<Rightarrow> bytes \<Rightarrow> (bytes \<times> aead_impl) result" where
  "impl_Encrypt impl plaintext aad =
     bind_result (nonceSource_next (impl_nonce impl) (NonceSize (impl_aead impl))) (\<lambda>(nonce, s).
       Inr (nonce @ Seal (impl_aead impl) nonce plaintext aad, impl\<lparr>impl_nonce := s\<rparr>))"

definition impl_Decrypt :: "aead_impl \<Rightarrow> bytes \<Rightarrow> bytes \<Rightarrow> bytes result" where
  "impl_Decrypt impl data aad =
     (let nonceSize = NonceSize (impl_aead impl)
      in if length data < nonceSize then Inl (Errorf ''ciphertext too short'')
         else (case Open (impl_aead impl) (take nonceSize data) (drop nonceSize data) aad of
                 None \<Rightarrow> Inl (Errorf ''message authentication failed'') | Some p \<Rightarrow> Inr p))"

definition AES256GCMimpl_Encrypt :: "aead_impl \<Rightarrow> bytes \<Rightarrow> bytes \<Rightarrow> (bytes \<times> aead_impl) result" where
  "AES256GCMimpl_Encrypt impl plaintext aad = impl_Encrypt impl plaintext aad"

definition AES256GCMimpl_Decrypt :: "aead_impl \<Rightarrow> bytes \<Rightarrow> bytes \<Rightarrow> bytes result" where
  "AES256GCMimpl_Decrypt impl data aad = impl_Decrypt impl data aad"

definition Ascon128aImpl_Encrypt :: "aead_impl \<Rightarrow> bytes \<Rightarrow> bytes \<Rightarrow> (bytes \<times> aead_impl) result" where
  "Ascon128aImpl_Encrypt impl plaintext aad = impl_Encrypt impl plaintext aad"

definition Ascon128aImpl_Decrypt :: "aead_impl \<Rightarrow> bytes \<Rightarrow> bytes \<Rightarrow> bytes result" where
  "Ascon128aImpl_Decrypt impl data aad = impl_Decrypt impl data aad"

definition CamelliaGCMImpl_Encrypt :: "aead_impl \<Rightarrow> bytes \<Rightarrow> bytes \<Rightarrow> (bytes \<times> aead_impl) result" where
  "CamelliaGCMImpl_Encrypt impl plaintext aad = impl_Encrypt impl plaintext aad"

definition CamelliaGCMImpl_Decrypt :: "aead_impl \<Rightarrow> bytes \<Rightarrow> bytes \<Rightarrow> bytes result" where
  "CamelliaGCMImpl_Decrypt impl data aad = impl_Decrypt impl data aad"

definition ChaCha20Poly1305Impl_Encrypt :: "aead_impl \<Rightarrow> bytes \<Rightarrow> bytes \<Rightarrow> (bytes \<times> aead_impl) result" where
  "ChaCha20Poly1305Impl_Encrypt impl plaintext aad = impl_Encrypt impl plaintext aad"

definition ChaCha20Poly1305Impl_Decrypt :: "aead_impl \<Rightarrow> bytes \<Rightarrow> bytes \<Rightarrow> bytes result" where
  "ChaCha20Poly1305Impl_Decrypt impl data aad = impl_Decrypt impl data aad"

definition XChaCha20Poly1305Impl_Encrypt :: "aead_impl \<Rightarrow> bytes \<Rightarrow> bytes \<Rightarrow> (bytes \<times> aead_impl) result" where
  "XChaCha20Poly1305Impl_Encrypt impl plaintext aad = impl_Encrypt impl plaintext aad"

definition XChaCha20Poly1305Impl_Decrypt :: "aead_impl \<Rightarrow> bytes \<Rightarrow> bytes \<Rightarrow> bytes result" where
  "XChaCha20Poly1305Impl_Decrypt impl data aad = impl_Decrypt impl data aad"

text \<open>The calls through the interface, dispatched on the implementation.\<close>

definition rewrap :: "(aead_impl \<Rightarrow> i_encryption) \<Rightarrow> (bytes \<times> aead_impl) result \<Rightarrow> (bytes \<times> i_encryption) result" where
  "rewrap C r = bind_result r (\<lambda>(data, i). Inr (data, C i))"

fun IEncryption_Encrypt :: "i_encryption \<Rightarrow> bytes \<Rightarrow> bytes \<Rightarrow> (bytes \<times> i_encryption) result" where
  "IEncryption_Encrypt (AES256GCM i) p a = rewrap AES256GCM (AES256GCMimpl_Encrypt i p a)"
| "IEncryption_Encrypt (Ascon128a i) p a = rewrap Ascon128a (Ascon128aImpl_Encrypt i p a)"
| "IEncryption_Encrypt (CamelliaGCM i) p a = rewrap CamelliaGCM (CamelliaGCMImpl_Encrypt i p a)"
| "IEncryption_Encrypt (ChaCha20Poly1305 i) p a = rewrap ChaCha20Poly1305 (ChaCha20Poly1305Impl_Encrypt i p a)"
| "IEncryption_Encrypt (XChaCha20Poly1305 i) p a = rewrap XChaCha20Poly1305 (XChaCha20Poly1305Impl_Encrypt i p a)"

fun IEncryption_Decrypt :: "i_encryption \<Rightarrow> bytes \<Rightarrow> bytes \<Rightarrow> bytes result" where
  "IEncryption_Decrypt (AES256GCM i) data a = AES256GCMimpl_Decrypt i data a"
| "IEncryption_Decrypt (Ascon128a i) data a = Ascon128aImpl_Decrypt i data a"
| "IEncryption_Decrypt (CamelliaGCM i) data a = CamelliaGCMImpl_Decrypt i data a"
| "IEncryption_Decrypt (ChaCha20Poly1305 i) data a = ChaCha20Poly1305Impl_Decrypt i data a"
| "IEncryption_Decrypt (XChaCha20Poly1305 i) data a = XChaCha20Poly1305Impl_Decrypt i data a"

lemmas impl_method_defs =
  AES256GCMimpl_Encrypt_def AES256GCMimpl_Decrypt_def
  Ascon128aImpl_Encrypt_def Ascon128aImpl_Decrypt_def
  CamelliaGCMImpl_Encrypt_def CamelliaGCMImpl_Decrypt_def
  ChaCha20Poly1305Impl_Encrypt_def ChaCha20Poly1305Impl_Decrypt_def
  XChaCha20Poly1305Impl_Encrypt_def XChaCha20Poly1305Impl_Decrypt_def

lemma IEncryption_Encrypt_eq:
  "IEncryption_Encrypt kit p a = bind_result (impl_Encrypt (kit_impl kit) p a) (\<lambda>(data, i). Inr (data, kit_update kit i))"
  by (cases kit) (auto simp: impl_method_defs rewrap_def)

lemma IEncryption_Decrypt_eq: "IEncryption_Decrypt kit data a = impl_Decrypt (kit_impl kit) data a"
  by (cases kit) (auto simp: impl_method_defs)

lemma kit_impl_update [simp]: "kit_impl (kit_update kit i) = i"
  by (cases kit) auto

text \<open>What a kit encrypts under, that is all but its nonce counter; encryption keeps it.\<close>

abbreviation kit_aead :: "i_encryption \<Rightarrow> cipher_aead" where
  "kit_aead kit \<equiv> impl_aead (kit_impl kit)"

section \<open>Round trip and nonce uniqueness\<close>

lemma Encrypt_Inr:
  assumes "IEncryption_Encrypt kit p a = Inr (data, kit')"
  obtains nonce where "data = nonce @ Seal (kit_aead kit) nonce p a" "length nonce = NonceSize (kit_aead kit)"
    "kit_aead kit' = kit_aead kit"
    "nonce = ns_prefix (impl_nonce (kit_impl kit)) @ be_put 8 (unat (ns_counter (impl_nonce (kit_impl kit'))))"
    "ns_prefix (impl_nonce (kit_impl kit')) = ns_prefix (impl_nonce (kit_impl kit))"
    "unat (ns_counter (impl_nonce (kit_impl kit'))) = Suc (unat (ns_counter (impl_nonce (kit_impl kit))))"
proof -
  let ?s = "impl_nonce (kit_impl kit)"
  from assms have n: "NonceSize (kit_aead kit) = length (ns_prefix ?s) + nonceCounterSize" "ns_counter ?s \<noteq> -1"
    and d: "data = (ns_prefix ?s @ be_put 8 (unat (ns_counter ?s + 1))) @
      Seal (kit_aead kit) (ns_prefix ?s @ be_put 8 (unat (ns_counter ?s + 1))) p a"
    and k: "kit' = kit_update kit (kit_impl kit\<lparr>impl_nonce := ?s\<lparr>ns_counter := ns_counter ?s + 1\<rparr>\<rparr>)"
    by (auto simp: IEncryption_Encrypt_eq impl_Encrypt_def nonceSource_next_def bind_result_Inr_iff split: if_splits)
  have "unat (ns_counter ?s + 1) = Suc (unat (ns_counter ?s))"
    using n(2) by (rule unat_succ)
  with n d k that show thesis by (simp add: nonceCounterSize_def)
qed

lemma Decrypt_Encrypt:
  assumes "IEncryption_Encrypt kit p a = Inr (data, kit')" and "aead_ok (kit_aead kit)" and "kit_aead r = kit_aead kit"
  shows "IEncryption_Decrypt r data a = Inr p" and "length p \<le> length data"
  using assms by (auto elim!: Encrypt_Inr simp: IEncryption_Decrypt_eq impl_Decrypt_def aead_ok_def)

lemma Decrypt_Inr:
  assumes "IEncryption_Decrypt kit data a = Inr p" and "aead_tidy (kit_aead kit)"
  shows "\<exists>nonce. data = nonce @ Seal (kit_aead kit) nonce p a"
  using assms
  by (intro exI [of _ "take (NonceSize (kit_aead kit)) data"])
    (auto simp: IEncryption_Decrypt_eq impl_Decrypt_def aead_tidy_def Let_def split: if_splits option.splits
      intro: append_take_drop_id [symmetric] dest!: sym [of "drop _ _"])

text \<open>The ciphertexts of one kit, encrypting one message after the other until an error.\<close>

fun encrypt_run :: "i_encryption \<Rightarrow> (bytes \<times> bytes) list \<Rightarrow> bytes list" where
  "encrypt_run kit [] = []"
| "encrypt_run kit ((p, a) # msgs) =
     (case IEncryption_Encrypt kit p a of Inl _ \<Rightarrow> [] | Inr (data, kit') \<Rightarrow> data # encrypt_run kit' msgs)"

lemma encrypt_run_nonces:
  "data \<in> set (encrypt_run kit msgs) \<Longrightarrow>
     \<exists>c > unat (ns_counter (impl_nonce (kit_impl kit))). c < 2 ^ 64 \<and>
       take (NonceSize (kit_aead kit)) data = ns_prefix (impl_nonce (kit_impl kit)) @ be_put 8 c"
proof (induction kit msgs rule: encrypt_run.induct)
  case (1 kit)
  then show ?case by simp
next
  case (2 kit p a msgs)
  then obtain d kit' where e: "IEncryption_Encrypt kit p a = Inr (d, kit')"
    by (cases "IEncryption_Encrypt kit p a") auto
  let ?c = "ns_counter (impl_nonce (kit_impl kit'))"
  have c: "unat ?c < 2 ^ 64" using unsigned_less [of ?c, where 'a = nat] by simp
  show ?case
  proof (cases "data = d")
    case True
    with e c show ?thesis by (auto elim!: Encrypt_Inr intro!: exI [of _ "unat ?c"])
  next
    case False
    with 2 e obtain c' where "c' > unat ?c" "c' < 2 ^ 64"
      "take (NonceSize (kit_aead kit')) data = ns_prefix (impl_nonce (kit_impl kit')) @ be_put 8 c'"
      by fastforce
    with e show ?thesis by (auto elim!: Encrypt_Inr intro!: exI [of _ c'])
  qed
qed

text \<open>
  C28. An encrypting instance never uses a nonce twice. Whatever messages one kit of any
  of the five kinds encrypts, from whatever counter value, the nonces in front of its
  ciphertexts are pairwise different; when the 64-bit counter is exhausted it refuses to encrypt.
\<close>

theorem nonces_distinct:
  "distinct (map (take (NonceSize (kit_aead kit))) (encrypt_run kit msgs))"
proof (induction kit msgs rule: encrypt_run.induct)
  case (1 kit)
  then show ?case by simp
next
  case (2 kit p a msgs)
  show ?case
  proof (cases "IEncryption_Encrypt kit p a")
    case (Inl e)
    then show ?thesis by simp
  next
    case (Inr dk)
    obtain d kit' where dk: "dk = (d, kit')" by (cases dk)
    let ?c = "unat (ns_counter (impl_nonce (kit_impl kit')))"
    have e: "IEncryption_Encrypt kit p a = Inr (d, kit')" using Inr dk by simp
    have c: "?c < 2 ^ 64" using unsigned_less [of "ns_counter (impl_nonce (kit_impl kit'))", where 'a = nat] by simp
    have "take (NonceSize (kit_aead kit)) d \<noteq> take (NonceSize (kit_aead kit)) data" if "data \<in> set (encrypt_run kit' msgs)" for data
      using encrypt_run_nonces [OF that] e c by (auto elim!: Encrypt_Inr dest!: be_put_inj [rotated 2])
    with 2 e show ?thesis by (auto elim: Encrypt_Inr)
  qed
qed

section \<open>A library with laws\<close>

text \<open>Every constructor that gives a cipher gives one that keeps the contract.\<close>

definition lib_ok :: "aead_lib \<Rightarrow> bool" where
  "lib_ok L \<longleftrightarrow> (\<forall>k A. aes_NewGCM L k = Inr A \<or> ascon_New L k = Inr A \<or> camellia_NewGCM L k = Inr A \<or>
     chacha20poly1305_New L k = Inr A \<or> chacha20poly1305_NewX L k = Inr A \<longrightarrow> aead_ok A \<and> aead_tidy A)"

text \<open>A concrete cipher that keeps the contract: the text in the clear and a 16-byte checksum.\<close>

definition sum_tag :: "bytes \<Rightarrow> bytes \<Rightarrow> bytes \<Rightarrow> bytes \<Rightarrow> bytes" where
  "sum_tag k n p a = be_put 16 (be_get k + 3 * be_get n + 5 * be_get p + 7 * be_get a)"

definition sum_aead :: "bytes \<Rightarrow> cipher_aead" where
  "sum_aead k =
     \<lparr>NonceSize = 12, Overhead = 16, Seal = (\<lambda>n p a. p @ sum_tag k n p a),
      Open = (\<lambda>n c a. let p = take (length c - 16) c in if drop (length c - 16) c = sum_tag k n p a then Some p else None)\<rparr>"

lemma sum_aead_ok: "aead_ok (sum_aead k)" "aead_tidy (sum_aead k)"
  by (auto simp: aead_ok_def aead_tidy_def sum_aead_def sum_tag_def Let_def split: if_splits)
    (metis append_take_drop_id)

definition sum_lib :: aead_lib where
  "sum_lib = crypto_lib.extend symbolic_lib
     \<lparr>hkdf512 = (\<lambda>secret n. Inr (take n (secret @ replicate n 0))), aes_NewGCM = (\<lambda>k. Inr (sum_aead k)),
      ascon_New = (\<lambda>k. Inr (sum_aead k)), camellia_NewGCM = (\<lambda>k. Inr (sum_aead k)),
      chacha20poly1305_New = (\<lambda>k. Inr (sum_aead k)), chacha20poly1305_NewX = (\<lambda>k. Inr (sum_aead k))\<rparr>"

lemma sum_lib_ok: "lib_ok sum_lib"
  by (auto simp: lib_ok_def sum_lib_def crypto_lib.defs sum_aead_ok)

end
