(* ===== verification/Codec.thy ===== *)
theory Codec
  imports Encryption
begin

text \<open>
  The message codec of peer/codec.go with the message types of peer/types.go: additional data per
  cryptographic domain, encryption and decryption of data, headers and payloads. encoding/gob is an
  argument (\<open>gob\<close>), as are the ciphers. Operations that encrypt advance the nonce counter, so they
  return the codec, also on an error.
\<close>

section \<open>Messages (types.go)\<close>

text \<open>Values of type any, pion/webrtc's session description and candidate with the fields the messages carry.\<close>

datatype go_any = AnyNil | AnyBool bool | AnyInt int | AnyString string | AnyBytes bytes

record session_description =
  sd_Type :: int
  sd_SDP :: string

record ice_candidate_init =
  ic_Candidate :: string
  ic_SDPMid :: "string option"
  ic_SDPMLineIndex :: "nat option"
  ic_UsernameFragment :: "string option"

definition ICECandidateSize :: "ice_candidate_init option \<Rightarrow> nat" where
  "ICECandidateSize candidate =
     (case candidate of
        None \<Rightarrow> 0
      | Some c \<Rightarrow>
          length (ic_Candidate c)
          + (case ic_SDPMid c of None \<Rightarrow> 0 | Some s \<Rightarrow> length s)
          + (case ic_UsernameFragment c of None \<Rightarrow> 0 | Some s \<Rightarrow> length s)
          + 16)"

datatype message_type =
    ClientHello | ServerHello | Offer | Answer | ICE | TransportSelect | ICEOffer | ICEAnswer | Disconnect
  | OtherType string

record header =
  hd_Type :: message_type
  hd_SourceId :: string
  hd_TargetId :: string
  hd_Sequence :: u64
  hd_HandshakeNonce :: bytes
  hd_Metadata :: "string \<rightharpoonup> go_any"

record payload =
  pl_SDP :: "session_description option"
  pl_ICE :: "ice_candidate_init option"
  pl_SessionSalt :: bytes
  pl_ClientNonce :: bytes
  pl_ServerNonce :: bytes
  pl_ClientEphemeralKey :: bytes
  pl_ServerEphemeralKey :: bytes
  pl_Signature :: bytes
  pl_HandshakeRoomID :: string
  pl_HandshakeClientID :: string
  pl_Timestamp :: bytes
  pl_Transports :: "string list"
  pl_Transport :: string
  pl_ICEUsername :: string
  pl_ICEPassword :: string
  pl_ICECandidates :: "string list"
  pl_Data :: go_any

record message =
  msg_Header :: "header option"
  msg_Payload :: "payload option"
  msg_Encrypt :: bool

definition zero_header :: header where
  "zero_header = \<lparr>hd_Type = OtherType [], hd_SourceId = [], hd_TargetId = [], hd_Sequence = 0, hd_HandshakeNonce = [],
     hd_Metadata = Map.empty\<rparr>"

definition zero_payload :: payload where
  "zero_payload = \<lparr>pl_SDP = None, pl_ICE = None, pl_SessionSalt = [], pl_ClientNonce = [], pl_ServerNonce = [],
     pl_ClientEphemeralKey = [], pl_ServerEphemeralKey = [], pl_Signature = [], pl_HandshakeRoomID = [],
     pl_HandshakeClientID = [], pl_Timestamp = [], pl_Transports = [], pl_Transport = [], pl_ICEUsername = [],
     pl_ICEPassword = [], pl_ICECandidates = [], pl_Data = AnyNil\<rparr>"

text \<open>
  encoding/gob for the three types the codec passes to it: Marshal drops the encoder's error
  and keeps the bytes written, so it gives bytes.
\<close>

record gob =
  Header_Marshal :: "header \<Rightarrow> bytes"
  Header_Unmarshal :: "bytes \<Rightarrow> header result"
  Payload_Marshal :: "payload \<Rightarrow> bytes"
  Payload_Unmarshal :: "bytes \<Rightarrow> payload result"
  Chunks_Encode :: "bytes list \<Rightarrow> bytes result"
  Chunks_Decode :: "bytes \<Rightarrow> bytes list result"

text \<open>
  What the round trip asks of gob for one message: the decoder inverts the encoder on its
  header, its payload and every list of chunks, no encoding is empty, and a list of chunks is encoded in at least as
  many bytes as each of its chunks.
\<close>

definition gob_ok :: "gob \<Rightarrow> header \<Rightarrow> payload \<Rightarrow> bool" where
  "gob_ok G h p \<longleftrightarrow>
     Header_Unmarshal G (Header_Marshal G h) = Inr h \<and> Header_Marshal G h \<noteq> [] \<and>
     Payload_Unmarshal G (Payload_Marshal G p) = Inr p \<and> Payload_Marshal G p \<noteq> [] \<and>
     (\<forall>cs d. Chunks_Encode G cs = Inr d \<longrightarrow> Chunks_Decode G d = Inr cs \<and> d \<noteq> [] \<and> (\<forall>c \<in> set cs. length c \<le> length d))"

section \<open>The codec\<close>

definition AES_256_GCM :: string where "AES_256_GCM = ''aes-256-gcm''"
definition ASCON_128A :: string where "ASCON_128A = ''ascon-128a''"
definition CAMELLIA_256 :: string where "CAMELLIA_256 = ''camellia-256-gcm''"
definition CHACHA20_POLY1305 :: string where "CHACHA20_POLY1305 = ''chacha20-poly1305''"
definition XCHACHA20_POLY1305 :: string where "XCHACHA20_POLY1305 = ''xchacha20-poly1305''"

definition ENCRYPT_PARTIALY :: byte where "ENCRYPT_PARTIALY = 0"
definition ENCRYPT_GLOBALLY :: byte where "ENCRYPT_GLOBALLY = 1"
definition maxSignalingPacketSize :: int where "maxSignalingPacketSize = 16 * 2 ^ 20"
definition aadDomainData :: byte where "aadDomainData = 1"
definition aadDomainHeader :: byte where "aadDomainHeader = 2"
definition aadDomainPayload :: byte where "aadDomainPayload = 3"

record codec =
  cd_secret :: bytes
  cd_typ :: string
  cd_encryptionKit :: "i_encryption option"
  cd_additionalData :: bytes
  cd_dataAAD :: bytes
  cd_headerAAD :: bytes

definition createEncryptKit :: "aead_lib \<Rightarrow> random \<Rightarrow> string \<Rightarrow> bytes \<Rightarrow> i_encryption result" where
  "createEncryptKit L rnd encryptionType secret =
     (if encryptionType = AES_256_GCM then NewAES256GCM L rnd secret
      else if encryptionType = ASCON_128A then NewAscon128a L rnd secret
      else if encryptionType = CAMELLIA_256 then NewCamellia256GCM L rnd secret
      else if encryptionType = CHACHA20_POLY1305 then NewChaCha20Poly1305 L rnd secret
      else if encryptionType = XCHACHA20_POLY1305 then NewXChaCha20Poly1305 L rnd secret
      else Inl (Errorf ''unknown encryption type''))"

definition buildAdditionalData :: "bytes \<Rightarrow> byte \<Rightarrow> bytes \<Rightarrow> bytes" where
  "buildAdditionalData aad domain context =
     [2, 0, domain] @ replicate 15 0 @ [of_nat (length aad)] @ aad @ be_put 4 (length context) @ context"

definition additionalDataFor :: "codec \<Rightarrow> byte \<Rightarrow> bytes \<Rightarrow> bytes" where
  "additionalDataFor e domain context =
     (if context = [] \<and> domain = aadDomainData then cd_dataAAD e
      else if context = [] \<and> domain = aadDomainHeader then cd_headerAAD e
      else buildAdditionalData (cd_additionalData e) domain context)"

definition NewCodec :: "aead_lib \<Rightarrow> random \<Rightarrow> string \<Rightarrow> bytes \<Rightarrow> bytes \<Rightarrow> codec result" where
  "NewCodec L rnd encryptionType secret additionalData =
     (if length additionalData > 64 then Inl (Errorf ''additional data is too long'')
      else bind_result (createEncryptKit L rnd encryptionType secret) (\<lambda>kit.
        Inr \<lparr>cd_secret = secret, cd_typ = encryptionType, cd_encryptionKit = Some kit, cd_additionalData = additionalData,
             cd_dataAAD = buildAdditionalData additionalData aadDomainData [],
             cd_headerAAD = buildAdditionalData additionalData aadDomainHeader []\<rparr>))"

definition Codec_UpdateSecret :: "aead_lib \<Rightarrow> random \<Rightarrow> codec \<Rightarrow> string \<Rightarrow> bytes \<Rightarrow> codec result" where
  "Codec_UpdateSecret L rnd e encryptionType secret =
     (if cd_typ e = encryptionType \<and> cd_secret e = secret then Inr e
      else bind_result (createEncryptKit L rnd encryptionType secret) (\<lambda>kit.
        Inr (e\<lparr>cd_encryptionKit := Some kit, cd_secret := secret, cd_typ := encryptionType\<rparr>)))"

definition Codec_GetSecret :: "codec \<Rightarrow> string \<times> bytes" where
  "Codec_GetSecret e = (cd_typ e, cd_secret e)"

definition encodeWithEncryption :: "codec \<Rightarrow> bytes \<Rightarrow> byte \<Rightarrow> bytes \<Rightarrow> bytes result \<times> codec" where
  "encodeWithEncryption e data domain context =
     (if data = [] then (Inl (Errorf ''message data is empty''), e)
      else (case cd_encryptionKit e of
              None \<Rightarrow> (Inl (Errorf ''encryption kit is not set''), e)
            | Some kit \<Rightarrow>
                (case IEncryption_Encrypt kit data (additionalDataFor e domain context) of
                   Inl err \<Rightarrow> (Inl err, e)
                 | Inr (dataBytes, kit') \<Rightarrow> (Inr dataBytes, e\<lparr>cd_encryptionKit := Some kit'\<rparr>))))"

definition Codec_EncodeWithEncryption :: "codec \<Rightarrow> bytes \<Rightarrow> bytes result \<times> codec" where
  "Codec_EncodeWithEncryption e data = encodeWithEncryption e data aadDomainData []"

definition decodeWithDecryption :: "codec \<Rightarrow> bytes \<Rightarrow> byte \<Rightarrow> bytes \<Rightarrow> int \<Rightarrow> bytes result" where
  "decodeWithDecryption e data domain context maxDecodedSize =
     (if data = [] then Inl (Errorf ''data is empty'')
      else (case cd_encryptionKit e of
              None \<Rightarrow> Inl (Errorf ''encryption kit is not set'')
            | Some kit \<Rightarrow>
                bind_result (IEncryption_Decrypt kit data (additionalDataFor e domain context)) (\<lambda>dataBytes.
                  if maxDecodedSize > 0 \<and> int (length dataBytes) > maxDecodedSize
                  then Inl (Errorf ''decrypted data exceeds the limit'') else Inr dataBytes)))"

definition Codec_DecodeWithDecryption :: "codec \<Rightarrow> bytes \<Rightarrow> bytes result" where
  "Codec_DecodeWithDecryption e data = decodeWithDecryption e data aadDomainData [] maxSignalingPacketSize"

definition Codec_DecodeWithDecryptionLimit :: "codec \<Rightarrow> bytes \<Rightarrow> int \<Rightarrow> bytes result" where
  "Codec_DecodeWithDecryptionLimit e data maxDecodedSize = decodeWithDecryption e data aadDomainData [] maxDecodedSize"

text \<open>
  EncodeMessage stores an empty header or payload into a message that has none; the message it works on is
  the one with the defaults filled in. The header is encrypted before the payload.
\<close>

definition Codec_EncodeMessage :: "gob \<Rightarrow> codec \<Rightarrow> message option \<Rightarrow> bytes result \<times> codec" where
  "Codec_EncodeMessage G e m =
     (case m of
        None \<Rightarrow> (Inl (Errorf ''message is nil''), e)
      | Some msg \<Rightarrow>
          (let h = (case msg_Header msg of None \<Rightarrow> zero_header | Some h \<Rightarrow> h);
               p = (case msg_Payload msg of None \<Rightarrow> zero_payload | Some p \<Rightarrow> p);
               plainHeaderBytes = Header_Marshal G h
           in (case (if msg_Encrypt msg then encodeWithEncryption e plainHeaderBytes aadDomainHeader []
                     else (Inr plainHeaderBytes, e)) of
                 (Inl err, e1) \<Rightarrow> (Inl err, e1)
               | (Inr headerBytes, e1) \<Rightarrow>
                   (case encodeWithEncryption e1 (Payload_Marshal G p) aadDomainPayload plainHeaderBytes of
                      (Inl err, e2) \<Rightarrow> (Inl err, e2)
                    | (Inr payloadBytes, e2) \<Rightarrow>
                        (Chunks_Encode G [headerBytes, payloadBytes,
                           [if msg_Encrypt msg then ENCRYPT_GLOBALLY else ENCRYPT_PARTIALY]], e2)))))"

definition validateDataChunks :: "bytes list \<Rightarrow> unit result" where
  "validateDataChunks dataChunks =
     (if dataChunks ! 0 = [] \<or> dataChunks ! 1 = [] then Inl (Errorf ''message contains an empty header or payload'')
      else (let flag = dataChunks ! 2
            in if length flag \<noteq> 1 \<or> (flag ! 0 \<noteq> ENCRYPT_PARTIALY \<and> flag ! 0 \<noteq> ENCRYPT_GLOBALLY)
               then Inl (Errorf ''message contains an invalid encryption flag'') else Inr ()))"

text \<open>The checks that DecodeMessageHeader and DecodeMessage start with, up to the chunks.\<close>

definition decodeChunks :: "gob \<Rightarrow> bytes \<Rightarrow> bytes list result" where
  "decodeChunks G data =
     (if data = [] then Inl (Errorf ''data is empty'')
      else if int (length data) > maxSignalingPacketSize then Inl (Errorf ''signaling packet exceeds the limit'')
      else bind_result (Chunks_Decode G data) (\<lambda>dataChunks.
        if length dataChunks \<noteq> 3 then Inl (Errorf ''invalid message length'')
        else bind_result (validateDataChunks dataChunks) (\<lambda>_. Inr dataChunks)))"

definition decodeHeaderBytes :: "codec \<Rightarrow> bytes list \<Rightarrow> bytes result" where
  "decodeHeaderBytes e dataChunks =
     (if dataChunks ! 2 ! 0 = ENCRYPT_GLOBALLY
      then decodeWithDecryption e (dataChunks ! 0) aadDomainHeader [] maxSignalingPacketSize
      else Inr (dataChunks ! 0))"

definition Codec_DecodeMessageHeader :: "gob \<Rightarrow> codec \<Rightarrow> bytes \<Rightarrow> header result" where
  "Codec_DecodeMessageHeader G e data =
     bind_result (decodeChunks G data) (\<lambda>dataChunks.
       bind_result (decodeHeaderBytes e dataChunks) (Header_Unmarshal G))"

definition Codec_DecodeMessage :: "gob \<Rightarrow> codec \<Rightarrow> bytes \<Rightarrow> message result" where
  "Codec_DecodeMessage G e data =
     bind_result (decodeChunks G data) (\<lambda>dataChunks.
       bind_result (decodeHeaderBytes e dataChunks) (\<lambda>headerBytes.
         bind_result (Header_Unmarshal G headerBytes) (\<lambda>header.
           bind_result (decodeWithDecryption e (dataChunks ! 1) aadDomainPayload headerBytes maxSignalingPacketSize) (\<lambda>payloadBytes.
             bind_result (Payload_Unmarshal G payloadBytes) (\<lambda>payload.
               Inr \<lparr>msg_Header = Some header, msg_Payload = Some payload,
                    msg_Encrypt = (dataChunks ! 2 ! 0 = ENCRYPT_GLOBALLY)\<rparr>)))))"

section \<open>Additional data\<close>

text \<open>
  C27. The additional data separates the domains and binds its parts: for user data of at most 64
  bytes, which NewCodec enforces, and contexts shorter than 4 GiB, two equal encodings have the same
  user data, the same domain and the same context.
\<close>

theorem buildAdditionalData_inj:
  assumes "length aad \<le> 64" "length aad' \<le> 64" "length context < 2 ^ 32" "length context' < 2 ^ 32"
    and "buildAdditionalData aad domain context = buildAdditionalData aad' domain' context'"
  shows "aad = aad' \<and> domain = domain' \<and> context = context'"
proof -
  have l: "(of_nat (length aad) :: byte) = of_nat (length aad')" and d: "domain = domain'"
    and r: "aad @ be_put 4 (length context) @ context = aad' @ be_put 4 (length context') @ context'"
    using assms(5) by (simp_all add: buildAdditionalData_def)
  from arg_cong [where f = unat, OF l] have "length aad mod 256 = length aad' mod 256"
    by (simp add: unat_of_nat take_bit_eq_mod)
  with assms(1,2) have "length aad = length aad'" by simp
  with r have a: "aad = aad'" and "be_put 4 (length context) @ context = be_put 4 (length context') @ context'"
    by simp_all
  then show ?thesis using d by (simp add: append_eq_append_conv)
qed

theorem buildAdditionalData_inj_witness:
  "buildAdditionalData [7] aadDomainPayload [1, 2] = buildAdditionalData [7] aadDomainPayload [1, 2] \<and>
   buildAdditionalData [7] aadDomainPayload [1, 2] \<noteq> buildAdditionalData [7, 0] aadDomainPayload [1, 2] \<and>
   buildAdditionalData [7] aadDomainData [] \<noteq> buildAdditionalData [7] aadDomainHeader []"
  using buildAdditionalData_inj [of "[7]" "[7]" "[1, 2]" "[1, 2]" aadDomainPayload aadDomainPayload]
    buildAdditionalData_inj [of "[7]" "[7, 0]" "[1, 2]" "[1, 2]" aadDomainPayload aadDomainPayload]
    buildAdditionalData_inj [of "[7]" "[7]" "[]" "[]" aadDomainData aadDomainHeader]
  by (auto simp: aadDomainData_def aadDomainHeader_def)

definition codec_inv :: "codec \<Rightarrow> bool" where
  "codec_inv e \<longleftrightarrow> cd_dataAAD e = buildAdditionalData (cd_additionalData e) aadDomainData [] \<and>
     cd_headerAAD e = buildAdditionalData (cd_additionalData e) aadDomainHeader []"

lemma additionalDataFor_eq: "codec_inv e \<Longrightarrow> additionalDataFor e domain context = buildAdditionalData (cd_additionalData e) domain context"
  by (auto simp: additionalDataFor_def codec_inv_def)

section \<open>Round trip\<close>

text \<open>A sending and a receiving codec that use the same cipher under the same key and the same user data.\<close>

definition codec_match :: "codec \<Rightarrow> codec \<Rightarrow> bool" where
  "codec_match s r \<longleftrightarrow> codec_inv s \<and> codec_inv r \<and> cd_additionalData s = cd_additionalData r \<and>
     (\<exists>ks kr. cd_encryptionKit s = Some ks \<and> cd_encryptionKit r = Some kr \<and> kit_aead ks = kit_aead kr \<and> aead_ok (kit_aead kr))"

lemma decode_encode:
  assumes m: "codec_match s r" and e: "encodeWithEncryption s p domain context = (Inr data, s')"
    and lim: "limit \<le> 0 \<or> int (length p) \<le> limit"
  shows "decodeWithDecryption r data domain context limit = Inr p" and "codec_match s' r" and "length p \<le> length data" and "data \<noteq> []"
proof -
  obtain ks kr where k: "cd_encryptionKit s = Some ks" "cd_encryptionKit r = Some kr" "kit_aead ks = kit_aead kr" "aead_ok (kit_aead kr)"
    and i: "codec_inv s" "codec_inv r" "cd_additionalData s = cd_additionalData r"
    using m by (auto simp: codec_match_def)
  obtain ks' where enc: "IEncryption_Encrypt ks p (additionalDataFor s domain context) = Inr (data, ks')"
    and s': "s' = s\<lparr>cd_encryptionKit := Some ks'\<rparr>" and p: "p \<noteq> []"
    using e k(1) by (auto simp: encodeWithEncryption_def split: if_splits sum.splits)
  have aad: "additionalDataFor s domain context = additionalDataFor r domain context"
    using i by (simp add: additionalDataFor_eq)
  have ok: "aead_ok (kit_aead ks)" unfolding k(3) by (rule k(4))
  note dec = Decrypt_Encrypt [OF enc ok k(3) [symmetric]]
  show "length p \<le> length data" by (rule dec(2))
  with p show ne: "data \<noteq> []" by (cases p) auto
  from dec(1) k(2) ne lim show "decodeWithDecryption r data domain context limit = Inr p"
    unfolding aad by (auto simp: decodeWithDecryption_def)
  from enc have "kit_aead ks' = kit_aead ks" by (rule Encrypt_Inr)
  with k i s' show "codec_match s' r" by (simp add: codec_match_def codec_inv_def)
qed

definition filled :: "message \<Rightarrow> message" where
  "filled m = m\<lparr>msg_Header := Some (case msg_Header m of None \<Rightarrow> zero_header | Some h \<Rightarrow> h),
     msg_Payload := Some (case msg_Payload m of None \<Rightarrow> zero_payload | Some p \<Rightarrow> p)\<rparr>"

lemma filled_fields:
  "the (msg_Header (filled m)) = (case msg_Header m of None \<Rightarrow> zero_header | Some h \<Rightarrow> h)"
  "the (msg_Payload (filled m)) = (case msg_Payload m of None \<Rightarrow> zero_payload | Some p \<Rightarrow> p)"
  by (simp_all add: filled_def)

lemma DecodeMessage_EncodeMessage:
  assumes m: "codec_match s r" and e: "Codec_EncodeMessage G s (Some m) = (Inr data, s')"
    and g: "gob_ok G (the (msg_Header (filled m))) (the (msg_Payload (filled m)))"
    and len: "int (length data) \<le> maxSignalingPacketSize"
  shows "Codec_DecodeMessage G r data = Inr (filled m)"
    and "Codec_DecodeMessageHeader G r data = Inr (the (msg_Header (filled m)))" and "codec_match s' r"
proof -
  let ?h = "the (msg_Header (filled m))" and ?p = "the (msg_Payload (filled m))"
  let ?flag = "if msg_Encrypt m then ENCRYPT_GLOBALLY else ENCRYPT_PARTIALY"
  let ?enc = "if msg_Encrypt m then encodeWithEncryption s (Header_Marshal G ?h) aadDomainHeader []
      else (Inr (Header_Marshal G ?h), s)"
  have "Codec_EncodeMessage G s (Some m) =
      (case ?enc of (Inl err, e1) \<Rightarrow> (Inl err, e1)
       | (Inr headerBytes, e1) \<Rightarrow>
           (case encodeWithEncryption e1 (Payload_Marshal G ?p) aadDomainPayload (Header_Marshal G ?h) of
              (Inl err, e2) \<Rightarrow> (Inl err, e2)
            | (Inr payloadBytes, e2) \<Rightarrow> (Chunks_Encode G [headerBytes, payloadBytes, [?flag]], e2)))"
    unfolding Codec_EncodeMessage_def filled_fields Let_def by simp
  then obtain hb s1 pb where h: "?enc = (Inr hb, s1)"
    and p: "encodeWithEncryption s1 (Payload_Marshal G ?p) aadDomainPayload (Header_Marshal G ?h) = (Inr pb, s')"
    and c: "Chunks_Encode G [hb, pb, [?flag]] = Inr data"
    using e by (cases ?enc) (auto split: sum.splits prod.splits)
  have ch: "Chunks_Decode G data = Inr [hb, pb, [?flag]]" "data \<noteq> []" "length hb \<le> length data" "length pb \<le> length data"
    using g c by (auto simp: gob_ok_def)
  have hb: "hb \<noteq> []" "codec_match s1 r" "length (Header_Marshal G ?h) \<le> length hb"
    using h m g decode_encode(2,3,4) [OF m, where limit = 0] by (auto simp: gob_ok_def split: if_splits)
  have pb: "pb \<noteq> []" "codec_match s' r" "length (Payload_Marshal G ?p) \<le> length pb"
    using decode_encode(2,3,4) [OF hb(2) p, of 0] by auto
  show "codec_match s' r" by (rule pb)
  have chunks: "decodeChunks G data = Inr [hb, pb, [?flag]]"
    using ch len hb pb by (simp add: decodeChunks_def validateDataChunks_def ENCRYPT_GLOBALLY_def ENCRYPT_PARTIALY_def)
  have hdec: "decodeHeaderBytes r [hb, pb, [?flag]] = Inr (Header_Marshal G ?h)"
    using h hb(3) ch(3) len decode_encode(1) [OF m, where limit = maxSignalingPacketSize]
    by (auto simp: decodeHeaderBytes_def ENCRYPT_GLOBALLY_def ENCRYPT_PARTIALY_def split: if_splits)
  have pdec: "decodeWithDecryption r pb aadDomainPayload (Header_Marshal G ?h) maxSignalingPacketSize = Inr (Payload_Marshal G ?p)"
    using decode_encode(1) [OF hb(2) p, of maxSignalingPacketSize] pb(3) ch(4) len by simp
  show "Codec_DecodeMessageHeader G r data = Inr ?h"
    using g by (simp add: Codec_DecodeMessageHeader_def chunks hdec gob_ok_def)
  show "Codec_DecodeMessage G r data = Inr (filled m)"
    using g by (simp add: Codec_DecodeMessage_def chunks hdec pdec gob_ok_def)
      (simp add: filled_def ENCRYPT_GLOBALLY_def ENCRYPT_PARTIALY_def)
qed

text \<open>Two codecs made from the same type, secret and user data match, whatever nonce prefixes they drew.\<close>

definition aead_for :: "aead_lib \<Rightarrow> string \<Rightarrow> bytes \<Rightarrow> cipher_aead result" where
  "aead_for L typ secret =
     (if typ = AES_256_GCM then aes_NewGCM L (case hkdf512 L secret 32 of Inl _ \<Rightarrow> replicate 32 0 | Inr k \<Rightarrow> k)
      else if typ = ASCON_128A then bind_result (hkdf512 L secret 16) (ascon_New L)
      else if typ = CAMELLIA_256 then bind_result (hkdf512 L secret 32) (camellia_NewGCM L)
      else if typ = CHACHA20_POLY1305 then chacha20poly1305_New L (case hkdf512 L secret 32 of Inl _ \<Rightarrow> replicate 32 0 | Inr k \<Rightarrow> k)
      else bind_result (hkdf512 L secret 32) (chacha20poly1305_NewX L))"

lemma withNonceSource_aead: "withNonceSource rnd A = Inr i \<Longrightarrow> impl_aead i = A"
  by (auto simp: withNonceSource_def bind_result_Inr_iff)

lemma New_aead:
  "NewAES256GCM L rnd secret = Inr kit \<Longrightarrow> aes_NewGCM L (case hkdf512 L secret 32 of Inl _ \<Rightarrow> replicate 32 0 | Inr k \<Rightarrow> k) = Inr (kit_aead kit)"
  "NewAscon128a L rnd secret = Inr kit \<Longrightarrow> bind_result (hkdf512 L secret 16) (ascon_New L) = Inr (kit_aead kit)"
  "NewCamellia256GCM L rnd secret = Inr kit \<Longrightarrow> bind_result (hkdf512 L secret 32) (camellia_NewGCM L) = Inr (kit_aead kit)"
  "NewChaCha20Poly1305 L rnd secret = Inr kit \<Longrightarrow> chacha20poly1305_New L (case hkdf512 L secret 32 of Inl _ \<Rightarrow> replicate 32 0 | Inr k \<Rightarrow> k) = Inr (kit_aead kit)"
  "NewXChaCha20Poly1305 L rnd secret = Inr kit \<Longrightarrow> bind_result (hkdf512 L secret 32) (chacha20poly1305_NewX L) = Inr (kit_aead kit)"
  unfolding NewAES256GCM_def NewAscon128a_def NewCamellia256GCM_def NewChaCha20Poly1305_def NewXChaCha20Poly1305_def Let_def bind_result_Inr_iff
  by (auto dest!: withNonceSource_aead)

lemma createEncryptKit_aead: "createEncryptKit L rnd typ secret = Inr kit \<Longrightarrow> aead_for L typ secret = Inr (kit_aead kit)"
  unfolding createEncryptKit_def aead_for_def by (auto dest: New_aead split: if_split_asm)

lemma aead_for_ok: "lib_ok L \<Longrightarrow> aead_for L typ secret = Inr A \<Longrightarrow> aead_ok A \<and> aead_tidy A"
  unfolding aead_for_def lib_ok_def bind_result_Inr_iff by (metis (no_types, lifting) bind_result_Inr_iff)

lemma NewCodec_Inr:
  assumes "NewCodec L rnd typ secret aad = Inr s"
  obtains kit where "cd_encryptionKit s = Some kit" "aead_for L typ secret = Inr (kit_aead kit)" "codec_inv s"
    "cd_additionalData s = aad" "length aad \<le> 64"
  using assms by (auto simp: NewCodec_def codec_inv_def bind_result_Inr_iff dest: createEncryptKit_aead split: if_splits)

lemma NewCodec_match:
  assumes "lib_ok L" and "NewCodec L rnd typ secret aad = Inr s" and "NewCodec L rnd' typ secret aad = Inr r"
  shows "codec_match s r"
  using assms(2,3) aead_for_ok [OF assms(1)] by (auto elim!: NewCodec_Inr simp: codec_match_def)

text \<open>Encoding one message after the other; \<open>None\<close> if one fails.\<close>

fun encode_all :: "gob \<Rightarrow> codec \<Rightarrow> message list \<Rightarrow> bytes list option" where
  "encode_all G s [] = Some []"
| "encode_all G s (m # ms) =
     (case Codec_EncodeMessage G s (Some m) of
        (Inl _, _) \<Rightarrow> None
      | (Inr data, s') \<Rightarrow> map_option ((#) data) (encode_all G s' ms))"

lemma encode_all_decodes:
  "codec_match s r \<Longrightarrow> encode_all G s msgs = Some packets \<Longrightarrow>
     \<forall>m \<in> set msgs. gob_ok G (the (msg_Header (filled m))) (the (msg_Payload (filled m))) \<Longrightarrow>
     \<forall>d \<in> set packets. int (length d) \<le> maxSignalingPacketSize \<Longrightarrow>
     map (Codec_DecodeMessage G r) packets = map (\<lambda>m. Inr (filled m)) msgs"
proof (induction msgs arbitrary: s packets)
  case Nil
  then show ?case by simp
next
  case (Cons m msgs)
  obtain data s' rest where e: "Codec_EncodeMessage G s (Some m) = (Inr data, s')" "encode_all G s' msgs = Some rest" "packets = data # rest"
    using Cons.prems(2) by (auto split: prod.splits sum.splits)
  note d = DecodeMessage_EncodeMessage [OF Cons.prems(1) e(1)]
  from Cons.prems(3,4) e(3) d(1,3) have "Codec_DecodeMessage G r data = Inr (filled m)" "codec_match s' r" by auto
  with Cons.IH [of s' rest] Cons.prems(3,4) e show ?case by simp
qed

text \<open>
  C20. Messages survive the codec. Two codecs are made from the same encryption type, secret and user data,
  with any nonce prefixes; the ciphers keep their contract and gob decodes what it encoded for these
  messages. Then every packet that the first codec encodes, in whatever sequence of messages and with
  header encryption or without, is decoded by the second to the message, with an
  empty header or payload where it had none, as long as packets are at most 16 MiB.
\<close>

theorem Codec_round_trip:
  assumes "lib_ok L" and "NewCodec L rnd typ secret aad = Inr s" and "NewCodec L rnd' typ secret aad = Inr r"
    and "encode_all G s msgs = Some packets"
    and "\<forall>m \<in> set msgs. gob_ok G (the (msg_Header (filled m))) (the (msg_Payload (filled m)))"
    and "\<forall>d \<in> set packets. int (length d) \<le> maxSignalingPacketSize"
  shows "map (Codec_DecodeMessage G r) packets = map (\<lambda>m. Inr (filled m)) msgs"
  by (rule encode_all_decodes [OF NewCodec_match [OF assms(1-3)] assms(4-6)])

text \<open>A concrete gob for the empty message: constant encodings of header and payload, a framed list of three chunks.\<close>

definition sample_gob :: gob where
  "sample_gob =
     \<lparr>Header_Marshal = (\<lambda>_. [72]), Header_Unmarshal = (\<lambda>_. Inr zero_header),
      Payload_Marshal = (\<lambda>_. [80]), Payload_Unmarshal = (\<lambda>_. Inr zero_payload),
      Chunks_Encode = (\<lambda>cs. if length cs = 3 \<and> length (cs ! 0) < 2 ^ 32 \<and> length (cs ! 2) = 1
        then Inr (be_put 4 (length (cs ! 0)) @ cs ! 0 @ cs ! 2 @ cs ! 1) else Inl (Errorf ''chunks'')),
      Chunks_Decode = (\<lambda>d. let n = be_get (take 4 d); r = drop 4 d in Inr [take n r, drop (n + 1) r, take 1 (drop n r)])\<rparr>"

lemma sample_gob_ok: "gob_ok sample_gob zero_header zero_payload"
proof -
  have "Chunks_Decode sample_gob d = Inr cs \<and> d \<noteq> [] \<and> (\<forall>c \<in> set cs. length c \<le> length d)"
    if e: "Chunks_Encode sample_gob cs = Inr d" for cs d
  proof -
    from e have l: "length cs = 3" "length (cs ! 0) < 2 ^ 32" "length (cs ! 2) = 1"
      and d: "d = be_put 4 (length (cs ! 0)) @ cs ! 0 @ cs ! 2 @ cs ! 1"
      by (auto simp: sample_gob_def split: if_splits)
    from l(1) obtain a b c where cs: "cs = [a, b, c]"
      by (auto simp: length_Suc_conv numeral_3_eq_3)
    have "be_get (take 4 d) = length a" using l(2) by (simp add: d cs be_get_put)
    then show ?thesis using l(3) by (auto simp: sample_gob_def d cs)
  qed
  then show ?thesis by (auto simp: gob_ok_def) (simp_all add: sample_gob_def)
qed

definition zero_random :: random where
  "zero_random n = Inr (replicate n 0)"

abbreviation sample_m1 :: message where
  "sample_m1 \<equiv> \<lparr>msg_Header = None, msg_Payload = None, msg_Encrypt = True\<rparr>"

abbreviation sample_m2 :: message where
  "sample_m2 \<equiv> \<lparr>msg_Header = Some zero_header, msg_Payload = None, msg_Encrypt = False\<rparr>"

lemma sample_packets:
  obtains s r d1 d2 where "NewCodec sum_lib zero_random AES_256_GCM [1, 2] [7] = Inr s"
    "NewCodec sum_lib (\<lambda>n. Inr (replicate n 1)) AES_256_GCM [1, 2] [7] = Inr r"
    "encode_all sample_gob s [sample_m1, sample_m2] = Some [d1, d2]" "length d1 = 63" "length d2 = 35"
proof -
  note defs = NewCodec_def createEncryptKit_def NewAES256GCM_def withNonceSource_def newNonceSource_def sum_lib_def
    crypto_lib.defs sum_aead_def nonceCounterSize_def zero_random_def Let_def
  obtain s where s: "NewCodec sum_lib zero_random AES_256_GCM [1, 2] [7] = Inr s" by (simp add: defs)
  obtain r where r: "NewCodec sum_lib (\<lambda>n. Inr (replicate n 1)) AES_256_GCM [1, 2] [7] = Inr r" by (simp add: defs)
  have "\<exists>d1 d2. encode_all sample_gob s [sample_m1, sample_m2] = Some [d1, d2] \<and> length d1 = 63 \<and> length d2 = 35"
    using s by (auto simp: defs Codec_EncodeMessage_def encodeWithEncryption_def sample_gob_def rewrap_def impl_method_defs
        impl_Encrypt_def nonceSource_next_def sum_tag_def)
  with s r that show thesis by blast
qed

theorem Codec_round_trip_witness:
  "\<exists>s r d1 d2. NewCodec sum_lib zero_random AES_256_GCM [1, 2] [7] = Inr s \<and>
     NewCodec sum_lib (\<lambda>n. Inr (replicate n 1)) AES_256_GCM [1, 2] [7] = Inr r \<and>
     encode_all sample_gob s [sample_m1, sample_m2] = Some [d1, d2] \<and>
     Codec_DecodeMessage sample_gob r d1 = Inr \<lparr>msg_Header = Some zero_header, msg_Payload = Some zero_payload, msg_Encrypt = True\<rparr> \<and>
     Codec_DecodeMessage sample_gob r d2 = Inr \<lparr>msg_Header = Some zero_header, msg_Payload = Some zero_payload, msg_Encrypt = False\<rparr>"
proof -
  obtain s r d1 d2 where s: "NewCodec sum_lib zero_random AES_256_GCM [1, 2] [7] = Inr s"
    and r: "NewCodec sum_lib (\<lambda>n. Inr (replicate n 1)) AES_256_GCM [1, 2] [7] = Inr r"
    and d: "encode_all sample_gob s [sample_m1, sample_m2] = Some [d1, d2]" "length d1 = 63" "length d2 = 35"
    by (rule sample_packets)
  have "map (Codec_DecodeMessage sample_gob r) [d1, d2] = map (\<lambda>m. Inr (filled m)) [sample_m1, sample_m2]"
    by (rule Codec_round_trip [OF sum_lib_ok s r d(1)])
      (use d(2,3) sample_gob_ok in \<open>auto simp: filled_fields maxSignalingPacketSize_def\<close>)
  with s r d(1) show ?thesis by (auto simp: filled_def)
qed

section \<open>Authenticity\<close>

lemma decodeWithDecryption_sealed:
  assumes "codec_inv r" and "cd_encryptionKit r = Some kit" and "aead_tidy (kit_aead kit)"
    and "decodeWithDecryption r data domain context limit = Inr p"
  shows "\<exists>nonce. data = nonce @ Seal (kit_aead kit) nonce p (buildAdditionalData (cd_additionalData r) domain context)"
  using assms Decrypt_Inr [of kit data _ p]
  by (auto simp: decodeWithDecryption_def additionalDataFor_eq bind_result_Inr_iff split: if_splits)

lemma DecodeMessage_sealed:
  assumes "lib_ok L" and "NewCodec L rnd typ secret aad = Inr r" and "aead_for L typ secret = Inr A"
    and "Codec_DecodeMessage G r data = Inr m"
  shows "\<exists>chunks headerBytes payloadBytes nonce. Chunks_Decode G data = Inr chunks \<and> length chunks = 3 \<and>
    Header_Unmarshal G headerBytes = Inr (the (msg_Header m)) \<and> Payload_Unmarshal G payloadBytes = Inr (the (msg_Payload m)) \<and>
    chunks ! 1 = nonce @ Seal A nonce payloadBytes (buildAdditionalData aad aadDomainPayload headerBytes) \<and>
    (if msg_Encrypt m then \<exists>nonce'. chunks ! 0 = nonce' @ Seal A nonce' headerBytes (buildAdditionalData aad aadDomainHeader [])
     else chunks ! 0 = headerBytes)"
proof -
  obtain kit where kit: "cd_encryptionKit r = Some kit" "A = kit_aead kit" "codec_inv r" "cd_additionalData r = aad"
    using assms(2,3) by (auto elim: NewCodec_Inr)
  have tidy: "aead_tidy (kit_aead kit)" using aead_for_ok [OF assms(1,3)] kit(2) by simp
  note sealed = decodeWithDecryption_sealed [OF kit(3,1) tidy, unfolded kit(4) kit(2) [symmetric]]
  from assms(4) obtain chunks headerBytes payloadBytes
    where c: "decodeChunks G data = Inr chunks" and h: "decodeHeaderBytes r chunks = Inr headerBytes"
      and p: "decodeWithDecryption r (chunks ! 1) aadDomainPayload headerBytes maxSignalingPacketSize = Inr payloadBytes"
      and m: "Header_Unmarshal G headerBytes = Inr (the (msg_Header m))" "Payload_Unmarshal G payloadBytes = Inr (the (msg_Payload m))"
        "msg_Encrypt m = (chunks ! 2 ! 0 = ENCRYPT_GLOBALLY)"
    by (auto simp: Codec_DecodeMessage_def bind_result_Inr_iff)
  from c have "Chunks_Decode G data = Inr chunks" "length chunks = 3"
    by (auto simp: decodeChunks_def bind_result_Inr_iff split: if_splits)
  moreover from sealed [OF p] obtain nonce where
    "chunks ! 1 = nonce @ Seal A nonce payloadBytes (buildAdditionalData aad aadDomainPayload headerBytes)" by blast
  moreover have "if msg_Encrypt m then \<exists>nonce'. chunks ! 0 = nonce' @ Seal A nonce' headerBytes (buildAdditionalData aad aadDomainHeader [])
     else chunks ! 0 = headerBytes"
    using h sealed [of "chunks ! 0"] by (auto simp: decodeHeaderBytes_def m(3) split: if_splits)
  ultimately show ?thesis using m(1,2) by blast
qed

text \<open>
  C21. What DecodeMessage accepts was sealed for it. A codec made with ciphers that accept only what they seal
  returns a message only if the packet holds a payload sealed, under its key, with
  additional data that contain the header bytes which the returned header was read from;
  and, if the message claims header encryption, those header bytes sealed in the header domain. So no header can
  be exchanged under a payload.
\<close>

theorem DecodeMessage_authentic:
  assumes "lib_ok L" and "NewCodec L rnd typ secret aad = Inr r" and "aead_for L typ secret = Inr A"
    and "Codec_DecodeMessage G r data = Inr m"
  shows "\<exists>chunks headerBytes payloadBytes nonce. Chunks_Decode G data = Inr chunks \<and> length chunks = 3 \<and>
    Header_Unmarshal G headerBytes = Inr (the (msg_Header m)) \<and> Payload_Unmarshal G payloadBytes = Inr (the (msg_Payload m)) \<and>
    chunks ! 1 = nonce @ Seal A nonce payloadBytes (buildAdditionalData aad aadDomainPayload headerBytes) \<and>
    (if msg_Encrypt m then \<exists>nonce'. chunks ! 0 = nonce' @ Seal A nonce' headerBytes (buildAdditionalData aad aadDomainHeader [])
     else chunks ! 0 = headerBytes)"
  by (rule DecodeMessage_sealed [OF assms])

theorem DecodeMessage_authentic_witness:
  "\<exists>r data. NewCodec sum_lib (\<lambda>n. Inr (replicate n 1)) AES_256_GCM [1, 2] [7] = Inr r \<and>
     Codec_DecodeMessage sample_gob r data = Inr (filled sample_m2) \<and>
     (\<exists>chunks headerBytes payloadBytes nonce. Chunks_Decode sample_gob data = Inr chunks \<and> chunks ! 0 = headerBytes \<and>
        chunks ! 1 = nonce @ Seal (sum_aead ([1, 2] @ replicate 30 0)) nonce payloadBytes
          (buildAdditionalData [7] aadDomainPayload headerBytes))"
proof -
  obtain s r d1 d2 where s: "NewCodec sum_lib zero_random AES_256_GCM [1, 2] [7] = Inr s"
    and r: "NewCodec sum_lib (\<lambda>n. Inr (replicate n 1)) AES_256_GCM [1, 2] [7] = Inr r"
    and d: "encode_all sample_gob s [sample_m1, sample_m2] = Some [d1, d2]" "length d1 = 63" "length d2 = 35"
    by (rule sample_packets)
  have "map (Codec_DecodeMessage sample_gob r) [d1, d2] = map (\<lambda>m. Inr (filled m)) [sample_m1, sample_m2]"
    by (rule encode_all_decodes [OF NewCodec_match [OF sum_lib_ok s r] d(1)])
      (use d(2,3) sample_gob_ok in \<open>auto simp: filled_fields maxSignalingPacketSize_def\<close>)
  then have m: "Codec_DecodeMessage sample_gob r d2 = Inr (filled sample_m2)" by simp
  have "aead_for sum_lib AES_256_GCM [1, 2] = Inr (sum_aead ([1, 2] @ replicate 30 0))"
    by (simp add: aead_for_def sum_lib_def crypto_lib.defs)
  from DecodeMessage_authentic [OF sum_lib_ok r this m] have
    "\<exists>chunks headerBytes payloadBytes nonce. Chunks_Decode sample_gob d2 = Inr chunks \<and> chunks ! 0 = headerBytes \<and>
        chunks ! 1 = nonce @ Seal (sum_aead ([1, 2] @ replicate 30 0)) nonce payloadBytes
          (buildAdditionalData [7] aadDomainPayload headerBytes)"
    by (auto simp: filled_def)
  with r m show ?thesis by blast
qed

section \<open>Decoding does not depend on the nonce prefix\<close>

lemma NewCodec_decode_same:
  assumes c: "NewCodec L rnd typ key aad = Inr c" and c': "NewCodec L rnd' typ key aad = Inr c'"
  shows "Codec_DecodeMessage G c data = Codec_DecodeMessage G c' data"
proof -
  obtain kit where k: "cd_encryptionKit c = Some kit" "aead_for L typ key = Inr (kit_aead kit)" "codec_inv c" "cd_additionalData c = aad"
    using c by (rule NewCodec_Inr)
  obtain kit' where k': "cd_encryptionKit c' = Some kit'" "aead_for L typ key = Inr (kit_aead kit')" "codec_inv c'" "cd_additionalData c' = aad"
    using c' by (rule NewCodec_Inr)
  have "IEncryption_Decrypt kit = IEncryption_Decrypt kit'"
    using k(2) k'(2) by (intro ext) (simp add: IEncryption_Decrypt_eq impl_Decrypt_def Let_def)
  moreover have "additionalDataFor c = additionalDataFor c'" using k k' by (intro ext) (simp add: additionalDataFor_eq)
  ultimately have d: "decodeWithDecryption c = decodeWithDecryption c'"
    using k(1) k'(1) by (intro ext) (simp add: decodeWithDecryption_def)
  then have "decodeHeaderBytes c = decodeHeaderBytes c'" by (intro ext) (simp add: decodeHeaderBytes_def)
  with d show ?thesis by (simp add: Codec_DecodeMessage_def)
qed

end
