(* ===== verification/Byte_Budget.thy ===== *)
theory Byte_Budget
  imports Prelude
begin

text \<open>
  The shared counters with a limit: ByteBudget of peer/buffer.go, which caps the unread data of
  all connections of a server, and reserveCounter of peer/server/limits.go, which caps
  connections and pending handshakes. The theory has the operations, the interface
  \<open>bounded_counter\<close> their users rely on, with the ledger lemmas proved in it, and
  the lock-free compare-and-swap loop that both use, as a step relation over any number of threads.
\<close>

section \<open>The byte budget\<close>

record byte_budget =
  bb_limit :: int
  bb_used :: int

definition NewByteBudget :: "int \<Rightarrow> byte_budget" where
  "NewByteBudget limit = \<lparr>bb_limit = limit, bb_used = 0\<rparr>"

text \<open>
  A nil budget is \<open>None\<close>. Reserve returns whether the amount was reserved; Release is
  \<open>None\<close> where the source panics. Without interference the compare-and-swap of Reserve
  succeeds at the first attempt; the loop under interference is modelled below.
\<close>

definition ByteBudget_Reserve :: "byte_budget option \<Rightarrow> int \<Rightarrow> bool \<times> byte_budget option" where
  "ByteBudget_Reserve b n =
     (case b of
        None \<Rightarrow> (True, None)
      | Some bb \<Rightarrow>
          if n \<le> 0 then (True, Some bb)
          else (let used = bb_used bb
                in if n > wrap64 (bb_limit bb - used) then (False, Some bb)
                   else (True, Some (bb\<lparr>bb_used := wrap64 (used + n)\<rparr>))))"

definition ByteBudget_Release :: "byte_budget option \<Rightarrow> int \<Rightarrow> byte_budget option option" where
  "ByteBudget_Release b n =
     (case b of
        None \<Rightarrow> Some None
      | Some bb \<Rightarrow>
          if n \<le> 0 then Some (Some bb)
          else (let remaining = wrap64 (bb_used bb - n)
                in if remaining < 0 then None
                   else Some (Some (bb\<lparr>bb_used := remaining\<rparr>))))"

definition ByteBudget_Used :: "byte_budget option \<Rightarrow> int" where
  "ByteBudget_Used b = (case b of None \<Rightarrow> 0 | Some bb \<Rightarrow> bb_used bb)"

section \<open>Connection and handshake counters\<close>

definition reserveCounter :: "int \<Rightarrow> int \<Rightarrow> bool \<times> int" where
  "reserveCounter limit counter =
     (if counter \<ge> limit then (False, counter) else (True, wrap64 (counter + 1)))"

section \<open>The interface of a bounded counter\<close>

text \<open>
  The promise: a successful reservation adds exactly its amount and stays below the cap, a
  failed one changes nothing, and releasing what is held succeeds and subtracts exactly that.
\<close>

locale bounded_counter =
  fixes reserve :: "'s \<Rightarrow> int \<Rightarrow> bool \<times> 's"
    and release :: "'s \<Rightarrow> int \<Rightarrow> 's option"
    and used :: "'s \<Rightarrow> int"
    and cap :: "'s \<Rightarrow> int"
    and inv :: "'s \<Rightarrow> bool"
    and amount_ok :: "int \<Rightarrow> bool"
  assumes inv_bounds: "inv s \<Longrightarrow> 0 \<le> used s \<and> used s \<le> cap s"
    and reserve_ok: "inv s \<Longrightarrow> amount_ok n \<Longrightarrow> reserve s n = (True, s') \<Longrightarrow>
          inv s' \<and> used s' = used s + n \<and> cap s' = cap s"
    and reserve_iff: "inv s \<Longrightarrow> amount_ok n \<Longrightarrow> fst (reserve s n) \<longleftrightarrow> used s + n \<le> cap s"
    and reserve_fail: "reserve s n = (False, s') \<Longrightarrow> s' = s"
    and release_ok: "inv s \<Longrightarrow> amount_ok n \<Longrightarrow> n \<le> used s \<Longrightarrow>
          \<exists>s'. release s n = Some s' \<and> inv s' \<and> used s' = used s - n \<and> cap s' = cap s"
    and amount_nonneg: "amount_ok n \<Longrightarrow> 0 \<le> n"
begin

text \<open>
  A client holds a ledger of reservations. \<open>reserve_all\<close> takes amounts in order, keeping what
  was granted; \<open>release_all\<close> gives a list of amounts back.
\<close>

fun reserve_all :: "'s \<Rightarrow> int list \<Rightarrow> int list \<times> 's" where
  "reserve_all s [] = ([], s)"
| "reserve_all s (n # ns) =
     (let (ok, s') = reserve s n; (granted, s'') = reserve_all s' ns
      in (if ok then n # granted else granted, s''))"

fun release_all :: "'s \<Rightarrow> int list \<Rightarrow> 's option" where
  "release_all s [] = Some s"
| "release_all s (n # ns) = (case release s n of None \<Rightarrow> None | Some s' \<Rightarrow> release_all s' ns)"

lemma sum_amounts_nonneg: "list_all amount_ok ns \<Longrightarrow> 0 \<le> sum_list ns"
  by (induction ns) (auto dest: amount_nonneg)

lemma reserve_all_ledger:
  "inv s \<Longrightarrow> list_all amount_ok ns \<Longrightarrow> reserve_all s ns = (granted, s') \<Longrightarrow>
     inv s' \<and> used s' = used s + sum_list granted \<and> cap s' = cap s \<and> list_all amount_ok granted"
proof (induction ns arbitrary: s granted s')
  case Nil
  then show ?case by simp
next
  case (Cons n ns)
  obtain ok t where r: "reserve s n = (ok, t)"
    by (cases "reserve s n")
  obtain g u where a: "reserve_all t ns = (g, u)"
    by (cases "reserve_all t ns")
  have res: "granted = (if ok then n # g else g)" "s' = u"
    using Cons.prems(3) r a by (simp_all split: if_splits)
  have t: "inv t \<and> used t = used s + (if ok then n else 0) \<and> cap t = cap s"
    using Cons.prems(1,2) r reserve_ok [of s n t] reserve_fail [of s n t] by (cases ok) auto
  with Cons.IH [OF _ _ a] Cons.prems(2) res show ?case
    by auto
qed

lemma release_all_ledger:
  "inv s \<Longrightarrow> list_all amount_ok ns \<Longrightarrow> sum_list ns \<le> used s \<Longrightarrow>
     \<exists>s'. release_all s ns = Some s' \<and> inv s' \<and> used s' = used s - sum_list ns \<and> cap s' = cap s"
proof (induction ns arbitrary: s)
  case Nil
  then show ?case by simp
next
  case (Cons n ns)
  have ns: "amount_ok n" "list_all amount_ok ns"
    using Cons.prems(2) by simp_all
  moreover have "n \<le> used s"
    using Cons.prems(3) sum_amounts_nonneg [OF ns(2)] by simp
  ultimately obtain t where t: "release s n = Some t" "inv t" "used t = used s - n" "cap t = cap s"
    using release_ok [OF Cons.prems(1)] by blast
  from Cons.IH [OF t(2) ns(2)] t Cons.prems(3) show ?case
    by auto
qed

lemma reserve_release_round_trip:
  assumes "inv s" and "list_all amount_ok ns" and "reserve_all s ns = (granted, s')"
  shows "\<exists>s''. release_all s' granted = Some s'' \<and> used s'' = used s \<and> cap s'' = cap s"
proof -
  from reserve_all_ledger [OF assms]
  have "inv s'" "used s' = used s + sum_list granted" "cap s' = cap s" "list_all amount_ok granted"
    by blast+
  with release_all_ledger [of s' granted] inv_bounds [OF assms(1)] show ?thesis
    by auto
qed

end

definition budget_inv :: "byte_budget option \<Rightarrow> bool" where
  "budget_inv b = (case b of None \<Rightarrow> False
     | Some bb \<Rightarrow> 0 \<le> bb_used bb \<and> bb_used bb \<le> bb_limit bb \<and> bb_limit bb < 2 ^ 63)"

definition budget_limit :: "byte_budget option \<Rightarrow> int" where
  "budget_limit b = (case b of None \<Rightarrow> 0 | Some bb \<Rightarrow> bb_limit bb)"

lemma Reserve_cases:
  assumes "budget_inv b" and "0 \<le> n"
  shows "ByteBudget_Reserve b n =
    (if ByteBudget_Used b + n \<le> budget_limit b
     then (True, map_option (\<lambda>bb. bb\<lparr>bb_used := bb_used bb + n\<rparr>) b) else (False, b))"
  using assms by (auto simp: ByteBudget_Reserve_def ByteBudget_Used_def budget_limit_def
      budget_inv_def Let_def split: option.splits)

lemma Release_cases:
  assumes "budget_inv b" and "0 \<le> n" and "n \<le> ByteBudget_Used b"
  shows "ByteBudget_Release b n = Some (map_option (\<lambda>bb. bb\<lparr>bb_used := bb_used bb - n\<rparr>) b)"
  using assms by (auto simp: ByteBudget_Release_def ByteBudget_Used_def
      budget_inv_def Let_def split: option.splits)

interpretation bb: bounded_counter ByteBudget_Reserve ByteBudget_Release ByteBudget_Used budget_limit
  budget_inv "\<lambda>n. 0 \<le> n"
proof
  fix s s' :: "byte_budget option" and n :: int
  show "budget_inv s \<Longrightarrow> 0 \<le> ByteBudget_Used s \<and> ByteBudget_Used s \<le> budget_limit s"
    by (auto simp: budget_inv_def ByteBudget_Used_def budget_limit_def split: option.splits)
  assume inv: "budget_inv s" and n: "0 \<le> n"
  note R = Reserve_cases [OF inv n]
  show "ByteBudget_Reserve s n = (True, s') \<Longrightarrow>
      budget_inv s' \<and> ByteBudget_Used s' = ByteBudget_Used s + n \<and> budget_limit s' = budget_limit s"
    using inv n by (auto simp: R budget_inv_def ByteBudget_Used_def budget_limit_def split: if_splits option.splits)
  show "fst (ByteBudget_Reserve s n) \<longleftrightarrow> ByteBudget_Used s + n \<le> budget_limit s"
    by (simp add: R)
  show "n \<le> ByteBudget_Used s \<Longrightarrow>
      \<exists>s'. ByteBudget_Release s n = Some s' \<and> budget_inv s' \<and>
        ByteBudget_Used s' = ByteBudget_Used s - n \<and> budget_limit s' = budget_limit s"
    using inv n by (auto simp: Release_cases budget_inv_def ByteBudget_Used_def budget_limit_def split: option.splits)
next
  show "ByteBudget_Reserve s n = (False, s') \<Longrightarrow> s' = s" for s s' n
    by (auto simp: ByteBudget_Reserve_def Let_def split: option.splits if_splits)
qed simp

text \<open>
  The counters of the server keep the same contract with amount one: reserveCounter adds one, and
  the servers give a slot back with Add(-1).
\<close>

definition counter_reserve :: "int \<times> int \<Rightarrow> int \<Rightarrow> bool \<times> (int \<times> int)" where
  "counter_reserve s n = (case reserveCounter (fst s) (snd s) of (ok, c) \<Rightarrow> (ok, (fst s, c)))"

definition counter_release :: "int \<times> int \<Rightarrow> int \<Rightarrow> (int \<times> int) option" where
  "counter_release s n = Some (fst s, wrap64 (snd s - n))"

interpretation sc: bounded_counter counter_reserve counter_release snd fst
  "\<lambda>s. 0 \<le> snd s \<and> snd s \<le> fst s \<and> fst s < 2 ^ 63" "\<lambda>n. n = 1"
  by unfold_locales (auto simp: counter_reserve_def counter_release_def reserveCounter_def split: if_splits)

section \<open>The compare-and-swap loop\<close>

text \<open>
  Reserve and reserveCounter run, without a lock, the loop: load the counter, give up if the
  amount does not fit, otherwise swap in the new value if the counter is still the loaded one and
  start over if it is not. \<open>cas_step limit amt\<close> interleaves any number of threads \<open>i\<close>, each with
  its own amount \<open>amt i\<close>, and lets a thread that holds its amount release it.
\<close>

datatype cas_pc = CasIdle | CasLoad | CasTry int | CasHeld | CasFail

type_synonym cas_state = "int \<times> (nat \<Rightarrow> cas_pc)"

inductive cas_step :: "int \<Rightarrow> (nat \<Rightarrow> int) \<Rightarrow> cas_state \<Rightarrow> cas_state \<Rightarrow> bool"
  for limit :: int and amt :: "nat \<Rightarrow> int" where
  cas_call: "pc i = CasIdle \<or> pc i = CasFail \<Longrightarrow> cas_step limit amt (u, pc) (u, pc(i := CasLoad))"
| cas_load: "pc i = CasLoad \<Longrightarrow> cas_step limit amt (u, pc) (u, pc(i := CasTry u))"
| cas_full: "pc i = CasTry v \<Longrightarrow> amt i > limit - v \<Longrightarrow>
     cas_step limit amt (u, pc) (u, pc(i := CasFail))"
| cas_win: "pc i = CasTry v \<Longrightarrow> \<not> amt i > limit - v \<Longrightarrow> u = v \<Longrightarrow>
     cas_step limit amt (u, pc) (v + amt i, pc(i := CasHeld))"
| cas_lose: "pc i = CasTry v \<Longrightarrow> \<not> amt i > limit - v \<Longrightarrow> u \<noteq> v \<Longrightarrow>
     cas_step limit amt (u, pc) (u, pc(i := CasLoad))"
| cas_release: "pc i = CasHeld \<Longrightarrow> cas_step limit amt (u, pc) (u - amt i, pc(i := CasIdle))"

inductive cas_reachable :: "int \<Rightarrow> (nat \<Rightarrow> int) \<Rightarrow> cas_state \<Rightarrow> bool"
  for limit :: int and amt :: "nat \<Rightarrow> int" where
  cas_start: "cas_reachable limit amt (0, \<lambda>_. CasIdle)"
| cas_next: "cas_reachable limit amt s \<Longrightarrow> cas_step limit amt s t \<Longrightarrow> cas_reachable limit amt t"

definition holders :: "(nat \<Rightarrow> cas_pc) \<Rightarrow> nat set" where
  "holders pc = {i. pc i = CasHeld}"

lemma holders_upd:
  "holders (pc(i := p)) = (if p = CasHeld then insert i (holders pc) else holders pc - {i})"
  by (auto simp: holders_def)

lemma holders_same: "pc i \<noteq> CasHeld \<Longrightarrow> p \<noteq> CasHeld \<Longrightarrow> holders (pc(i := p)) = holders pc"
  by (auto simp: holders_def)

definition cas_inv :: "int \<Rightarrow> (nat \<Rightarrow> int) \<Rightarrow> cas_state \<Rightarrow> bool" where
  "cas_inv limit amt s \<longleftrightarrow> finite (holders (snd s)) \<and>
     fst s = sum amt (holders (snd s)) \<and> fst s \<le> limit"

lemma cas_step_inv:
  assumes "cas_step limit amt s t" and "cas_inv limit amt s" and pos: "\<And>i. 0 \<le> amt i"
  shows "cas_inv limit amt t"
  using assms(1,2)
proof (induction rule: cas_step.induct)
  case (cas_win pc i v u)
  then have "i \<notin> holders pc" by (simp add: holders_def)
  with cas_win show ?case by (simp add: cas_inv_def holders_upd)
next
  case (cas_release pc i u)
  then have "i \<in> holders pc" by (simp add: holders_def)
  with cas_release pos [of i] show ?case
    by (simp add: cas_inv_def holders_upd sum_diff1)
qed (auto simp: cas_inv_def holders_same)

lemma cas_reachable_inv:
  "cas_reachable limit amt s \<Longrightarrow> (\<And>i. 0 \<le> amt i) \<Longrightarrow> 0 \<le> limit \<Longrightarrow> cas_inv limit amt s"
proof (induction rule: cas_reachable.induct)
  case cas_start
  then show ?case by (simp add: cas_inv_def holders_def)
next
  case (cas_next s t)
  then show ?case by (blast intro: cas_step_inv)
qed

text \<open>
  C31. Under every interleaving of lock-free reservations and releases, the counter is exactly
  the sum of the amounts held and never exceeds the limit: a lost update or an
  overshoot between the load and the swap is impossible.
\<close>

theorem cas_reserve_safe:
  assumes "cas_reachable limit amt (u, pc)" and "\<And>i. 0 \<le> amt i" and "0 \<le> limit"
  shows "u = sum amt {i. pc i = CasHeld} \<and> 0 \<le> u \<and> u \<le> limit"
  using cas_reachable_inv [OF assms] assms(2)
  by (auto simp: cas_inv_def holders_def intro: sum_nonneg)

lemma cas_run_example:
  "cas_reachable 10 (\<lambda>_. 6) (6, (\<lambda>_. CasIdle)(0 := CasHeld, 1 := CasFail))"
proof -
  let ?pc = "(\<lambda>_. CasIdle) :: nat \<Rightarrow> cas_pc"
  have 1: "cas_reachable 10 (\<lambda>_. 6) (0, ?pc(0 := CasLoad))"
    by (rule cas_next [OF cas_start cas_call]) simp
  have 2: "cas_reachable 10 (\<lambda>_. 6) (0, ?pc(0 := CasTry 0))"
    using cas_next [OF 1 cas_load [of _ 0]] by simp
  have 3: "cas_reachable 10 (\<lambda>_. 6) (6, ?pc(0 := CasHeld))"
    using cas_next [OF 2 cas_win [of _ 0 0]] by simp
  have 4: "cas_reachable 10 (\<lambda>_. 6) (6, ?pc(0 := CasHeld, 1 := CasLoad))"
    using cas_next [OF 3 cas_call [of _ 1]] by simp
  have 5: "cas_reachable 10 (\<lambda>_. 6) (6, ?pc(0 := CasHeld, 1 := CasTry 6))"
    using cas_next [OF 4 cas_load [of _ 1]] by simp
  show ?thesis
    using cas_next [OF 5 cas_full [of _ 1 6]] by simp
qed

theorem cas_reserve_safe_witness:
  "(6::int) = sum (\<lambda>_. 6) {i :: nat. ((\<lambda>_. CasIdle)(0 := CasHeld, 1 := CasFail)) i = CasHeld} \<and> (6::int) \<le> 10"
  using cas_reserve_safe [OF cas_run_example] by simp

end
