(* ===== verification/Recv_Buffer.thy ===== *)
theory Recv_Buffer
  imports Byte_Budget
begin

text \<open>
  RecvBuffer of peer/buffer.go: the blocking receive buffer of a connection, charged to the
  byte budget that all connections of a server share. Every operation runs under the buffer's
  mutex and is one step here; the budget is passed along and returned. The last part composes
  any number of buffers and the frame reservations of the transport readers over one budget.
\<close>

section \<open>The buffer\<close>

definition DefaultReceiveBufferSize :: int where
  "DefaultReceiveBufferSize = 8 * 2 ^ 20"

record recv_buffer =
  rb_buf :: bytes
  rb_closed :: bool
  rb_deadline :: "int option"
  rb_limit :: int

definition NewRecvBufferWithLimit :: "int \<Rightarrow> recv_buffer" where
  "NewRecvBufferWithLimit limit =
     \<lparr>rb_buf = [], rb_closed = False, rb_deadline = None,
      rb_limit = (if limit \<le> 0 then DefaultReceiveBufferSize else limit)\<rparr>"

definition NewRecvBuffer :: recv_buffer where
  "NewRecvBuffer = NewRecvBufferWithLimit DefaultReceiveBufferSize"

definition rb_len :: "recv_buffer \<Rightarrow> int" where
  "rb_len rb = int (length (rb_buf rb))"

text \<open>Write returns the error, if any. The write into the bytes.Buffer itself never fails.\<close>

definition RecvBuffer_Write ::
  "recv_buffer \<Rightarrow> byte_budget option \<Rightarrow> bytes \<Rightarrow> go_error option \<times> recv_buffer \<times> byte_budget option" where
  "RecvBuffer_Write rb budget data =
     (if rb_closed rb then (Some ErrClosedPipe, rb, budget)
      else if int (length data) > wrap64 (rb_limit rb - rb_len rb)
      then (Some ErrReceiveBufferFull, rb, budget)
      else (case ByteBudget_Reserve budget (int (length data)) of
              (False, budget') \<Rightarrow> (Some ErrReceiveBufferFull, rb, budget')
            | (True, budget') \<Rightarrow> (None, rb\<lparr>rb_buf := rb_buf rb @ data\<rparr>, budget')))"

text \<open>
  One pass through the loop of Read at time \<open>now\<close> with a slice of \<open>n\<close> bytes. \<open>ReadWait\<close> is the
  wait on the condition variable, after which the loop starts over; the outer
  \<open>None\<close> is a panic of the budget.
\<close>

datatype read_result = ReadWait | ReadErr go_error | ReadData bytes

definition RecvBuffer_Read ::
  "recv_buffer \<Rightarrow> byte_budget option \<Rightarrow> int \<Rightarrow> nat \<Rightarrow>
     (read_result \<times> recv_buffer \<times> byte_budget option) option" where
  "RecvBuffer_Read rb budget now n =
     (if rb_buf rb = [] then
        (if rb_closed rb then Some (ReadErr ErrEOF, rb, budget)
         else (case rb_deadline rb of
                 Some d \<Rightarrow> if d - now \<le> 0 then Some (ReadErr ErrDeadlineExceeded, rb, budget)
                           else Some (ReadWait, rb, budget)
               | None \<Rightarrow> Some (ReadWait, rb, budget)))
      else
        (let out = take n (rb_buf rb)
         in (case ByteBudget_Release budget (int (length out)) of
               None \<Rightarrow> None
             | Some budget' \<Rightarrow>
                 Some (ReadData out, rb\<lparr>rb_buf := drop n (rb_buf rb)\<rparr>, budget'))))"

definition RecvBuffer_Reset ::
  "recv_buffer \<Rightarrow> byte_budget option \<Rightarrow> (recv_buffer \<times> byte_budget option) option" where
  "RecvBuffer_Reset rb budget =
     (if rb_closed rb then Some (rb, budget)
      else (case ByteBudget_Release budget (rb_len rb) of
              None \<Rightarrow> None
            | Some budget' \<Rightarrow> Some (rb\<lparr>rb_buf := []\<rparr>, budget')))"

definition RecvBuffer_IsClosed :: "recv_buffer \<Rightarrow> bool" where
  "RecvBuffer_IsClosed rb = rb_closed rb"

definition RecvBuffer_SetDeadline :: "recv_buffer \<Rightarrow> int option \<Rightarrow> recv_buffer" where
  "RecvBuffer_SetDeadline rb deadline = rb\<lparr>rb_deadline := deadline\<rparr>"

definition RecvBuffer_Close ::
  "recv_buffer \<Rightarrow> byte_budget option \<Rightarrow> (recv_buffer \<times> byte_budget option) option" where
  "RecvBuffer_Close rb budget =
     (if rb_closed rb then Some (rb, budget)
      else (case ByteBudget_Release budget (rb_len rb) of
              None \<Rightarrow> None
            | Some budget' \<Rightarrow> Some (rb\<lparr>rb_closed := True, rb_buf := []\<rparr>, budget')))"

section \<open>One buffer: contents stay in order and within the limit\<close>

definition recv_inv :: "recv_buffer \<Rightarrow> bool" where
  "recv_inv rb \<longleftrightarrow> 0 < rb_limit rb \<and> rb_limit rb < 2 ^ 63 \<and> rb_len rb \<le> rb_limit rb \<and>
     (rb_closed rb \<longrightarrow> rb_buf rb = [])"

lemma recv_inv_new: "limit < 2 ^ 63 \<Longrightarrow> recv_inv (NewRecvBufferWithLimit limit)"
  by (simp add: recv_inv_def NewRecvBufferWithLimit_def rb_len_def DefaultReceiveBufferSize_def)

lemma rb_len_nonneg [simp]: "0 \<le> rb_len rb"
  by (simp add: rb_len_def)

text \<open>The effect of each operation on the contents and on the budget.\<close>

lemma Write_cases:
  assumes "recv_inv rb" and "budget_inv b"
  obtains (rejected) e where "RecvBuffer_Write rb b data = (Some e, rb, b)"
  | (accepted) b' where "RecvBuffer_Write rb b data = (None, rb\<lparr>rb_buf := rb_buf rb @ data\<rparr>, b')"
      "\<not> rb_closed rb" "rb_len rb + int (length data) \<le> rb_limit rb" "budget_inv b'"
      "ByteBudget_Used b' = ByteBudget_Used b + int (length data)" "budget_limit b' = budget_limit b"
proof -
  obtain ok b' where r: "ByteBudget_Reserve b (int (length data)) = (ok, b')"
    by (cases "ByteBudget_Reserve b (int (length data))")
  have w: "wrap64 (rb_limit rb - rb_len rb) = rb_limit rb - rb_len rb"
    using assms(1) rb_len_nonneg [of rb] unfolding recv_inv_def by (intro wrap64_id) linarith
  show thesis
  proof (cases "\<not> rb_closed rb \<and> \<not> int (length data) > rb_limit rb - rb_len rb \<and> ok")
    case True
    with r bb.reserve_ok [OF assms(2) _, of "int (length data)" b'] w show ?thesis
      by (intro accepted [of b']) (auto simp: RecvBuffer_Write_def)
  next
    case False
    moreover have "\<not> ok \<Longrightarrow> b' = b"
      using bb.reserve_fail [of b "int (length data)" b'] r by simp
    ultimately have "\<exists>e. RecvBuffer_Write rb b data = (Some e, rb, b)"
      using r w by (auto simp: RecvBuffer_Write_def)
    then show ?thesis using rejected by blast
  qed
qed

lemma Read_cases:
  assumes "budget_inv b" and "rb_len rb \<le> ByteBudget_Used b"
  obtains (nothing) r where "RecvBuffer_Read rb b now n = Some (r, rb, b)" "rb_buf rb = []" "\<forall>d. r \<noteq> ReadData d"
  | (data) b' where "RecvBuffer_Read rb b now n =
        Some (ReadData (take n (rb_buf rb)), rb\<lparr>rb_buf := drop n (rb_buf rb)\<rparr>, b')" "budget_inv b'"
      "ByteBudget_Used b' = ByteBudget_Used b - int (length (take n (rb_buf rb)))"
      "budget_limit b' = budget_limit b"
proof (cases "rb_buf rb = []")
  case True
  then have "\<exists>r. RecvBuffer_Read rb b now n = Some (r, rb, b) \<and> (\<forall>d. r \<noteq> ReadData d)"
    by (auto simp: RecvBuffer_Read_def split: option.splits)
  then obtain r where r: "RecvBuffer_Read rb b now n = Some (r, rb, b)" and nd: "\<forall>d. r \<noteq> ReadData d"
    by blast
  from r True nd show thesis by (rule nothing)
next
  case False
  have "int (length (take n (rb_buf rb))) \<le> ByteBudget_Used b"
    using assms(2) by (simp add: rb_len_def)
  then obtain b' where "ByteBudget_Release b (int (length (take n (rb_buf rb)))) = Some b'" "budget_inv b'"
      "ByteBudget_Used b' = ByteBudget_Used b - int (length (take n (rb_buf rb)))"
      "budget_limit b' = budget_limit b"
    using bb.release_ok [OF assms(1), of "int (length (take n (rb_buf rb)))"] by auto
  with False show thesis
    by (intro data [of b']) (simp_all add: RecvBuffer_Read_def Let_def)
qed

lemma Close_Reset_release:
  assumes "budget_inv b" and "rb_len rb \<le> ByteBudget_Used b"
  obtains b' where "ByteBudget_Release b (rb_len rb) = Some b'" "budget_inv b'"
    "ByteBudget_Used b' = ByteBudget_Used b - rb_len rb" "budget_limit b' = budget_limit b"
  using bb.release_ok [OF assms(1) rb_len_nonneg assms(2)] by blast

section \<open>Many buffers over one budget\<close>

text \<open>
  The server's memory: the shared budget, the receive buffers of its connections, and the frame
  sizes the transport readers have reserved while they read and decrypt a frame (peer/server/conn.go).
  A step that panics is \<open>None\<close>; an index out of range names no connection and changes nothing.
\<close>

record buffer_sys =
  sys_budget :: "byte_budget option"
  sys_bufs :: "recv_buffer list"
  sys_frames :: "nat list"

datatype buffer_event =
    EvNew int
  | EvWrite nat bytes
  | EvRead nat int nat
  | EvReset nat
  | EvClose nat
  | EvDeadline nat "int option"
  | EvFrameReserve nat
  | EvFrameRelease nat

definition upd_buf :: "buffer_sys \<Rightarrow> nat \<Rightarrow> recv_buffer \<times> byte_budget option \<Rightarrow> buffer_sys" where
  "upd_buf s i r = s\<lparr>sys_bufs := (sys_bufs s)[i := fst r], sys_budget := snd r\<rparr>"

fun buffer_step :: "buffer_sys \<Rightarrow> buffer_event \<Rightarrow> buffer_sys option" where
  "buffer_step s (EvNew limit) = Some (s\<lparr>sys_bufs := sys_bufs s @ [NewRecvBufferWithLimit limit]\<rparr>)"
| "buffer_step s (EvWrite i data) =
     (if i < length (sys_bufs s)
      then Some (upd_buf s i (snd (RecvBuffer_Write (sys_bufs s ! i) (sys_budget s) data)))
      else Some s)"
| "buffer_step s (EvRead i now n) =
     (if i < length (sys_bufs s)
      then map_option (\<lambda>r. upd_buf s i (snd r)) (RecvBuffer_Read (sys_bufs s ! i) (sys_budget s) now n)
      else Some s)"
| "buffer_step s (EvReset i) =
     (if i < length (sys_bufs s)
      then map_option (upd_buf s i) (RecvBuffer_Reset (sys_bufs s ! i) (sys_budget s))
      else Some s)"
| "buffer_step s (EvClose i) =
     (if i < length (sys_bufs s)
      then map_option (upd_buf s i) (RecvBuffer_Close (sys_bufs s ! i) (sys_budget s))
      else Some s)"
| "buffer_step s (EvDeadline i d) =
     (if i < length (sys_bufs s)
      then Some (upd_buf s i (RecvBuffer_SetDeadline (sys_bufs s ! i) d, sys_budget s))
      else Some s)"
| "buffer_step s (EvFrameReserve n) =
     (case ByteBudget_Reserve (sys_budget s) (int n) of
        (True, b) \<Rightarrow> Some (s\<lparr>sys_budget := b, sys_frames := n # sys_frames s\<rparr>)
      | (False, b) \<Rightarrow> Some (s\<lparr>sys_budget := b\<rparr>))"
| "buffer_step s (EvFrameRelease k) =
     (if k < length (sys_frames s)
      then map_option (\<lambda>b. s\<lparr>sys_budget := b,
                              sys_frames := take k (sys_frames s) @ drop (Suc k) (sys_frames s)\<rparr>)
             (ByteBudget_Release (sys_budget s) (int (sys_frames s ! k)))
      else Some s)"

fun buffer_run :: "buffer_sys \<Rightarrow> buffer_event list \<Rightarrow> buffer_sys option" where
  "buffer_run s [] = Some s"
| "buffer_run s (e # es) = (case buffer_step s e of None \<Rightarrow> None | Some s' \<Rightarrow> buffer_run s' es)"

definition buffer_sys_init :: "int \<Rightarrow> buffer_sys" where
  "buffer_sys_init limit = \<lparr>sys_budget = Some (NewByteBudget limit), sys_bufs = [], sys_frames = []\<rparr>"

definition buffered :: "buffer_sys \<Rightarrow> int" where
  "buffered s = (\<Sum>rb\<leftarrow>sys_bufs s. rb_len rb) + (\<Sum>n\<leftarrow>sys_frames s. int n)"

definition sys_inv :: "buffer_sys \<Rightarrow> bool" where
  "sys_inv s \<longleftrightarrow> budget_inv (sys_budget s) \<and> ByteBudget_Used (sys_budget s) = buffered s \<and>
     (\<forall>rb\<in>set (sys_bufs s). recv_inv rb)"

lemma sum_list_update_int:
  "i < length xs \<Longrightarrow> (\<Sum>x\<leftarrow>xs[i := y]. f x) = (\<Sum>x\<leftarrow>xs. f x) - f (xs ! i) + (f y :: int)"
  by (induction xs arbitrary: i) (auto split: nat.splits)

lemma sum_list_remove_int:
  "k < length xs \<Longrightarrow>
     (\<Sum>x\<leftarrow>take k xs @ drop (Suc k) xs. int x) = (\<Sum>x\<leftarrow>xs. int x) - int (xs ! k)"
proof (induction xs arbitrary: k)
  case Nil
  then show ?case by simp
next
  case (Cons x xs)
  then show ?case by (cases k) (auto simp: algebra_simps)
qed

lemma sum_rb_len_nonneg: "0 \<le> (\<Sum>rb\<leftarrow>rbs. rb_len rb)"
  by (induction rbs) auto

lemma sum_int_nonneg: "0 \<le> (\<Sum>n\<leftarrow>ns. int n)"
  by (induction ns) auto

lemma rb_len_le_buffered: "rb \<in> set (sys_bufs s) \<Longrightarrow> rb_len rb \<le> buffered s"
proof -
  assume "rb \<in> set (sys_bufs s)"
  then have "rb_len rb \<le> (\<Sum>rb\<leftarrow>sys_bufs s. rb_len rb)"
    by (intro member_le_sum_list) auto
  then show ?thesis
    using sum_int_nonneg [of "sys_frames s"] by (simp add: buffered_def)
qed

lemma frame_le_buffered: "k < length (sys_frames s) \<Longrightarrow> int (sys_frames s ! k) \<le> buffered s"
proof -
  assume "k < length (sys_frames s)"
  then have "int (sys_frames s ! k) \<le> (\<Sum>n\<leftarrow>sys_frames s. int n)"
    by (intro member_le_sum_list) auto
  then show ?thesis
    using sum_rb_len_nonneg [of "sys_bufs s"] by (simp add: buffered_def)
qed

text \<open>Replacing one buffer keeps the books as long as the budget moves by the change of its length.\<close>

lemma upd_buf_inv:
  assumes "sys_inv s" and "i < length (sys_bufs s)" and "recv_inv rb" and "budget_inv b"
    and "ByteBudget_Used b = ByteBudget_Used (sys_budget s) - rb_len (sys_bufs s ! i) + rb_len rb"
  shows "sys_inv (upd_buf s i (rb, b))"
proof -
  have "set ((sys_bufs s)[i := rb]) \<subseteq> insert rb (set (sys_bufs s))"
    by (rule set_update_subset_insert)
  with assms show ?thesis
    by (auto simp: sys_inv_def upd_buf_def buffered_def sum_list_update_int)
qed

lemma budget_limit_upd [simp]: "sys_budget (upd_buf s i r) = snd r"
  by (simp add: upd_buf_def)

text \<open>\<open>step_keeps s r\<close>: the step did not panic, keeps the books and leaves the limit alone.\<close>

definition step_keeps :: "buffer_sys \<Rightarrow> buffer_sys option \<Rightarrow> bool" where
  "step_keeps s r \<longleftrightarrow> (\<exists>s'. r = Some s' \<and> sys_inv s' \<and>
     budget_limit (sys_budget s') = budget_limit (sys_budget s))"

lemma step_keeps_same: "sys_inv s \<Longrightarrow> step_keeps s (Some s)"
  by (simp add: step_keeps_def)

lemma sys_invD:
  assumes "sys_inv s"
  shows "budget_inv (sys_budget s)" and "ByteBudget_Used (sys_budget s) = buffered s"
    and "i < length (sys_bufs s) \<Longrightarrow> recv_inv (sys_bufs s ! i)"
    and "i < length (sys_bufs s) \<Longrightarrow> rb_len (sys_bufs s ! i) \<le> ByteBudget_Used (sys_budget s)"
  using assms rb_len_le_buffered [of "sys_bufs s ! i" s] by (auto simp: sys_inv_def)

lemma step_write_keeps:
  assumes inv: "sys_inv s" and i: "i < length (sys_bufs s)"
  shows "step_keeps s (buffer_step s (EvWrite i data))"
  using sys_invD(3) [OF inv i] sys_invD(1) [OF inv]
proof (cases rule: Write_cases [of "sys_bufs s ! i" "sys_budget s" data])
  case (rejected e)
  with i inv sys_invD [OF inv] show ?thesis by (simp add: step_keeps_def upd_buf_inv)
next
  case (accepted b')
  moreover have "recv_inv ((sys_bufs s ! i)\<lparr>rb_buf := rb_buf (sys_bufs s ! i) @ data\<rparr>)"
    using accepted sys_invD(3) [OF inv i] by (simp add: recv_inv_def rb_len_def)
  ultimately show ?thesis
    using i inv by (simp add: step_keeps_def upd_buf_inv rb_len_def)
qed

lemma step_read_keeps:
  assumes inv: "sys_inv s" and i: "i < length (sys_bufs s)"
  shows "step_keeps s (buffer_step s (EvRead i now n))"
  using sys_invD(1) [OF inv] sys_invD(4) [OF inv i]
proof (cases rule: Read_cases [of "sys_budget s" "sys_bufs s ! i" now n])
  case (nothing r)
  with i inv sys_invD [OF inv] show ?thesis by (simp add: step_keeps_def upd_buf_inv)
next
  case (data b')
  moreover have "recv_inv ((sys_bufs s ! i)\<lparr>rb_buf := drop n (rb_buf (sys_bufs s ! i))\<rparr>)"
    using sys_invD(3) [OF inv i] by (auto simp: recv_inv_def rb_len_def)
  ultimately show ?thesis
    using i inv by (simp add: step_keeps_def upd_buf_inv rb_len_def)
qed

text \<open>Reset and Close give back the whole contents of the buffer they empty.\<close>

lemma empty_buf_keeps:
  assumes inv: "sys_inv s" and i: "i < length (sys_bufs s)"
    and rb: "rb_buf rb = []" "rb_limit rb = rb_limit (sys_bufs s ! i)"
  shows "step_keeps s (map_option (\<lambda>b. upd_buf s i (rb, b))
      (ByteBudget_Release (sys_budget s) (rb_len (sys_bufs s ! i))))"
proof -
  obtain b' where b': "ByteBudget_Release (sys_budget s) (rb_len (sys_bufs s ! i)) = Some b'" "budget_inv b'"
    "ByteBudget_Used b' = ByteBudget_Used (sys_budget s) - rb_len (sys_bufs s ! i)"
    "budget_limit b' = budget_limit (sys_budget s)"
    using Close_Reset_release [OF sys_invD(1) [OF inv] sys_invD(4) [OF inv i]] .
  moreover have "recv_inv rb"
    using rb sys_invD(3) [OF inv i] by (simp add: recv_inv_def rb_len_def)
  ultimately show ?thesis
    using i inv rb by (simp add: step_keeps_def upd_buf_inv rb_len_def)
qed

lemma step_reset_keeps:
  assumes inv: "sys_inv s" and i: "i < length (sys_bufs s)"
  shows "step_keeps s (buffer_step s (EvReset i))"
  using empty_buf_keeps [OF inv i, of "(sys_bufs s ! i)\<lparr>rb_buf := []\<rparr>"]
    upd_buf_inv [OF inv i sys_invD(3) [OF inv i] sys_invD(1) [OF inv]] i
  by (auto simp: RecvBuffer_Reset_def step_keeps_def split: option.splits)

lemma step_close_keeps:
  assumes inv: "sys_inv s" and i: "i < length (sys_bufs s)"
  shows "step_keeps s (buffer_step s (EvClose i))"
  using empty_buf_keeps [OF inv i, of "(sys_bufs s ! i)\<lparr>rb_closed := True, rb_buf := []\<rparr>"]
    upd_buf_inv [OF inv i sys_invD(3) [OF inv i] sys_invD(1) [OF inv]] i
  by (auto simp: RecvBuffer_Close_def step_keeps_def split: option.splits)

lemma step_deadline_keeps:
  assumes inv: "sys_inv s" and i: "i < length (sys_bufs s)"
  shows "step_keeps s (buffer_step s (EvDeadline i d))"
proof -
  have "recv_inv (RecvBuffer_SetDeadline (sys_bufs s ! i) d)"
    using sys_invD(3) [OF inv i] by (simp add: recv_inv_def rb_len_def RecvBuffer_SetDeadline_def)
  with inv i sys_invD(1) [OF inv] show ?thesis
    by (simp add: step_keeps_def upd_buf_inv rb_len_def RecvBuffer_SetDeadline_def)
qed

lemma step_frame_reserve_keeps:
  assumes inv: "sys_inv s"
  shows "step_keeps s (buffer_step s (EvFrameReserve n))"
proof -
  obtain ok b' where r: "ByteBudget_Reserve (sys_budget s) (int n) = (ok, b')"
    by (cases "ByteBudget_Reserve (sys_budget s) (int n)")
  with bb.reserve_ok [OF sys_invD(1) [OF inv], of "int n" b']
    bb.reserve_fail [of "sys_budget s" "int n" b'] inv
  show ?thesis
    by (cases ok) (simp_all add: step_keeps_def sys_inv_def buffered_def)
qed

lemma step_frame_release_keeps:
  assumes inv: "sys_inv s" and k: "k < length (sys_frames s)"
  shows "step_keeps s (buffer_step s (EvFrameRelease k))"
proof -
  have "int (sys_frames s ! k) \<le> ByteBudget_Used (sys_budget s)"
    using frame_le_buffered [OF k] sys_invD(2) [OF inv] by simp
  then obtain b' where "ByteBudget_Release (sys_budget s) (int (sys_frames s ! k)) = Some b'" "budget_inv b'"
    "ByteBudget_Used b' = ByteBudget_Used (sys_budget s) - int (sys_frames s ! k)"
    "budget_limit b' = budget_limit (sys_budget s)"
    using bb.release_ok [OF sys_invD(1) [OF inv], of "int (sys_frames s ! k)"] by auto
  with inv k sum_list_remove_int [OF k] show ?thesis
    by (simp add: step_keeps_def sys_inv_def buffered_def)
qed

lemma step_new_keeps:
  assumes inv: "sys_inv s" and "l < 2 ^ 63"
  shows "step_keeps s (buffer_step s (EvNew l))"
  using assms recv_inv_new [of l]
  by (auto simp: step_keeps_def sys_inv_def buffered_def NewRecvBufferWithLimit_def rb_len_def)

fun event_ok :: "buffer_event \<Rightarrow> bool" where
  "event_ok (EvNew l) = (l < 2 ^ 63)"
| "event_ok _ = True"

lemma buffer_step_keeps: "sys_inv s \<Longrightarrow> event_ok e \<Longrightarrow> step_keeps s (buffer_step s e)"
  using step_new_keeps step_write_keeps step_read_keeps step_reset_keeps step_close_keeps
    step_deadline_keeps step_frame_reserve_keeps step_frame_release_keeps step_keeps_same
  by (cases e) (simp_all del: buffer_step.simps, (metis buffer_step.simps)+)

lemma buffer_run_keeps: "sys_inv s \<Longrightarrow> list_all event_ok es \<Longrightarrow> step_keeps s (buffer_run s es)"
proof (induction es arbitrary: s)
  case Nil
  then show ?case by (simp add: step_keeps_same)
next
  case (Cons e es)
  then obtain s' where "buffer_step s e = Some s'" "sys_inv s'"
    "budget_limit (sys_budget s') = budget_limit (sys_budget s)"
    using buffer_step_keeps [of s e] by (auto simp: step_keeps_def)
  with Cons.IH [of s'] Cons.prems show ?case
    by (simp add: step_keeps_def)
qed

lemma sys_inv_init: "0 \<le> limit \<Longrightarrow> limit < 2 ^ 63 \<Longrightarrow> sys_inv (buffer_sys_init limit)"
  by (simp add: sys_inv_def buffer_sys_init_def budget_inv_def NewByteBudget_def ByteBudget_Used_def buffered_def)

section \<open>Properties\<close>

text \<open>
  C29. Whatever the connections do, in any order and on any of the buffers, the server's budget is
  never released below zero (the panic is unreachable), its use is exactly the number of
  unread bytes plus the frames being read, and it never exceeds the configured limit.
\<close>

theorem shared_budget_exact:
  assumes "0 \<le> limit" and "limit < 2 ^ 63" and "list_all event_ok es"
  shows "\<exists>s. buffer_run (buffer_sys_init limit) es = Some s \<and>
    ByteBudget_Used (sys_budget s) = (\<Sum>rb\<leftarrow>sys_bufs s. rb_len rb) + (\<Sum>n\<leftarrow>sys_frames s. int n) \<and>
    (\<Sum>rb\<leftarrow>sys_bufs s. rb_len rb) + (\<Sum>n\<leftarrow>sys_frames s. int n) \<le> limit"
proof -
  obtain s where s: "buffer_run (buffer_sys_init limit) es = Some s" "sys_inv s"
    "budget_limit (sys_budget s) = budget_limit (sys_budget (buffer_sys_init limit))"
    using buffer_run_keeps [OF sys_inv_init [OF assms(1,2)] assms(3)] by (auto simp: step_keeps_def)
  then have "ByteBudget_Used (sys_budget s) \<le> limit"
    using bb.inv_bounds [of "sys_budget s"] sys_invD(1) [OF s(2)]
    by (simp add: budget_limit_def buffer_sys_init_def NewByteBudget_def)
  with s sys_invD(2) [OF s(2)] show ?thesis
    by (simp add: buffered_def)
qed

theorem shared_budget_exact_witness:
  "\<exists>s. buffer_run (buffer_sys_init 5)
      [EvNew 4, EvNew 0, EvWrite 0 [1, 2, 3], EvWrite 1 [4, 5, 6], EvFrameReserve 2, EvRead 0 0 1, EvClose 1] = Some s \<and>
    ByteBudget_Used (sys_budget s) = (\<Sum>rb\<leftarrow>sys_bufs s. rb_len rb) + (\<Sum>n\<leftarrow>sys_frames s. int n) \<and>
    (\<Sum>rb\<leftarrow>sys_bufs s. rb_len rb) + (\<Sum>n\<leftarrow>sys_frames s. int n) \<le> 5"
  by (rule shared_budget_exact) simp_all

text \<open>A conversation on one buffer: what was accepted and what was delivered, as byte streams.\<close>

datatype rb_io = IoWrite bytes | IoRead int nat

fun rb_trace :: "recv_buffer \<Rightarrow> byte_budget option \<Rightarrow> rb_io list \<Rightarrow>
    (bytes \<times> bytes \<times> recv_buffer \<times> byte_budget option) option" where
  "rb_trace rb b [] = Some ([], [], rb, b)"
| "rb_trace rb b (IoWrite data # ios) =
     (case RecvBuffer_Write rb b data of (e, rb', b') \<Rightarrow>
        map_option (\<lambda>(acc, del, r). ((if e = None then data else []) @ acc, del, r)) (rb_trace rb' b' ios))"
| "rb_trace rb b (IoRead now n # ios) =
     (case RecvBuffer_Read rb b now n of
        None \<Rightarrow> None
      | Some (r, rb', b') \<Rightarrow>
          map_option (\<lambda>(acc, del, x). (acc, (case r of ReadData d \<Rightarrow> d | _ \<Rightarrow> []) @ del, x))
            (rb_trace rb' b' ios))"

lemma rb_trace_stream:
  "recv_inv rb \<Longrightarrow> budget_inv b \<Longrightarrow> rb_len rb \<le> ByteBudget_Used b \<Longrightarrow>
     \<exists>acc del rb' b'. rb_trace rb b ios = Some (acc, del, rb', b') \<and> rb_buf rb @ acc = del @ rb_buf rb' \<and>
       rb_len rb' \<le> rb_limit rb"
proof (induction ios arbitrary: rb b)
  case Nil
  then show ?case by (simp add: recv_inv_def)
next
  case (Cons io ios)
  show ?case
  proof (cases io)
    case (IoWrite data)
    from Cons.prems(1,2) show ?thesis
    proof (cases rule: Write_cases [of rb b data])
      case (rejected e)
      with Cons.IH [OF Cons.prems] IoWrite show ?thesis by auto
    next
      case (accepted b')
      moreover have "recv_inv (rb\<lparr>rb_buf := rb_buf rb @ data\<rparr>)"
        using accepted Cons.prems(1) by (simp add: recv_inv_def rb_len_def)
      ultimately show ?thesis
        using Cons.IH [of "rb\<lparr>rb_buf := rb_buf rb @ data\<rparr>" b'] Cons.prems(3) IoWrite
        by (auto simp: rb_len_def)
    qed
  next
    case (IoRead now n)
    from Cons.prems(2,3) show ?thesis
    proof (cases rule: Read_cases [of b rb now n])
      case (nothing r)
      with Cons.IH [OF Cons.prems] IoRead show ?thesis
        by (auto split: read_result.splits)
    next
      case (data b')
      moreover have "recv_inv (rb\<lparr>rb_buf := drop n (rb_buf rb)\<rparr>)"
        using Cons.prems(1) by (auto simp: recv_inv_def rb_len_def)
      moreover have "rb_len (rb\<lparr>rb_buf := drop n (rb_buf rb)\<rparr>) \<le> ByteBudget_Used b'"
        using data Cons.prems(3) by (simp add: rb_len_def)
      ultimately obtain acc del rb' b'' where
        tr: "rb_trace (rb\<lparr>rb_buf := drop n (rb_buf rb)\<rparr>) b' ios = Some (acc, del, rb', b'')"
          "rb_len rb' \<le> rb_limit rb" and eq: "drop n (rb_buf rb) @ acc = del @ rb_buf rb'"
        using Cons.IH [of "rb\<lparr>rb_buf := drop n (rb_buf rb)\<rparr>" b'] by auto
      have "rb_buf rb @ acc = take n (rb_buf rb) @ drop n (rb_buf rb) @ acc"
        by (simp only: append_assoc [symmetric] append_take_drop_id)
      with eq have "rb_buf rb @ acc = (take n (rb_buf rb) @ del) @ rb_buf rb'"
        by simp
      with tr data(1) IoRead show ?thesis by simp
    qed
  qed
qed

text \<open>
  C30. A receive buffer is a faithful byte stream: over any sequence of writes and reads, the bytes
  delivered followed by the bytes still buffered are exactly the accepted bytes in order, and
  the unread part never exceeds the buffer's limit.
\<close>

theorem RecvBuffer_stream:
  assumes "limit < 2 ^ 63" and "0 \<le> cap" and "cap < 2 ^ 63"
  shows "\<exists>acc del rb b. rb_trace (NewRecvBufferWithLimit limit) (Some (NewByteBudget cap)) ios = Some (acc, del, rb, b) \<and>
    acc = del @ rb_buf rb \<and> rb_len rb \<le> rb_limit (NewRecvBufferWithLimit limit)"
proof -
  have "budget_inv (Some (NewByteBudget cap))" "rb_len (NewRecvBufferWithLimit limit) = 0"
    using assms by (simp_all add: budget_inv_def NewByteBudget_def NewRecvBufferWithLimit_def rb_len_def)
  with rb_trace_stream [OF recv_inv_new [OF assms(1)], of "Some (NewByteBudget cap)" ios] show ?thesis
    by (simp add: ByteBudget_Used_def NewByteBudget_def NewRecvBufferWithLimit_def)
qed

theorem RecvBuffer_stream_witness:
  "\<exists>acc del rb b. rb_trace (NewRecvBufferWithLimit 4) (Some (NewByteBudget 100))
      [IoWrite [1, 2, 3], IoRead 0 2, IoWrite [4, 5], IoWrite [6, 7], IoRead 0 9] = Some (acc, del, rb, b) \<and>
    acc = del @ rb_buf rb \<and> rb_len rb \<le> rb_limit (NewRecvBufferWithLimit 4)"
  by (rule RecvBuffer_stream) simp_all

end
