(* ===== verification/Config.thy ===== *)
theory Config
  imports Complex_Main Addressing Codec Recv_Buffer
begin

text \<open>
  Configuration: the limits on ICE descriptions (transports/ice.go), the transports a server offers
  (peer/server/transport.go), the API object and its options (peer/api), and the defaults and
  checks that NewServer (peer/server/new.go) and NewClient (peer/client/new.go) apply to their options.
  Durations are in nanoseconds. Callbacks and the clock are not fields here: what they answer is an argument of
  the operations that call them.
\<close>

section \<open>ICE descriptions (transports/ice.go)\<close>

record ice_description =
  UsernameFragment :: string
  Password :: string
  Candidates :: "string list"

fun candidateBytes :: "string list \<Rightarrow> int \<Rightarrow> int \<Rightarrow> unit result" where
  "candidateBytes [] acc maxBytes = Inr ()"
| "candidateBytes (candidate # rest) acc maxBytes =
     (if int (length candidate) > maxBytes - acc then Inl (Errorf ''ICE description exceeds the byte limit'')
      else candidateBytes rest (acc + int (length candidate)) maxBytes)"

definition ValidateICEDescriptionLimits :: "ice_description \<Rightarrow> int \<Rightarrow> int \<Rightarrow> unit result" where
  "ValidateICEDescriptionLimits description maxCandidates maxBytes =
     (if maxCandidates < 1 \<or> maxBytes < 1 then Inl (Errorf ''invalid ICE description limits'')
      else if int (length (Candidates description)) > maxCandidates then Inl (Errorf ''ICE description has too many candidates'')
      else (let acc = int (length (UsernameFragment description)) + int (length (Password description))
            in if acc > maxBytes then Inl (Errorf ''ICE description exceeds the byte limit'')
               else candidateBytes (Candidates description) acc maxBytes))"

definition description_bytes :: "ice_description \<Rightarrow> int" where
  "description_bytes d = int (length (UsernameFragment d)) + int (length (Password d)) + (\<Sum>c \<leftarrow> Candidates d. int (length c))"

lemma sum_lengths_nonneg: "0 \<le> (\<Sum>c \<leftarrow> cs. int (length c))"
  by (induction cs) auto

lemma candidateBytes_iff:
  "candidateBytes cs acc maxBytes = Inr () \<longleftrightarrow> cs = [] \<or> acc + (\<Sum>c \<leftarrow> cs. int (length c)) \<le> maxBytes"
proof (induction cs arbitrary: acc)
  case (Cons c cs)
  show ?case using Cons.IH [of "acc + int (length c)"] sum_lengths_nonneg [of cs] by auto
qed simp

text \<open>
  C36. The limits are exact: a description passes if and only if it has at most the allowed number of candidates and its
  credentials and candidates together have at most the allowed number of bytes, for positive limits; otherwise it never
  passes. The running difference that the code compares never leaves the range of int.
\<close>

theorem ICE_limits_exact:
  "ValidateICEDescriptionLimits d maxCandidates maxBytes = Inr () \<longleftrightarrow>
     1 \<le> maxCandidates \<and> 1 \<le> maxBytes \<and> int (length (Candidates d)) \<le> maxCandidates \<and> description_bytes d \<le> maxBytes"
  using sum_lengths_nonneg [of "Candidates d"]
  by (auto simp: ValidateICEDescriptionLimits_def description_bytes_def candidateBytes_iff Let_def)

section \<open>Transports (peer/server/transport.go)\<close>

text \<open>A transport as the peer layer sees it; the two optional interfaces are None where they are not implemented. A nil transport is None.\<close>

record i_transport =
  tr_Name :: string
  tr_PacketMode :: "bool option"
  tr_MaxFrameSize :: "int option"

fun findTransport :: "i_transport option list \<Rightarrow> string \<Rightarrow> i_transport option" where
  "findTransport [] wanted = None"
| "findTransport (None # rest) wanted = findTransport rest wanted"
| "findTransport (Some t # rest) wanted = (if tr_Name t = wanted then Some t else findTransport rest wanted)"

definition containsTransport :: "i_transport option list \<Rightarrow> string \<Rightarrow> bool" where
  "containsTransport available wanted \<longleftrightarrow> findTransport available wanted \<noteq> None"

definition transportNames :: "i_transport option list \<Rightarrow> string list" where
  "transportNames available = concat (map (\<lambda>t. case t of None \<Rightarrow> [] | Some t \<Rightarrow> [tr_Name t]) available)"

definition transportPacketMode :: "i_transport \<Rightarrow> bool" where
  "transportPacketMode t = (case tr_PacketMode t of None \<Rightarrow> False | Some b \<Rightarrow> b)"

definition transportMaxFrameSize :: "i_transport \<Rightarrow> int" where
  "transportMaxFrameSize t = (case tr_MaxFrameSize t of None \<Rightarrow> 0 | Some n \<Rightarrow> n)"

definition quic_transport :: i_transport where
  "quic_transport = \<lparr>tr_Name = ''quic'', tr_PacketMode = None, tr_MaxFrameSize = None\<rparr>"

definition rawudp_transport :: i_transport where
  "rawudp_transport = \<lparr>tr_Name = ''raw_udp'', tr_PacketMode = Some True, tr_MaxFrameSize = Some 1100\<rparr>"

lemma contains_names: "containsTransport ts n \<longleftrightarrow> n \<in> set (transportNames ts)"
  by (induction ts n rule: findTransport.induct) (auto simp: containsTransport_def transportNames_def)

section \<open>The API object (peer/api)\<close>

record relay_config =
  rc_ServerID :: string
  rc_URL :: string
  rc_Token :: string

text \<open>
  The API object. An ICE URL is kept as its scheme and its text; the signaling adapter is its identity, if it has one, or None for nil.
\<close>

datatype uri_scheme = SchemeSTUN | SchemeSTUNS | SchemeTURN | SchemeTURNS | SchemeUnknown

record ice_uri =
  uri_Scheme :: uri_scheme
  uri_Text :: string
  uri_Username :: string
  uri_Password :: string

record api =
  api_RoomId :: string
  api_Signaling :: "string option"
  api_ICEURLs :: "ice_uri list"
  api_webSocketRelay :: "relay_config option"

type_synonym api_option = "api \<Rightarrow> api result"

fun applyOptions :: "api_option list \<Rightarrow> api \<Rightarrow> api result" where
  "applyOptions [] a = Inr a"
| "applyOptions (opt # rest) a = bind_result (opt a) (applyOptions rest)"

definition NewAPI :: "string \<Rightarrow> string option \<Rightarrow> api_option list \<Rightarrow> api result" where
  "NewAPI roomID signalingServer opts =
     (if roomID = [] then Inl (Errorf ''room ID is not set'')
      else bind_result (ValidateRoomID roomID) (\<lambda>_.
        if signalingServer = None then Inl (Errorf ''signaling server adapter is not set'')
        else applyOptions opts
          \<lparr>api_RoomId = roomID, api_Signaling = signalingServer, api_ICEURLs = [], api_webSocketRelay = None\<rparr>))"

text \<open>
  parseICEURI: the parser of pion/stun and that of net/url are arguments. A parsed URL has a user, if any, with a name and an optional password.
\<close>

record authority_url =
  au_Scheme :: string
  au_User :: "(string \<times> string option) option"
  au_Path :: string
  au_Hostname :: string
  au_Port :: string
  au_RawQuery :: string

fun contains_scheme :: "string \<Rightarrow> bool" where
  "contains_scheme [] = False"
| "contains_scheme (c # s) = (take 3 (c # s) = ''://'' \<or> contains_scheme s)"

fun replace_scheme :: "string \<Rightarrow> string" where
  "replace_scheme [] = []"
| "replace_scheme (c # s) = (if take 3 (c # s) = ''://'' then CHR '':'' # drop 3 (c # s) else c # replace_scheme s)"

definition parseICEURI :: "(string \<Rightarrow> ice_uri result) \<Rightarrow> (string \<Rightarrow> authority_url option) \<Rightarrow> string \<Rightarrow> ice_uri result" where
  "parseICEURI stun_ParseURI url_Parse raw =
     (case stun_ParseURI raw of
        Inr uri \<Rightarrow> Inr uri
      | Inl err \<Rightarrow>
          if \<not> contains_scheme raw then Inl err
          else (case url_Parse raw of
                  None \<Rightarrow> Inl err
                | Some parsed \<Rightarrow>
                    (case au_User parsed of
                       None \<Rightarrow> stun_ParseURI (replace_scheme raw)
                     | Some (username, password) \<Rightarrow>
                         if au_Path parsed \<noteq> [] \<and> au_Path parsed \<noteq> ''/'' then Inl err
                         else if au_Hostname parsed = [] then Inl err
                         else bind_result (stun_ParseURI
                             (au_Scheme parsed @ '':''
                              @ (if au_Port parsed \<noteq> [] then net_JoinHostPort (au_Hostname parsed) (au_Port parsed) else au_Hostname parsed)
                              @ (if au_RawQuery parsed \<noteq> [] then ''?'' @ au_RawQuery parsed else [])))
                           (\<lambda>uri. let uri = uri\<lparr>uri_Username := username\<rparr>
                                  in Inr (case password of None \<Rightarrow> uri | Some p \<Rightarrow> uri\<lparr>uri_Password := p\<rparr>)))))"

fun validURIs :: "(string \<Rightarrow> ice_uri result) \<Rightarrow> uri_scheme set \<Rightarrow> string list \<Rightarrow> ice_uri list" where
  "validURIs parse schemes [] = []"
| "validURIs parse schemes (raw # rest) =
     (case parse raw of
        Inl err \<Rightarrow> validURIs parse schemes rest
      | Inr uri \<Rightarrow> if uri_Scheme uri \<notin> schemes then validURIs parse schemes rest else uri # validURIs parse schemes rest)"

definition WithSTUNServer :: "(string \<Rightarrow> ice_uri result) \<Rightarrow> string list \<Rightarrow> api_option" where
  "WithSTUNServer parse urls a =
     (let valid = validURIs parse {SchemeSTUN, SchemeSTUNS} urls
      in if valid = [] then Inl (Errorf ''no valid STUN server specified'')
         else Inr (a\<lparr>api_ICEURLs := api_ICEURLs a @ valid\<rparr>))"

definition WithTURNServer :: "(string \<Rightarrow> ice_uri result) \<Rightarrow> string list \<Rightarrow> api_option" where
  "WithTURNServer parse urls a =
     (let valid = validURIs parse {SchemeTURN, SchemeTURNS} urls
      in if valid = [] then Inl (Errorf ''no valid TURN server specified'')
         else Inr (a\<lparr>api_ICEURLs := api_ICEURLs a @ valid\<rparr>))"

definition WithWebSocketRelayServer :: "(string \<Rightarrow> url option) \<Rightarrow> (url \<Rightarrow> string) \<Rightarrow> string \<Rightarrow> string \<Rightarrow> string \<Rightarrow> api_option" where
  "WithWebSocketRelayServer url_Parse url_String relayBaseURL serverID token a =
     (if serverID = [] then Inl (Errorf ''websocket relay server ID is empty'')
      else bind_result (EndpointURL url_Parse url_String relayBaseURL serverID) (\<lambda>endpoint.
        Inr (a\<lparr>api_webSocketRelay := Some \<lparr>rc_ServerID = serverID, rc_URL = endpoint, rc_Token = token\<rparr>\<rparr>)))"

section \<open>The relay provider (peer/api/types.go, relays/websocket/provider.go)\<close>

record provider_config =
  pc_URL :: string
  pc_Session :: string
  pc_Token :: string
  pc_LocalID :: string
  pc_PeerID :: string
  pc_Network :: string
  pc_HandshakeTimeout :: int
  pc_PingInterval :: int

definition second :: int where "second = 10 ^ 9"

definition NewProvider :: "provider_config \<Rightarrow> provider_config result" where
  "NewProvider config =
     (if pc_URL config = [] then Inl (Errorf ''websocket relay URL is empty'')
      else if pc_Session config = [] then Inl (Errorf ''websocket relay session is empty'')
      else if pc_LocalID config = [] \<or> pc_PeerID config = [] then Inl (Errorf ''websocket relay local and peer IDs are required'')
      else (let config = (if pc_Network config = [] then config\<lparr>pc_Network := ''udp4''\<rparr> else config)
            in if pc_Network config \<noteq> ''udp4'' \<and> pc_Network config \<noteq> ''udp6'' then Inl (Errorf ''unsupported websocket relay network'')
               else (let config = (if pc_HandshakeTimeout config \<le> 0 then config\<lparr>pc_HandshakeTimeout := 10 * second\<rparr> else config);
                         config = (if pc_PingInterval config \<le> 0 then config\<lparr>pc_PingInterval := 20 * second\<rparr> else config)
                     in Inr config)))"

definition WebSocketRelayProvider :: "api option \<Rightarrow> string \<Rightarrow> string \<Rightarrow> provider_config option result" where
  "WebSocketRelayProvider a localID peerID =
     (case a of
        None \<Rightarrow> Inr None
      | Some a \<Rightarrow>
          (case api_webSocketRelay a of
             None \<Rightarrow> Inr None
           | Some config \<Rightarrow>
               if localID = [] \<or> peerID = [] then Inl (Errorf ''websocket relay endpoint IDs are required'')
               else (case (if localID = rc_ServerID config then Some peerID
                           else if peerID = rc_ServerID config then Some localID else None) of
                       None \<Rightarrow> Inl (Errorf ''websocket relay endpoint pair does not contain server ID'')
                     | Some clientID \<Rightarrow>
                         bind_result (NewProvider
                             \<lparr>pc_URL = rc_URL config, pc_Session = RelaySessionID (api_RoomId a) clientID, pc_Token = rc_Token config,
                              pc_LocalID = localID, pc_PeerID = peerID, pc_Network = [], pc_HandshakeTimeout = 0, pc_PingInterval = 0\<rparr>)
                           (\<lambda>provider. Inr (Some provider)))))"

lemma RelaySessionID_inj:
  assumes "RelaySessionID room c = RelaySessionID room' c'" and "roomPattern room" "roomPattern room'"
  shows "room' = room \<and> c' = c"
proof -
  have n: "CHR '':'' \<notin> set room" "CHR '':'' \<notin> set room'" using assms(2,3) by (auto simp: roomPattern_def list_all_iff roomChar_def)
  have e: "room @ CHR '':'' # c = room' @ CHR '':'' # c'" using assms(1) by (simp add: RelaySessionID_def)
  then have "takeWhile (\<lambda>x. x \<noteq> CHR '':'') (room @ CHR '':'' # c) = takeWhile (\<lambda>x. x \<noteq> CHR '':'') (room' @ CHR '':'' # c')" by simp
  with n have "room = room'" by (simp add: takeWhile_sep)
  with e show ?thesis by simp
qed

text \<open>
  C38. The two ends of a connection meet in one relay session: the client and the server, each
  asking with itself as the local end, get providers with the same endpoint, session and token and with exchanged identities; and for
  rooms that pass validation the session determines the room and the client.
\<close>

theorem relay_session_shared:
  assumes "api_webSocketRelay a = Some config" and "rc_URL config \<noteq> []" "rc_ServerID config = server" "server \<noteq> []" "client \<noteq> []" "client \<noteq> server"
  shows "\<exists>p q. WebSocketRelayProvider (Some a) server client = Inr (Some p) \<and> WebSocketRelayProvider (Some a) client server = Inr (Some q) \<and>
    pc_URL p = pc_URL q \<and> pc_Session p = pc_Session q \<and> pc_Token p = pc_Token q \<and> pc_Network p = pc_Network q \<and>
    pc_LocalID p = pc_PeerID q \<and> pc_PeerID p = pc_LocalID q \<and>
    (\<forall>room' client'. ValidateRoomID (api_RoomId a) = Inr () \<and> ValidateRoomID room' = Inr () \<and> pc_Session p = RelaySessionID room' client' \<longrightarrow>
       room' = api_RoomId a \<and> client' = client)"
proof -
  define prov where "prov l p = \<lparr>pc_URL = rc_URL config, pc_Session = RelaySessionID (api_RoomId a) client, pc_Token = rc_Token config,
    pc_LocalID = l, pc_PeerID = p, pc_Network = ''udp4'', pc_HandshakeTimeout = 10 * second, pc_PingInterval = 20 * second\<rparr>" for l p
  have "WebSocketRelayProvider (Some a) server client = Inr (Some (prov server client))"
    "WebSocketRelayProvider (Some a) client server = Inr (Some (prov client server))"
    using assms by (simp_all add: WebSocketRelayProvider_def NewProvider_def prov_def RelaySessionID_def)
  moreover have "room' = api_RoomId a \<and> client' = client"
    if "ValidateRoomID (api_RoomId a) = Inr ()" "ValidateRoomID room' = Inr ()" "RelaySessionID (api_RoomId a) client = RelaySessionID room' client'" for room' client'
    using RelaySessionID_inj [OF that(3)] validated(1) [OF that(1)] validated(1) [OF that(2)] by simp
  ultimately show ?thesis
    by - (rule exI [of _ "prov server client"], rule exI [of _ "prov client server"], simp add: prov_def, blast)
qed

theorem relay_session_shared_witness:
  "\<exists>p q. WebSocketRelayProvider (Some \<lparr>api_RoomId = ''room'', api_Signaling = Some ''s'', api_ICEURLs = [],
       api_webSocketRelay = Some \<lparr>rc_ServerID = ''srv'', rc_URL = ''wss://h/relay/srv'', rc_Token = ''t''\<rparr>\<rparr>) ''srv'' ''cli'' = Inr (Some p) \<and>
     WebSocketRelayProvider (Some \<lparr>api_RoomId = ''room'', api_Signaling = Some ''s'', api_ICEURLs = [],
       api_webSocketRelay = Some \<lparr>rc_ServerID = ''srv'', rc_URL = ''wss://h/relay/srv'', rc_Token = ''t''\<rparr>\<rparr>) ''cli'' ''srv'' = Inr (Some q) \<and>
     pc_Session p = pc_Session q"
  using relay_session_shared [of "\<lparr>api_RoomId = ''room'', api_Signaling = Some ''s'', api_ICEURLs = [],
       api_webSocketRelay = Some \<lparr>rc_ServerID = ''srv'', rc_URL = ''wss://h/relay/srv'', rc_Token = ''t''\<rparr>\<rparr>"
       "\<lparr>rc_ServerID = ''srv'', rc_URL = ''wss://h/relay/srv'', rc_Token = ''t''\<rparr>" "''srv''" "''cli''"]
  by auto


section \<open>Server options (peer/server/types.go, new.go)\<close>

definition DEFAULT_REPLAY_PROTECTION :: int where "DEFAULT_REPLAY_PROTECTION = 5 * 60 * second"
definition DEFAULT_LRU_SIZE :: int where "DEFAULT_LRU_SIZE = 100000"
definition DEFAULT_MAX_FRAME_SIZE :: int where "DEFAULT_MAX_FRAME_SIZE = 4 * 2 ^ 20"
definition DEFAULT_MAX_PENDING_ICE :: int where "DEFAULT_MAX_PENDING_ICE = 128"
definition DEFAULT_MAX_PENDING_ICE_BYTES :: int where "DEFAULT_MAX_PENDING_ICE_BYTES = 256 * 2 ^ 10"
definition DEFAULT_HANDSHAKE_TIMEOUT :: int where "DEFAULT_HANDSHAKE_TIMEOUT = 30 * second"
definition DEFAULT_MAX_CONNECTIONS :: int where "DEFAULT_MAX_CONNECTIONS = 1024"
definition DEFAULT_MAX_HANDSHAKES :: int where "DEFAULT_MAX_HANDSHAKES = 256"
definition DEFAULT_MAX_BUFFERED :: int where "DEFAULT_MAX_BUFFERED = 256 * 2 ^ 20"
definition DEFAULT_HEARTBEAT_INTERVAL :: int where "DEFAULT_HEARTBEAT_INTERVAL = 5 * second"
definition DEFAULT_HEARTBEAT_TIMEOUT :: int where "DEFAULT_HEARTBEAT_TIMEOUT = 15 * second"
definition DEFAULT_TIMEOUT :: int where "DEFAULT_TIMEOUT = 30 * second"

lemmas default_defs = second_def DEFAULT_REPLAY_PROTECTION_def DEFAULT_LRU_SIZE_def DEFAULT_MAX_FRAME_SIZE_def DEFAULT_MAX_PENDING_ICE_def
  DEFAULT_MAX_PENDING_ICE_BYTES_def DEFAULT_HANDSHAKE_TIMEOUT_def DEFAULT_MAX_CONNECTIONS_def DEFAULT_MAX_HANDSHAKES_def
  DEFAULT_MAX_BUFFERED_def DEFAULT_HEARTBEAT_INTERVAL_def DEFAULT_HEARTBEAT_TIMEOUT_def DEFAULT_TIMEOUT_def DefaultReceiveBufferSize_def

text \<open>
  A float64 by its value; the two zeros are equal for every comparison. A comparison with NaN is false.
\<close>

datatype float64 = Finite rat | PosInf | NegInf | NaN

definition float_eq :: "float64 \<Rightarrow> float64 \<Rightarrow> bool" where
  "float_eq x y \<longleftrightarrow> x = y \<and> x \<noteq> NaN"

definition float_le :: "float64 \<Rightarrow> float64 \<Rightarrow> bool" where
  "float_le x y =
     (case x of
        NaN \<Rightarrow> False
      | NegInf \<Rightarrow> y \<noteq> NaN
      | PosInf \<Rightarrow> y = PosInf
      | Finite a \<Rightarrow> (case y of NaN \<Rightarrow> False | NegInf \<Rightarrow> False | PosInf \<Rightarrow> True | Finite b \<Rightarrow> a \<le> b))"

text \<open>The options of a server; the key provider is None for nil.\<close>

record server_options =
  so_KeyProvider :: "(string \<Rightarrow> bytes result) option"
  so_IdentityKey :: bytes
  so_Transport :: "i_transport option"
  so_Transports :: "i_transport option list"
  so_LRUSize :: int
  so_ReplayProtection :: int
  so_ClockSkew :: int
  so_EncryptionType :: string
  so_EncryptionAAD :: bytes
  so_MaxFrameSize :: int
  so_ReceiveBufferSize :: int
  so_MaxBufferedBytes :: int
  so_MaxPendingICE :: int
  so_MaxPendingICEBytes :: int
  so_MaxConnections :: int
  so_MaxPendingHandshakes :: int
  so_HandshakeTimeout :: int
  so_HeartbeatInterval :: int
  so_HeartbeatTimeout :: int
  so_HelloRateLimit :: float64
  so_HelloRateBurst :: int

definition orDefault :: "'a::zero \<Rightarrow> 'a \<Rightarrow> 'a" where
  "orDefault d x = (if x = 0 then d else x)"

fun distinctTransports :: "i_transport option list \<Rightarrow> string set \<Rightarrow> unit result" where
  "distinctTransports [] seen = Inr ()"
| "distinctTransports (None # rest) seen = Inl (Errorf ''unsupported server transport'')"
| "distinctTransports (Some t # rest) seen =
     (if tr_Name t = [] then Inl (Errorf ''unsupported server transport'')
      else if tr_Name t \<in> seen then Inl (Errorf ''duplicate server transport'')
      else distinctTransports rest (insert (tr_Name t) seen))"

definition serverDefaults :: "server_options \<Rightarrow> server_options" where
  "serverDefaults options = options\<lparr>
     so_LRUSize := orDefault DEFAULT_LRU_SIZE (so_LRUSize options),
     so_ReplayProtection := orDefault DEFAULT_REPLAY_PROTECTION (so_ReplayProtection options),
     so_ClockSkew := orDefault (30 * second) (so_ClockSkew options),
     so_MaxFrameSize := orDefault DEFAULT_MAX_FRAME_SIZE (so_MaxFrameSize options),
     so_ReceiveBufferSize := orDefault DefaultReceiveBufferSize (so_ReceiveBufferSize options),
     so_MaxBufferedBytes := orDefault DEFAULT_MAX_BUFFERED (so_MaxBufferedBytes options),
     so_MaxPendingICE := orDefault DEFAULT_MAX_PENDING_ICE (so_MaxPendingICE options),
     so_MaxPendingICEBytes := orDefault DEFAULT_MAX_PENDING_ICE_BYTES (so_MaxPendingICEBytes options),
     so_MaxConnections := orDefault DEFAULT_MAX_CONNECTIONS (so_MaxConnections options),
     so_MaxPendingHandshakes := orDefault DEFAULT_MAX_HANDSHAKES (so_MaxPendingHandshakes options),
     so_HandshakeTimeout := orDefault DEFAULT_HANDSHAKE_TIMEOUT (so_HandshakeTimeout options),
     so_HeartbeatInterval := orDefault DEFAULT_HEARTBEAT_INTERVAL (so_HeartbeatInterval options),
     so_HeartbeatTimeout := orDefault DEFAULT_HEARTBEAT_TIMEOUT (so_HeartbeatTimeout options),
     so_HelloRateLimit := (if float_eq (so_HelloRateLimit options) (Finite 0) then Finite 100 else so_HelloRateLimit options),
     so_HelloRateBurst := orDefault 200 (so_HelloRateBurst options)\<rparr>"

definition serverLimitsInvalid :: "server_options \<Rightarrow> bool" where
  "serverLimitsInvalid opts \<longleftrightarrow>
     so_MaxFrameSize opts < 1024 \<or> so_ReceiveBufferSize opts < so_MaxFrameSize opts \<or>
     so_MaxBufferedBytes opts < so_ReceiveBufferSize opts \<or> so_MaxPendingICE opts < 1 \<or>
     so_MaxPendingICEBytes opts < 1 \<or>
     so_MaxConnections opts < 1 \<or> so_MaxPendingHandshakes opts < 1 \<or>
     so_MaxPendingHandshakes opts > so_MaxConnections opts \<or> so_HandshakeTimeout opts \<le> 0 \<or>
     so_HeartbeatInterval opts \<le> 0 \<or> so_HeartbeatTimeout opts \<le> 0 \<or>
     float_le (so_HelloRateLimit opts) (Finite 0) \<or> so_HelloRateBurst opts < 1"

definition chooseTransports :: "server_options \<Rightarrow> server_options result" where
  "chooseTransports options =
     (if so_Transport options \<noteq> None then
        (if so_Transports options \<noteq> [] then Inl (Errorf ''server transport and transports cannot both be set'')
         else Inr (options\<lparr>so_Transports := [so_Transport options]\<rparr>))
      else if so_Transports options = [] then Inr (options\<lparr>so_Transports := [Some quic_transport]\<rparr>)
      else Inr options)"

definition defaultCipher :: "server_options \<Rightarrow> server_options" where
  "defaultCipher options = options\<lparr>
     so_EncryptionType := (if so_EncryptionType options = [] then CHACHA20_POLY1305 else so_EncryptionType options),
     so_EncryptionAAD := (if so_EncryptionAAD options = [] then bytes_of ''telekit/v1'' else so_EncryptionAAD options)\<rparr>"

text \<open>The part of NewServer up to the construction of the nonce cache: it copies, completes and checks the options.\<close>

definition NewServer_options :: "crypto_lib \<Rightarrow> api \<Rightarrow> server_options option \<Rightarrow> server_options result" where
  "NewServer_options L a options =
     (if api_RoomId a = [] then Inl (Errorf ''room ID is not set'')
      else if api_Signaling a = None then Inl (Errorf ''signaling server adapter is not set'')
      else (case options of
              None \<Rightarrow> Inl (Errorf ''server options are nil'')
            | Some options \<Rightarrow>
                if so_KeyProvider options = None then Inl (Errorf ''pre-shared key provider is required'')
                else if length (so_IdentityKey options) \<noteq> ed25519_PrivateKeySize then Inl (Errorf ''Ed25519 server identity key is required'')
                else if keyFromSeed L (take ed25519_SeedSize (so_IdentityKey options)) \<noteq> so_IdentityKey options
                then Inl (Errorf ''invalid Ed25519 server identity key'')
                else bind_result (chooseTransports options) (\<lambda>options.
                  bind_result (distinctTransports (so_Transports options) {}) (\<lambda>_.
                    let options = serverDefaults options
                    in if serverLimitsInvalid options then Inl (Errorf ''invalid server resource limits'')
                       else Inr (defaultCipher options)))))"

text \<open>What the rest of the server relies on.\<close>

definition server_options_ok :: "server_options \<Rightarrow> bool" where
  "server_options_ok opts \<longleftrightarrow>
     1024 \<le> so_MaxFrameSize opts \<and> so_MaxFrameSize opts \<le> so_ReceiveBufferSize opts \<and> so_ReceiveBufferSize opts \<le> so_MaxBufferedBytes opts \<and>
     1 \<le> so_MaxPendingICE opts \<and> 1 \<le> so_MaxPendingICEBytes opts \<and>
     1 \<le> so_MaxPendingHandshakes opts \<and> so_MaxPendingHandshakes opts \<le> so_MaxConnections opts \<and>
     0 < so_HandshakeTimeout opts \<and> 0 < so_HeartbeatInterval opts \<and> 0 < so_HeartbeatTimeout opts \<and>
     (so_HelloRateLimit opts \<in> {PosInf, NaN} \<or> (\<exists>r > 0. so_HelloRateLimit opts = Finite r)) \<and> 1 \<le> so_HelloRateBurst opts \<and>
     so_KeyProvider opts \<noteq> None \<and> length (so_IdentityKey opts) = 64 \<and> so_EncryptionType opts \<noteq> [] \<and> so_EncryptionAAD opts \<noteq> [] \<and>
     so_Transports opts \<noteq> [] \<and> None \<notin> set (so_Transports opts) \<and> [] \<notin> set (transportNames (so_Transports opts)) \<and>
     distinct (transportNames (so_Transports opts))"

lemma distinctTransports_Inr:
  "distinctTransports ts seen = Inr () \<Longrightarrow>
     None \<notin> set ts \<and> [] \<notin> set (transportNames ts) \<and> distinct (transportNames ts) \<and> set (transportNames ts) \<inter> seen = {}"
  by (induction ts seen rule: distinctTransports.induct) (auto simp: transportNames_def split: if_splits)

lemma chooseTransports_Inr:
  "chooseTransports options = Inr options' \<Longrightarrow>
     \<exists>ts. ts \<noteq> [] \<and> options' = options\<lparr>so_Transports := ts\<rparr> \<and> (so_Transports options \<noteq> [] \<longrightarrow> ts = so_Transports options)"
proof (cases "so_Transports options = []"; cases "so_Transport options")
  assume "chooseTransports options = Inr options'" "so_Transports options \<noteq> []" "so_Transport options = None"
  then show ?thesis by (intro exI [of _ "so_Transports options"]) (simp add: chooseTransports_def)
qed (auto simp: chooseTransports_def)

lemma NewServer_options_Inr:
  assumes "NewServer_options L a (Some options) = Inr options'"
  shows "\<exists>ts. ts \<noteq> [] \<and> distinctTransports ts {} = Inr () \<and> \<not> serverLimitsInvalid (serverDefaults (options\<lparr>so_Transports := ts\<rparr>)) \<and>
    options' = defaultCipher (serverDefaults (options\<lparr>so_Transports := ts\<rparr>)) \<and>
    so_KeyProvider options \<noteq> None \<and> length (so_IdentityKey options) = 64 \<and> (so_Transports options \<noteq> [] \<longrightarrow> ts = so_Transports options)"
proof -
  obtain o1 where o1: "chooseTransports options = Inr o1" "distinctTransports (so_Transports o1) {} = Inr ()"
    "\<not> serverLimitsInvalid (serverDefaults o1)" "options' = defaultCipher (serverDefaults o1)"
    "so_KeyProvider options \<noteq> None" "length (so_IdentityKey options) = 64"
    using assms by (auto simp: NewServer_options_def bind_result_Inr_iff Let_def ed25519_PrivateKeySize_def split: if_splits)
  with chooseTransports_Inr [OF o1(1)] show ?thesis by auto
qed

lemma positive_rate: "\<not> float_le x (Finite 0) \<longleftrightarrow> x \<in> {PosInf, NaN} \<or> (\<exists>r > 0. x = Finite r)"
  by (cases x) (auto simp: float_le_def not_le)

text \<open>What the checks of NewServer give, on the completed options.\<close>

lemma completed_options_ok:
  assumes "NewServer_options L a (Some options) = Inr options'"
  shows "server_options_ok options'"
proof -
  obtain ts where ts: "ts \<noteq> []" "distinctTransports ts {} = Inr ()" "\<not> serverLimitsInvalid (serverDefaults (options\<lparr>so_Transports := ts\<rparr>))"
    "options' = defaultCipher (serverDefaults (options\<lparr>so_Transports := ts\<rparr>))" "so_KeyProvider options \<noteq> None" "length (so_IdentityKey options) = 64"
    using NewServer_options_Inr [OF assms] by blast
  let ?o = "serverDefaults (options\<lparr>so_Transports := ts\<rparr>)"
  have c: "CHACHA20_POLY1305 \<noteq> []" "bytes_of ''telekit/v1'' \<noteq> []" by (simp_all add: CHACHA20_POLY1305_def bytes_of_def)
  have "\<not> float_le (so_HelloRateLimit ?o) (Finite 0)" using ts(3) by (simp add: serverLimitsInvalid_def)
  then have rate: "so_HelloRateLimit ?o \<in> {PosInf, NaN} \<or> (\<exists>r > 0. so_HelloRateLimit ?o = Finite r)" unfolding positive_rate .
  have f: "so_KeyProvider ?o = so_KeyProvider options" "so_IdentityKey ?o = so_IdentityKey options" "so_Transports ?o = ts"
    by (simp_all add: serverDefaults_def)
  show ?thesis
    using ts(1,3,5,6) distinctTransports_Inr [OF ts(2)] rate c unfolding ts(4)
    by (simp add: server_options_ok_def defaultCipher_def f serverLimitsInvalid_def not_less not_le)
qed

text \<open>
  C35. Every server that is created has consistent options: positive limits, a frame that fits into the receive buffer and a
  receive buffer that fits into the shared budget, at most as many handshakes as connections, an identity key, a cipher
  name, and a non-empty list of transports with distinct non-empty names. The rate of hellos is positive, unless the caller gave
  NaN, which passes both comparisons. What the caller gave is kept: key provider, identity key and single transport always, every number that is not
  zero, and the cipher, its data and the transports if they are not empty.
\<close>

theorem NewServer_options_ok:
  assumes "NewServer_options L a (Some options) = Inr options'"
  shows "server_options_ok options' \<and>
    so_KeyProvider options' = so_KeyProvider options \<and> so_IdentityKey options' = so_IdentityKey options \<and> so_Transport options' = so_Transport options \<and>
    (\<forall>field \<in> {so_LRUSize, so_ReplayProtection, so_ClockSkew, so_MaxFrameSize, so_ReceiveBufferSize, so_MaxBufferedBytes, so_MaxPendingICE,
        so_MaxPendingICEBytes, so_MaxConnections, so_MaxPendingHandshakes, so_HandshakeTimeout, so_HeartbeatInterval, so_HeartbeatTimeout,
        so_HelloRateBurst}. field options \<noteq> 0 \<longrightarrow> field options' = field options) \<and>
    (so_HelloRateLimit options \<noteq> Finite 0 \<longrightarrow> so_HelloRateLimit options' = so_HelloRateLimit options) \<and>
    (so_EncryptionType options \<noteq> [] \<longrightarrow> so_EncryptionType options' = so_EncryptionType options) \<and>
    (so_EncryptionAAD options \<noteq> [] \<longrightarrow> so_EncryptionAAD options' = so_EncryptionAAD options) \<and>
    (so_Transports options \<noteq> [] \<longrightarrow> so_Transports options' = so_Transports options) \<and>
    (so_HelloRateLimit options' = NaN \<longrightarrow> so_HelloRateLimit options = NaN)"
proof -
  obtain ts where "options' = defaultCipher (serverDefaults (options\<lparr>so_Transports := ts\<rparr>))" "so_Transports options \<noteq> [] \<longrightarrow> ts = so_Transports options"
    using NewServer_options_Inr [OF assms] by blast
  with completed_options_ok [OF assms] show ?thesis
    by (simp add: serverDefaults_def defaultCipher_def orDefault_def float_eq_def)
qed

definition sample_api :: api where
  "sample_api = \<lparr>api_RoomId = ''room'', api_Signaling = Some ''s'', api_ICEURLs = [], api_webSocketRelay = None\<rparr>"

definition sample_server_options :: server_options where
  "sample_server_options =
     \<lparr>so_KeyProvider = Some (\<lambda>_. Inr (replicate 32 8)), so_IdentityKey = replicate 32 1 @ replicate 32 0, so_Transport = None, so_Transports = [],
      so_LRUSize = 0, so_ReplayProtection = 0, so_ClockSkew = 0, so_EncryptionType = [], so_EncryptionAAD = [], so_MaxFrameSize = 2048,
      so_ReceiveBufferSize = 0, so_MaxBufferedBytes = 0, so_MaxPendingICE = 0, so_MaxPendingICEBytes = 0, so_MaxConnections = 0,
      so_MaxPendingHandshakes = 0, so_HandshakeTimeout = 0, so_HeartbeatInterval = 0, so_HeartbeatTimeout = 0, so_HelloRateLimit = Finite 0,
      so_HelloRateBurst = 0\<rparr>"

lemma sample_server_ok: "\<exists>opts. NewServer_options symbolic_lib sample_api (Some sample_server_options) = Inr opts"
  by (simp add: NewServer_options_def sample_api_def sample_server_options_def symbolic_lib_def chooseTransports_def quic_transport_def
      serverDefaults_def serverLimitsInvalid_def orDefault_def float_eq_def float_le_def default_defs ed25519_PrivateKeySize_def ed25519_SeedSize_def Let_def)

theorem NewServer_options_ok_witness:
  "\<exists>opts. NewServer_options symbolic_lib sample_api (Some sample_server_options) = Inr opts \<and> server_options_ok opts \<and> so_MaxFrameSize opts = 2048"
proof -
  obtain opts where o: "NewServer_options symbolic_lib sample_api (Some sample_server_options) = Inr opts" using sample_server_ok by blast
  from NewServer_options_ok [OF o] have "server_options_ok opts"
    "so_MaxFrameSize sample_server_options \<noteq> 0 \<longrightarrow> so_MaxFrameSize opts = so_MaxFrameSize sample_server_options" by simp_all
  with o show ?thesis by (auto simp: sample_server_options_def)
qed

section \<open>Client options (peer/client/types.go, new.go)\<close>

record client_options =
  co_Timeout :: int
  co_HeartbeatInterval :: int
  co_HeartbeatTimeout :: int
  co_Transport :: "i_transport option"
  co_MaxFrameSize :: int
  co_ReceiveBufferSize :: int
  co_MaxPendingICE :: int
  co_MaxPendingICEBytes :: int
  co_EncryptionAAD :: bytes
  co_EncryptionType :: string

definition zero_client_options :: client_options where
  "zero_client_options = \<lparr>co_Timeout = 0, co_HeartbeatInterval = 0, co_HeartbeatTimeout = 0, co_Transport = None, co_MaxFrameSize = 0,
     co_ReceiveBufferSize = 0, co_MaxPendingICE = 0, co_MaxPendingICEBytes = 0, co_EncryptionAAD = [], co_EncryptionType = []\<rparr>"

definition NewClient_options :: "pre_shared_key \<Rightarrow> api option \<Rightarrow> client_options option \<Rightarrow> client_options result" where
  "NewClient_options psk a options =
     bind_result (PreSharedKey_Validate psk) (\<lambda>_.
       if a = None then Inl (Errorf ''API is nil'')
       else (let opts = (case options of None \<Rightarrow> zero_client_options | Some opts \<Rightarrow> opts);
                 opts = (if co_EncryptionType opts = [] then opts\<lparr>co_EncryptionType := CHACHA20_POLY1305\<rparr> else opts);
                 opts = (if co_EncryptionAAD opts = [] then opts\<lparr>co_EncryptionAAD := bytes_of ''telekit/v1''\<rparr> else opts);
                 opts = opts\<lparr>co_Timeout := orDefault DEFAULT_TIMEOUT (co_Timeout opts),
                       co_HeartbeatInterval := orDefault DEFAULT_HEARTBEAT_INTERVAL (co_HeartbeatInterval opts),
                       co_HeartbeatTimeout := orDefault DEFAULT_HEARTBEAT_TIMEOUT (co_HeartbeatTimeout opts)\<rparr>;
                 t = (case co_Transport opts of None \<Rightarrow> quic_transport | Some t \<Rightarrow> t);
                 opts = opts\<lparr>co_Transport := Some t\<rparr>
             in if tr_Name t = [] then Inl (Errorf ''client transport name is empty'')
                else (let opts = opts\<lparr>co_MaxFrameSize := orDefault DEFAULT_MAX_FRAME_SIZE (co_MaxFrameSize opts),
                                co_ReceiveBufferSize := orDefault DefaultReceiveBufferSize (co_ReceiveBufferSize opts),
                                co_MaxPendingICE := orDefault DEFAULT_MAX_PENDING_ICE (co_MaxPendingICE opts),
                                co_MaxPendingICEBytes := orDefault DEFAULT_MAX_PENDING_ICE_BYTES (co_MaxPendingICEBytes opts)\<rparr>
                      in if co_HeartbeatInterval opts \<le> 0 \<or> co_HeartbeatTimeout opts \<le> 0 \<or>
                            co_MaxFrameSize opts < 1024 \<or> co_ReceiveBufferSize opts < co_MaxFrameSize opts \<or>
                            co_MaxPendingICE opts < 1 \<or> co_MaxPendingICEBytes opts < 1
                         then Inl (Errorf ''invalid client resource limits'')
                         else Inr opts)))"

text \<open>A client and a server that both use the defaults agree on the cipher, the additional data and a transport.\<close>

lemma defaults_agree:
  assumes "NewServer_options L a (Some so) = Inr so'" and "NewClient_options psk b None = Inr co'"
    and "so_EncryptionType so = []" "so_EncryptionAAD so = []" "so_Transport so = None" "so_Transports so = []"
  shows "so_EncryptionType so' = co_EncryptionType co' \<and> so_EncryptionAAD so' = co_EncryptionAAD co' \<and>
    (\<exists>t. co_Transport co' = Some t \<and> containsTransport (so_Transports so') (tr_Name t))"
proof -
  have "so_EncryptionType so' = CHACHA20_POLY1305 \<and> so_EncryptionAAD so' = bytes_of ''telekit/v1'' \<and> so_Transports so' = [Some quic_transport]"
    using assms(1,3-6)
    by (auto simp: NewServer_options_def bind_result_Inr_iff Let_def chooseTransports_def serverDefaults_def defaultCipher_def split: if_splits)
  moreover have "co_EncryptionType co' = CHACHA20_POLY1305 \<and> co_EncryptionAAD co' = bytes_of ''telekit/v1'' \<and> co_Transport co' = Some quic_transport"
    using assms(2) by (auto simp: NewClient_options_def bind_result_Inr_iff Let_def zero_client_options_def split: if_splits)
  ultimately show ?thesis by (simp add: containsTransport_def)
qed

end
