(* ===== verification/Replay_Window.thy ===== *)
theory Replay_Window
  imports Prelude
begin

text \<open>
  The replay window of peer/replay.go: a sliding bitmap of 64 sequence numbers. The theory has
  the window state and its two operations, the interface \<open>once_filter\<close> that the users of a
  window rely on (a sequence number passes at most once), and the proof that the bitmap
  implements exactly the abstract filter over the history of accepted numbers.
\<close>

section \<open>The window and its operations\<close>

record replay_window =
  highest :: u64
  seen :: u64

definition ReplayWindow_zero :: replay_window where
  "ReplayWindow_zero = \<lparr>highest = 0, seen = 0\<rparr>"

definition ReplayWindow_Accept :: "replay_window \<Rightarrow> u64 \<Rightarrow> bool \<times> replay_window" where
  "ReplayWindow_Accept w sequence =
     (if sequence = 0 then (False, w)
      else if highest w = 0 then (True, w\<lparr>highest := sequence, seen := 1\<rparr>)
      else if sequence > highest w then
        (let shift = sequence - highest w;
             shifted = (if shift \<ge> 64 then 0 else push_bit (unat shift) (seen w))
         in (True, w\<lparr>highest := sequence, seen := shifted OR 1\<rparr>))
      else
        (let delta = highest w - sequence
         in if delta \<ge> 64 then (False, w)
            else (let mask = push_bit (unat delta) (1 :: u64)
                  in if seen w AND mask \<noteq> 0 then (False, w)
                     else (True, w\<lparr>seen := seen w OR mask\<rparr>))))"

definition ReplayWindow_Reset :: "replay_window \<Rightarrow> replay_window" where
  "ReplayWindow_Reset w = w\<lparr>highest := 0, seen := 0\<rparr>"

text \<open>A run of deliveries: the numbers that pass, in order, and the final window.\<close>

fun ReplayWindow_run :: "replay_window \<Rightarrow> u64 list \<Rightarrow> u64 list \<times> replay_window" where
  "ReplayWindow_run w [] = ([], w)"
| "ReplayWindow_run w (s # ss) =
     (let (ok, w') = ReplayWindow_Accept w s; (acc, w'') = ReplayWindow_run w' ss
      in (if ok then s # acc else acc, w''))"

section \<open>The interface: each key passes at most once\<close>

text \<open>
  What a receiver relies on. \<open>inv w A\<close> says that the filter state \<open>w\<close> has let exactly the
  keys in \<open>A\<close> pass since it was initial.
\<close>

locale once_filter =
  fixes initial :: 'w
    and accept :: "'w \<Rightarrow> 'k \<Rightarrow> bool \<times> 'w"
    and inv :: "'w \<Rightarrow> 'k set \<Rightarrow> bool"
  assumes inv_initial: "inv initial {}"
    and accept_fresh: "inv w A \<Longrightarrow> accept w k = (True, w') \<Longrightarrow> k \<notin> A"
    and accept_inv: "inv w A \<Longrightarrow> accept w k = (True, w') \<Longrightarrow> inv w' (insert k A)"
    and reject_same: "accept w k = (False, w') \<Longrightarrow> w' = w"
begin

fun filter_run :: "'w \<Rightarrow> 'k list \<Rightarrow> 'k list \<times> 'w" where
  "filter_run w [] = ([], w)"
| "filter_run w (k # ks) =
     (let (ok, w') = accept w k; (acc, w'') = filter_run w' ks
      in (if ok then k # acc else acc, w''))"

lemma filter_run_inv:
  "inv w A \<Longrightarrow> filter_run w ks = (acc, w') \<Longrightarrow> inv w' (A \<union> set acc) \<and> set acc \<inter> A = {} \<and> distinct acc"
proof (induction ks arbitrary: w A acc w')
  case Nil
  then show ?case by simp
next
  case (Cons k ks)
  obtain ok v where a: "accept w k = (ok, v)"
    by (cases "accept w k")
  obtain acc' w'' where r: "filter_run v ks = (acc', w'')"
    by (cases "filter_run v ks")
  have res: "acc = (if ok then k # acc' else acc')" "w' = w''"
    using Cons.prems(2) a r by (simp_all split: if_splits)
  show ?case
  proof (cases ok)
    case True
    with a have "accept w k = (True, v)" by simp
    with Cons.prems(1) have "k \<notin> A" "inv v (insert k A)"
      by (rule accept_fresh, rule accept_inv)
    with Cons.IH [OF _ r] have "inv w'' (insert k A \<union> set acc')" "set acc' \<inter> insert k A = {}" "distinct acc'"
      by blast+
    with \<open>k \<notin> A\<close> True res show ?thesis by auto
  next
    case False
    with a have "accept w k = (False, v)" by simp
    then have "v = w" by (rule reject_same)
    with False res Cons.IH [OF Cons.prems(1)] r show ?thesis by simp
  qed
qed

lemma filter_run_distinct: "distinct (fst (filter_run initial ks))"
  using filter_run_inv [OF inv_initial] by (metis prod.collapse)

end

section \<open>The bitmap against the history\<close>

text \<open>
  \<open>window_inv w A\<close>: \<open>highest\<close> is the largest accepted number and bit \<open>d\<close> of the bitmap says
  whether the number \<open>d\<close> below \<open>highest\<close> was accepted.
\<close>

definition window_inv :: "replay_window \<Rightarrow> u64 set \<Rightarrow> bool" where
  "window_inv w A \<longleftrightarrow>
     0 \<notin> A \<and>
     (if A = {} then highest w = 0 \<and> seen w = 0
      else highest w \<in> A \<and> (\<forall>a\<in>A. a \<le> highest w) \<and>
        (\<forall>d<64. bit (seen w) d \<longleftrightarrow> (\<exists>a\<in>A. unat a + d = unat (highest w))))"

lemma unat_diff: "a \<le> b \<Longrightarrow> unat (b - a) = unat b - unat (a :: u64)"
  by (simp add: unat_sub_if' word_le_nat_alt)

lemma and_mask_iff: "(a :: u64) AND push_bit n 1 \<noteq> 0 \<longleftrightarrow> bit a n"
  by (simp add: and_exp_eq_0_iff_not_bit push_bit_of_1)

lemma window_inv_empty: "window_inv w A \<Longrightarrow> highest w = 0 \<longleftrightarrow> A = {}"
  by (auto simp: window_inv_def split: if_splits)

lemma window_invD:
  assumes "window_inv w A" and "A \<noteq> {}"
  shows "0 \<notin> A" and "highest w \<in> A" and "\<And>a. a \<in> A \<Longrightarrow> unat a \<le> unat (highest w)"
    and "\<And>d. d < 64 \<Longrightarrow> bit (seen w) d \<longleftrightarrow> (\<exists>a\<in>A. unat a + d = unat (highest w))"
  using assms by (auto simp: window_inv_def word_le_nat_alt)

lemma window_invI:
  assumes "0 \<notin> A" and "highest w \<in> A" and "\<And>a. a \<in> A \<Longrightarrow> unat a \<le> unat (highest w)"
    and "\<And>d. d < 64 \<Longrightarrow> bit (seen w) d \<longleftrightarrow> (\<exists>a\<in>A. unat a + d = unat (highest w))"
  shows "window_inv w A"
  using assms by (auto simp: window_inv_def word_le_nat_alt)

text \<open>The three ways to accept: the first number, a new highest number, a number inside the window.\<close>

lemma accept_first_inv:
  assumes "sequence \<noteq> 0"
  shows "window_inv (w\<lparr>highest := sequence, seen := 1\<rparr>) {sequence}"
  using assms by (intro window_invI) (auto simp: bit_1_iff)

lemma accept_higher_inv:
  assumes inv: "window_inv w A" and ne: "A \<noteq> {}" and gt: "sequence > highest w"
  shows "window_inv (w\<lparr>highest := sequence,
      seen := (if sequence - highest w \<ge> 64 then 0
               else push_bit (unat (sequence - highest w)) (seen w)) OR 1\<rparr>) (insert sequence A)"
    (is "window_inv ?w' _")
proof (rule window_invI)
  note D = window_invD [OF inv ne]
  have gt': "unat (highest w) < unat sequence"
    using gt by (simp add: word_less_nat_alt)
  have shift: "unat (sequence - highest w) = unat sequence - unat (highest w)"
    using gt by (intro unat_diff) simp
  show "0 \<notin> insert sequence A"
    using D(1) gt by auto
  show "highest ?w' \<in> insert sequence A"
    by simp
  show "\<And>a. a \<in> insert sequence A \<Longrightarrow> unat a \<le> unat (highest ?w')"
    using D(3) gt' by fastforce
  fix d :: nat
  assume d: "d < 64"
  have big: "sequence - highest w \<ge> 64 \<longleftrightarrow> 64 \<le> unat sequence - unat (highest w)"
    by (simp add: word_le_nat_alt shift)
  have "bit (seen ?w') d \<longleftrightarrow>
      d = 0 \<or> unat sequence - unat (highest w) \<le> d \<and>
        bit (seen w) (d - (unat sequence - unat (highest w)))"
    using d by (auto simp: bit_or_iff bit_1_iff bit_push_bit_iff big shift)
  also have "\<dots> \<longleftrightarrow> (\<exists>a\<in>insert sequence A. unat a + d = unat sequence)"
  proof (cases "unat sequence - unat (highest w) \<le> d")
    case True
    with d have "bit (seen w) (d - (unat sequence - unat (highest w))) \<longleftrightarrow>
        (\<exists>a\<in>A. unat a + (d - (unat sequence - unat (highest w))) = unat (highest w))"
      by (intro D(4)) simp
    also have "\<dots> \<longleftrightarrow> (\<exists>a\<in>A. unat a + d = unat sequence)"
      using True gt' by (intro bex_cong) auto
    finally show ?thesis using True gt' by auto
  next
    case False
    then show ?thesis using D(3) gt' by fastforce
  qed
  finally show "bit (seen ?w') d \<longleftrightarrow> (\<exists>a\<in>insert sequence A. unat a + d = unat (highest ?w'))"
    by simp
qed

lemma accept_inside_inv:
  assumes inv: "window_inv w A" and ne: "A \<noteq> {}" and le: "sequence \<le> highest w" and nz: "sequence \<noteq> 0"
    and delta: "highest w - sequence < 64"
  shows "window_inv (w\<lparr>seen := seen w OR push_bit (unat (highest w - sequence)) 1\<rparr>) (insert sequence A)"
    (is "window_inv ?w' _")
proof (rule window_invI)
  note D = window_invD [OF inv ne]
  have d': "unat (highest w - sequence) = unat (highest w) - unat sequence"
    using le by (rule unat_diff)
  have le': "unat sequence \<le> unat (highest w)"
    using le by (simp add: word_le_nat_alt)
  show "0 \<notin> insert sequence A"
    using D(1) nz by simp
  show "highest ?w' \<in> insert sequence A"
    using D(2) by simp
  show "\<And>a. a \<in> insert sequence A \<Longrightarrow> unat a \<le> unat (highest ?w')"
    using D(3) le' by auto
  fix d :: nat
  assume d: "d < 64"
  have "bit (seen ?w') d \<longleftrightarrow> bit (seen w) d \<or> d = unat (highest w) - unat sequence"
    using d by (auto simp: bit_or_iff bit_exp_iff d')
  with D(4) [OF d] le' show "bit (seen ?w') d \<longleftrightarrow> (\<exists>a\<in>insert sequence A. unat a + d = unat (highest ?w'))"
    by auto
qed

lemma seen_inside_iff:
  assumes inv: "window_inv w A" and ne: "A \<noteq> {}" and le: "sequence \<le> highest w"
    and delta: "highest w - sequence < 64"
  shows "seen w AND push_bit (unat (highest w - sequence)) 1 \<noteq> 0 \<longleftrightarrow> sequence \<in> A"
proof -
  have d': "unat (highest w - sequence) = unat (highest w) - unat sequence"
    using le by (rule unat_diff)
  have "unat (highest w - sequence) < 64"
    using delta by (simp add: word_less_nat_alt)
  then have "bit (seen w) (unat (highest w - sequence)) \<longleftrightarrow>
      (\<exists>a\<in>A. unat a + unat (highest w - sequence) = unat (highest w))"
    by (rule window_invD(4) [OF inv ne])
  also have "\<dots> \<longleftrightarrow> (\<exists>a\<in>A. unat a = unat sequence)"
    using le by (intro bex_cong) (auto simp: d' word_le_nat_alt)
  also have "\<dots> \<longleftrightarrow> sequence \<in> A"
    by (auto simp: word_unat_eq_iff [symmetric])
  finally show ?thesis by (simp only: and_mask_iff)
qed

text \<open>
  The abstract filter over the history \<open>A\<close> of accepted numbers: a number passes when it is not
  zero, has not passed before, and is less than 64 behind every number that has.
\<close>

definition passes :: "u64 set \<Rightarrow> u64 \<Rightarrow> bool" where
  "passes A sequence \<longleftrightarrow> sequence \<noteq> 0 \<and> sequence \<notin> A \<and> (\<forall>a\<in>A. unat a < unat sequence + 64)"

lemma Accept_refines:
  assumes inv: "window_inv w A"
  shows "fst (ReplayWindow_Accept w sequence) = passes A sequence"
    and "window_inv (snd (ReplayWindow_Accept w sequence))
           (if passes A sequence then insert sequence A else A)"
proof -
  consider (zero) "sequence = 0"
    | (first) "sequence \<noteq> 0" "A = {}"
    | (higher) "sequence \<noteq> 0" "A \<noteq> {}" "sequence > highest w"
    | (old) "sequence \<noteq> 0" "A \<noteq> {}" "sequence \<le> highest w" "highest w - sequence \<ge> 64"
    | (inside) "sequence \<noteq> 0" "A \<noteq> {}" "sequence \<le> highest w" "highest w - sequence < 64"
    by fastforce
  then have "fst (ReplayWindow_Accept w sequence) = passes A sequence \<and>
    window_inv (snd (ReplayWindow_Accept w sequence)) (if passes A sequence then insert sequence A else A)"
  proof cases
    case zero
    with inv show ?thesis
      by (simp add: ReplayWindow_Accept_def passes_def)
  next
    case first
    then have "highest w = 0"
      using inv window_inv_empty by blast
    with first show ?thesis
      by (simp add: ReplayWindow_Accept_def passes_def accept_first_inv)
  next
    case higher
    have "highest w \<noteq> 0"
      using higher inv window_inv_empty by blast
    moreover have "passes A sequence"
      using higher window_invD(3) [OF inv higher(2)]
      by (fastforce simp: passes_def word_less_nat_alt)
    ultimately show ?thesis
      using higher accept_higher_inv [OF inv higher(2,3)]
      by (simp add: ReplayWindow_Accept_def Let_def)
  next
    case old
    have "highest w \<noteq> 0"
      using old inv window_inv_empty by blast
    moreover have "unat (highest w) \<ge> unat sequence + 64"
      using old unat_diff [OF old(3)] by (simp add: word_le_nat_alt)
    then have "\<not> passes A sequence"
      using window_invD(2) [OF inv old(2)] by (auto simp: passes_def not_less)
    ultimately show ?thesis
      using old inv by (simp add: ReplayWindow_Accept_def Let_def)
  next
    case inside
    have h: "highest w \<noteq> 0"
      using inside inv window_inv_empty by blast
    have "unat (highest w) < unat sequence + 64"
      using inside unat_diff [OF inside(3)] by (simp add: word_less_nat_alt)
    then have "passes A sequence \<longleftrightarrow> sequence \<notin> A"
      using window_invD(3) [OF inv inside(2)] inside(1) by (fastforce simp: passes_def)
    with h show ?thesis
      using inside seen_inside_iff [OF inv inside(2,3,4)]
        accept_inside_inv [OF inv inside(2,3,1,4)] inv
      by (auto simp: ReplayWindow_Accept_def Let_def not_le)
  qed
  then show "fst (ReplayWindow_Accept w sequence) = passes A sequence"
    and "window_inv (snd (ReplayWindow_Accept w sequence))
           (if passes A sequence then insert sequence A else A)"
    by blast+
qed

lemma Accept_reject_same: "ReplayWindow_Accept w s = (False, w') \<Longrightarrow> w' = w"
  by (auto simp: ReplayWindow_Accept_def Let_def split: if_splits)

lemma window_inv_zero: "window_inv ReplayWindow_zero {}"
  by (simp add: window_inv_def ReplayWindow_zero_def)

interpretation rw: once_filter ReplayWindow_zero ReplayWindow_Accept window_inv
proof
  show "window_inv ReplayWindow_zero {}"
    by (rule window_inv_zero)
next
  fix w A k w'
  assume inv: "window_inv w A" and acc: "ReplayWindow_Accept w k = (True, w')"
  then show "k \<notin> A" and "window_inv w' (insert k A)"
    using Accept_refines [OF inv, of k] by (auto simp: passes_def)
next
  fix w k w'
  assume "ReplayWindow_Accept w k = (False, w')"
  then show "w' = w" by (rule Accept_reject_same)
qed

lemma run_eq_filter_run: "ReplayWindow_run w ss = rw.filter_run w ss"
  by (induction ss arbitrary: w) (auto simp: Let_def split: prod.splits)

lemma run_inv: "window_inv (snd (ReplayWindow_run ReplayWindow_zero ss)) (set (fst (ReplayWindow_run ReplayWindow_zero ss)))"
  using rw.filter_run_inv [OF window_inv_zero, of ss]
  by (simp add: run_eq_filter_run)

section \<open>Properties\<close>

text \<open>
  C23. In any run of deliveries from a fresh window, no sequence number passes twice and zero
  never passes.
\<close>

theorem ReplayWindow_at_most_once:
  "distinct (fst (ReplayWindow_run ReplayWindow_zero ss)) \<and> 0 \<notin> set (fst (ReplayWindow_run ReplayWindow_zero ss))"
  using rw.filter_run_distinct [of ss] run_inv [of ss]
  by (simp add: run_eq_filter_run window_inv_def)

text \<open>
  C22. The 64-bit bitmap decides exactly like a filter with unbounded memory: after any run
  of deliveries, a number passes if and only if it is not zero, has not passed before, and is
  less than 64 behind every number that has passed.
\<close>

theorem ReplayWindow_exact:
  "fst (ReplayWindow_Accept (snd (ReplayWindow_run ReplayWindow_zero ss)) sequence) \<longleftrightarrow>
     sequence \<noteq> 0 \<and> sequence \<notin> set (fst (ReplayWindow_run ReplayWindow_zero ss)) \<and>
     list_all (\<lambda>a. unat a < unat sequence + 64) (fst (ReplayWindow_run ReplayWindow_zero ss))"
  using Accept_refines(1) [OF run_inv, of ss sequence]
  by (simp add: passes_def list_all_iff)

end
