(* ===== verification/Data_Channel.thy ===== *)
theory Data_Channel
  imports Codec Replay_Window
begin

text \<open>
  The protected channels of a session: peer/data_channel.go and peer/signaling_channel.go. Each
  direction has its own key; data frames carry a sequence number that is part of the additional
  data and passes the receiver's replay window at most once.
\<close>

section \<open>Roles, directions and keys\<close>

definition DataFrameApplication :: byte where "DataFrameApplication = 1"
definition DataFrameHeartbeat :: byte where "DataFrameHeartbeat = 2"
definition DataRoleClient :: byte where "DataRoleClient = 1"
definition DataRoleServer :: byte where "DataRoleServer = 2"
definition dataClientToServer :: byte where "dataClientToServer = 1"
definition dataServerToClient :: byte where "dataServerToClient = 2"
definition signalingClientToServer :: byte where "signalingClientToServer = 1"
definition signalingServerToClient :: byte where "signalingServerToClient = 2"

lemmas channel_consts =
  DataFrameApplication_def DataFrameHeartbeat_def DataRoleClient_def DataRoleServer_def
  dataClientToServer_def dataServerToClient_def signalingClientToServer_def signalingServerToClient_def

definition dataKeyInfo :: "byte \<Rightarrow> bytes" where
  "dataKeyInfo direction = encodeHandshakeFields [bytes_of ''telekit/data/v1'', [direction]]"

definition deriveDataKey :: "aead_lib \<Rightarrow> bytes \<Rightarrow> byte \<Rightarrow> bytes result" where
  "deriveDataKey L sessionKey direction =
     (if sessionKey = [] then Inl (Errorf ''session key is empty'')
      else if direction \<noteq> dataClientToServer \<and> direction \<noteq> dataServerToClient then Inl (Errorf ''invalid data direction'')
      else (case hkdf256 L sessionKey [] (dataKeyInfo direction) 32 of
              Inl _ \<Rightarrow> Inl (Errorf ''derive data key'') | Inr key \<Rightarrow> Inr key))"

definition dataFrameContext :: "byte \<Rightarrow> u64 \<Rightarrow> bytes" where
  "dataFrameContext direction sequence = direction # be_put 8 (unat sequence)"

definition signalingKeyInfo :: "byte \<Rightarrow> bytes" where
  "signalingKeyInfo direction = encodeHandshakeFields [bytes_of ''telekit/signaling/v1'', [direction]]"

definition deriveSignalingKey :: "aead_lib \<Rightarrow> bytes \<Rightarrow> byte \<Rightarrow> bytes result" where
  "deriveSignalingKey L sessionKey direction =
     (if sessionKey = [] then Inl (Errorf ''session key is empty'')
      else if direction \<noteq> signalingClientToServer \<and> direction \<noteq> signalingServerToClient
      then Inl (Errorf ''invalid signaling direction'')
      else (case hkdf256 L sessionKey [] (signalingKeyInfo direction) HandshakeKeySize of
              Inl _ \<Rightarrow> Inl (Errorf ''derive signaling key'') | Inr key \<Rightarrow> Inr key))"

section \<open>The data channel\<close>

record data_channel =
  dc_sendCodec :: "codec option"
  dc_receiveCodec :: "codec option"
  dc_sendDirection :: byte
  dc_receiveDirection :: byte
  dc_sendSequence :: u64
  dc_receiveWindow :: replay_window

definition NewDataChannel ::
  "aead_lib \<Rightarrow> random \<Rightarrow> random \<Rightarrow> string \<Rightarrow> bytes \<Rightarrow> bytes \<Rightarrow> byte \<Rightarrow> data_channel result" where
  "NewDataChannel L rnd rnd' encryptionType sessionKey additionalData role =
     bind_result
       (if role = DataRoleClient then Inr (dataClientToServer, dataServerToClient)
        else if role = DataRoleServer then Inr (dataServerToClient, dataClientToServer)
        else Inl (Errorf ''invalid data channel role'')) (\<lambda>(sendDirection, receiveDirection).
     bind_result (deriveDataKey L sessionKey sendDirection) (\<lambda>sendKey.
     bind_result (deriveDataKey L sessionKey receiveDirection) (\<lambda>receiveKey.
     bind_result (NewCodec L rnd encryptionType sendKey additionalData) (\<lambda>sendCodec.
     bind_result (NewCodec L rnd' encryptionType receiveKey additionalData) (\<lambda>receiveCodec.
       Inr \<lparr>dc_sendCodec = Some sendCodec, dc_receiveCodec = Some receiveCodec, dc_sendDirection = sendDirection,
            dc_receiveDirection = receiveDirection, dc_sendSequence = 0, dc_receiveWindow = ReplayWindow_zero\<rparr>)))))"

text \<open>
  sealFrame takes the next sequence number, which it uses up even if the encryption fails; the
  compare-and-swap loop gives each caller its own number. A nil channel is one without codec.
\<close>

definition sealFrame :: "data_channel \<Rightarrow> byte \<Rightarrow> bytes \<Rightarrow> (u64 \<times> bytes) result \<times> data_channel" where
  "sealFrame c frameType plaintext =
     (case dc_sendCodec c of
        None \<Rightarrow> (Inl (Errorf ''data channel is not initialized''), c)
      | Some codec \<Rightarrow>
          if frameType \<noteq> DataFrameApplication \<and> frameType \<noteq> DataFrameHeartbeat then (Inl ErrUnexpectedDataFrameType, c)
          else if dc_sendSequence c = - 1 then (Inl (Errorf ''data frame sequence exhausted''), c)
          else (let sequence = dc_sendSequence c + 1;
                    c1 = c\<lparr>dc_sendSequence := sequence\<rparr>
                in (case encodeWithEncryption codec (frameType # plaintext) aadDomainData
                           (dataFrameContext (dc_sendDirection c) sequence) of
                      (Inl err, codec') \<Rightarrow> (Inl err, c1\<lparr>dc_sendCodec := Some codec'\<rparr>)
                    | (Inr ciphertext, codec') \<Rightarrow> (Inr (sequence, ciphertext), c1\<lparr>dc_sendCodec := Some codec'\<rparr>))))"

definition DataChannel_Seal :: "data_channel \<Rightarrow> bytes \<Rightarrow> (u64 \<times> bytes) result \<times> data_channel" where
  "DataChannel_Seal c plaintext = sealFrame c DataFrameApplication plaintext"

definition DataChannel_SealHeartbeat :: "data_channel \<Rightarrow> (u64 \<times> bytes) result \<times> data_channel" where
  "DataChannel_SealHeartbeat c = sealFrame c DataFrameHeartbeat []"

definition DataChannel_OpenFrame :: "data_channel \<Rightarrow> u64 \<Rightarrow> bytes \<Rightarrow> int \<Rightarrow> (byte \<times> bytes) result \<times> data_channel" where
  "DataChannel_OpenFrame c sequence ciphertext maxDecodedSize =
     (case dc_receiveCodec c of
        None \<Rightarrow> (Inl (Errorf ''data channel is not initialized''), c)
      | Some codec \<Rightarrow>
          if sequence = 0 then (Inl (Errorf ''data frame sequence is zero''), c)
          else (case decodeWithDecryption codec ciphertext aadDomainData
                       (dataFrameContext (dc_receiveDirection c) sequence) maxDecodedSize of
                  Inl err \<Rightarrow> (Inl err, c)
                | Inr [] \<Rightarrow> (Inl ErrUnexpectedDataFrameType, c)
                | Inr (frameType # body) \<Rightarrow>
                    if frameType \<noteq> DataFrameApplication \<and> frameType \<noteq> DataFrameHeartbeat
                    then (Inl ErrUnexpectedDataFrameType, c)
                    else if frameType = DataFrameHeartbeat \<and> body \<noteq> [] then (Inl ErrUnexpectedDataFrameType, c)
                    else (case ReplayWindow_Accept (dc_receiveWindow c) sequence of
                            (False, w) \<Rightarrow> (Inl ErrDataFrameReplay, c\<lparr>dc_receiveWindow := w\<rparr>)
                          | (True, w) \<Rightarrow> (Inr (frameType, body), c\<lparr>dc_receiveWindow := w\<rparr>))))"

definition DataChannel_Open :: "data_channel \<Rightarrow> u64 \<Rightarrow> bytes \<Rightarrow> int \<Rightarrow> bytes result \<times> data_channel" where
  "DataChannel_Open c sequence ciphertext maxDecodedSize =
     (case DataChannel_OpenFrame c sequence ciphertext maxDecodedSize of
        (Inl err, c') \<Rightarrow> (Inl err, c')
      | (Inr (frameType, plaintext), c') \<Rightarrow>
          if frameType \<noteq> DataFrameApplication then (Inl ErrUnexpectedDataFrameType, c') else (Inr plaintext, c'))"

section \<open>The signaling channel\<close>

record signaling_channel =
  sc_sendCodec :: "codec option"
  sc_receiveCodec :: "codec option"
  sc_sessionKey :: bytes

definition NewSignalingChannel ::
  "aead_lib \<Rightarrow> random \<Rightarrow> random \<Rightarrow> string \<Rightarrow> bytes \<Rightarrow> bytes \<Rightarrow> byte \<Rightarrow> signaling_channel result" where
  "NewSignalingChannel L rnd rnd' encryptionType sessionKey additionalData role =
     bind_result
       (if role = DataRoleClient then Inr (signalingClientToServer, signalingServerToClient)
        else if role = DataRoleServer then Inr (signalingServerToClient, signalingClientToServer)
        else Inl (Errorf ''invalid signaling channel role'')) (\<lambda>(sendDirection, receiveDirection).
     bind_result (deriveSignalingKey L sessionKey sendDirection) (\<lambda>sendKey.
     bind_result (deriveSignalingKey L sessionKey receiveDirection) (\<lambda>receiveKey.
     bind_result (NewCodec L rnd encryptionType sendKey additionalData) (\<lambda>sendCodec.
     bind_result (NewCodec L rnd' encryptionType receiveKey additionalData) (\<lambda>receiveCodec.
       Inr \<lparr>sc_sendCodec = Some sendCodec, sc_receiveCodec = Some receiveCodec, sc_sessionKey = sessionKey\<rparr>)))))"

definition SignalingChannel_EncodeMessage :: "gob \<Rightarrow> signaling_channel \<Rightarrow> message option \<Rightarrow> bytes result \<times> signaling_channel" where
  "SignalingChannel_EncodeMessage G c m =
     (case sc_sendCodec c of
        None \<Rightarrow> (Inl (Errorf ''signaling channel is not initialized''), c)
      | Some codec \<Rightarrow> (case Codec_EncodeMessage G codec m of (r, codec') \<Rightarrow> (r, c\<lparr>sc_sendCodec := Some codec'\<rparr>)))"

definition SignalingChannel_DecodeMessage :: "gob \<Rightarrow> signaling_channel \<Rightarrow> bytes \<Rightarrow> message result" where
  "SignalingChannel_DecodeMessage G c data =
     (case sc_receiveCodec c of
        None \<Rightarrow> Inl (Errorf ''signaling channel is not initialized'')
      | Some codec \<Rightarrow> Codec_DecodeMessage G codec data)"

definition SignalingChannel_SessionKey :: "signaling_channel \<Rightarrow> bytes" where
  "SignalingChannel_SessionKey c = sc_sessionKey c"

section \<open>Purposes and directions are separated\<close>

text \<open>
  C26. No two purposes share a derivation context. For all rooms, identities, nonces and keys, the
  HKDF contexts of the client hello key, the server hello key, the session key and the data and signaling
  keys of both directions, and the signed transcript, are pairwise different.
\<close>

theorem purposes_separated:
  "distinct [clientHelloInfo r c s n, serverHelloInfo r' c' s' n' m', sessionKeyInfo h, serverHelloTranscript h',
     dataKeyInfo dataClientToServer, dataKeyInfo dataServerToClient,
     signalingKeyInfo signalingClientToServer, signalingKeyInfo signalingServerToClient]"
  by (simp add: clientHelloInfo_def serverHelloInfo_def sessionKeyInfo_def serverHelloTranscript_def dataKeyInfo_def
      signalingKeyInfo_def channel_consts bytes_of_def be_put_4)

section \<open>Sealing and opening\<close>

text \<open>What the application hands to a channel: data, or a heartbeat.\<close>

datatype app_frame = App bytes | Beat

fun seal_step :: "data_channel \<Rightarrow> app_frame \<Rightarrow> (u64 \<times> bytes) result \<times> data_channel" where
  "seal_step c (App plaintext) = DataChannel_Seal c plaintext"
| "seal_step c Beat = DataChannel_SealHeartbeat c"

fun frame_content :: "app_frame \<Rightarrow> byte \<times> bytes" where
  "frame_content (App plaintext) = (DataFrameApplication, plaintext)"
| "frame_content Beat = (DataFrameHeartbeat, [])"

fun seal_run :: "data_channel \<Rightarrow> app_frame list \<Rightarrow> (u64 \<times> bytes) list option" where
  "seal_run c [] = Some []"
| "seal_run c (f # fs) =
     (case seal_step c f of (Inl _, _) \<Rightarrow> None | (Inr x, c') \<Rightarrow> map_option ((#) x) (seal_run c' fs))"

fun open_run :: "data_channel \<Rightarrow> int \<Rightarrow> (u64 \<times> bytes) list \<Rightarrow> (byte \<times> bytes) result list" where
  "open_run r limit [] = []"
| "open_run r limit ((sequence, ciphertext) # ds) =
     (case DataChannel_OpenFrame r sequence ciphertext limit of (out, r') \<Rightarrow> out # open_run r' limit ds)"

text \<open>
  The receiver's specification: the frames are numbered from zero in sending order, \<open>A\<close> has the numbers delivered so
  far. A frame is delivered if it is new and less than 64 behind every delivered one.
\<close>

fun receive :: "app_frame list \<Rightarrow> nat set \<Rightarrow> nat list \<Rightarrow> (byte \<times> bytes) result list" where
  "receive fs A [] = []"
| "receive fs A (i # arrivals) =
     (if i \<notin> A \<and> (\<forall>a \<in> A. a < i + 64) then Inr (frame_content (fs ! i)) # receive fs (insert i A) arrivals
      else Inl ErrDataFrameReplay # receive fs A arrivals)"

definition frame_fits :: "int \<Rightarrow> app_frame \<Rightarrow> bool" where
  "frame_fits limit f \<longleftrightarrow> limit \<le> 0 \<or> 1 + int (length (snd (frame_content f))) \<le> limit"

lemma seal_step_Inr:
  assumes s: "seal_step c f = (Inr (sequence, ciphertext), c')" and c: "dc_sendCodec c = Some e" and m: "codec_match e r"
  obtains e' where "dc_sendCodec c' = Some e'" "codec_match e' r" "dc_sendDirection c' = dc_sendDirection c"
    "dc_sendSequence c' = sequence" "unat sequence = Suc (unat (dc_sendSequence c))"
    "frame_fits limit f \<Longrightarrow>
       decodeWithDecryption r ciphertext aadDomainData (dataFrameContext (dc_sendDirection c) sequence) limit =
       Inr (fst (frame_content f) # snd (frame_content f))"
    "length (snd (frame_content f)) < length ciphertext"
proof -
  let ?t = "fst (frame_content f)" and ?p = "snd (frame_content f)"
  have f: "seal_step c f = sealFrame c ?t ?p" and t: "?t = DataFrameApplication \<or> ?t = DataFrameHeartbeat"
    by (cases f; simp add: DataChannel_Seal_def DataChannel_SealHeartbeat_def)+
  have n: "dc_sendSequence c \<noteq> -1" and q: "sequence = dc_sendSequence c + 1"
    and enc: "\<exists>e'. encodeWithEncryption e (?t # ?p) aadDomainData (dataFrameContext (dc_sendDirection c) sequence) = (Inr ciphertext, e')
      \<and> c' = c\<lparr>dc_sendSequence := sequence, dc_sendCodec := Some e'\<rparr>"
    using s t c unfolding f by (auto simp: sealFrame_def Let_def split: if_splits prod.splits sum.splits)
  then obtain e' where e: "encodeWithEncryption e (?t # ?p) aadDomainData (dataFrameContext (dc_sendDirection c) sequence) = (Inr ciphertext, e')"
    and c': "c' = c\<lparr>dc_sendSequence := sequence, dc_sendCodec := Some e'\<rparr>" by blast
  show thesis
    by (rule that [of e'])
      (use c' q unat_succ [OF n] decode_encode(2,3) [OF m e, of 0] decode_encode(1) [OF m e, of limit] in \<open>simp_all add: frame_fits_def\<close>)
qed

lemma seal_run_opens:
  "seal_run c fs = Some sealed \<Longrightarrow> dc_sendCodec c = Some e \<Longrightarrow> codec_match e r \<Longrightarrow>
     length sealed = length fs \<and>
     (\<forall>i < length fs. unat (fst (sealed ! i)) = unat (dc_sendSequence c) + i + 1 \<and>
        (frame_fits limit (fs ! i) \<longrightarrow>
         decodeWithDecryption r (snd (sealed ! i)) aadDomainData (dataFrameContext (dc_sendDirection c) (fst (sealed ! i))) limit =
         Inr (fst (frame_content (fs ! i)) # snd (frame_content (fs ! i)))))"
proof (induction fs arbitrary: c e sealed)
  case Nil
  then show ?case by simp
next
  case (Cons f fs)
  then obtain sequence ciphertext c' rest where s: "seal_step c f = (Inr (sequence, ciphertext), c')"
    "seal_run c' fs = Some rest" "sealed = (sequence, ciphertext) # rest"
    by (auto split: sum.splits prod.splits)
  obtain e' where e': "dc_sendCodec c' = Some e'" "codec_match e' r" "dc_sendDirection c' = dc_sendDirection c"
    "dc_sendSequence c' = sequence" "unat sequence = Suc (unat (dc_sendSequence c))"
    "frame_fits limit f \<Longrightarrow>
       decodeWithDecryption r ciphertext aadDomainData (dataFrameContext (dc_sendDirection c) sequence) limit =
       Inr (fst (frame_content f) # snd (frame_content f))"
    using seal_step_Inr [OF s(1) Cons.prems(2,3)] by metis
  from Cons.IH [OF s(2) e'(1,2)] e'(3-6) s(3) show ?case
    by (auto simp: nth_Cons split: nat.splits)
qed

text \<open>Opening a frame that decrypts to its content depends on the replay window only.\<close>

lemma OpenFrame_window:
  assumes "dc_receiveCodec r = Some e" and "window_inv (dc_receiveWindow r) A" and "sequence \<noteq> 0"
    and "decodeWithDecryption e ciphertext aadDomainData (dataFrameContext (dc_receiveDirection r) sequence) limit =
      Inr (fst (frame_content f) # snd (frame_content f))"
  shows "\<exists>w. DataChannel_OpenFrame r sequence ciphertext limit =
      (if passes A sequence then Inr (frame_content f) else Inl ErrDataFrameReplay, r\<lparr>dc_receiveWindow := w\<rparr>) \<and>
    window_inv w (if passes A sequence then insert sequence A else A)"
  using assms Accept_refines [OF assms(2), of sequence]
  by (cases f; cases "ReplayWindow_Accept (dc_receiveWindow r) sequence")
    (auto simp: DataChannel_OpenFrame_def channel_consts)

lemma passes_index:
  assumes "\<And>i. i < n \<Longrightarrow> unat (sq i :: u64) = i + 1" and "A \<subseteq> {..<n}" and "i < n"
  shows "passes (sq ` A) (sq i) \<longleftrightarrow> i \<notin> A \<and> (\<forall>a \<in> A. a < i + 64)"
proof -
  have "sq i \<noteq> 0" using assms(1) [OF assms(3)] by auto
  moreover have "inj_on sq {..<n}"
    using assms(1) by (intro inj_onI) (metis add_right_cancel lessThan_iff)
  then have "sq i \<in> sq ` A \<longleftrightarrow> i \<in> A"
    using assms(2,3) by (simp add: inj_on_image_mem_iff)
  moreover have "unat (sq a) = a + 1" if "a \<in> A" for a using assms(1,2) that by auto
  ultimately show ?thesis using assms(1) [OF assms(3)] by (simp add: passes_def add.commute)
qed

lemma open_run_receive:
  assumes r: "dc_receiveCodec r = Some e"
    and sq: "\<And>i. i < length fs \<Longrightarrow> unat (fst (sealed ! i)) = i + 1"
    and dec: "\<And>i. i < length fs \<Longrightarrow>
      decodeWithDecryption e (snd (sealed ! i)) aadDomainData (dataFrameContext (dc_receiveDirection r) (fst (sealed ! i))) limit =
      Inr (fst (frame_content (fs ! i)) # snd (frame_content (fs ! i)))"
  shows "window_inv w ((\<lambda>i. fst (sealed ! i)) ` A) \<Longrightarrow> A \<subseteq> {..<length fs} \<Longrightarrow> list_all (\<lambda>i. i < length fs) arrivals \<Longrightarrow>
    open_run (r\<lparr>dc_receiveWindow := w\<rparr>) limit (map ((!) sealed) arrivals) = receive fs A arrivals"
proof (induction arrivals arbitrary: w A)
  case Nil
  then show ?case by simp
next
  case (Cons i arrivals)
  let ?r = "r\<lparr>dc_receiveWindow := w\<rparr>" and ?sq = "\<lambda>i. fst (sealed ! i)"
  have i: "i < length fs" using Cons.prems(3) by simp
  then have "?sq i \<noteq> 0" using sq by fastforce
  with OpenFrame_window [of ?r e "?sq ` A" "?sq i" "snd (sealed ! i)" limit "fs ! i"] r dec [OF i] Cons.prems(1)
  obtain w' where o: "DataChannel_OpenFrame ?r (?sq i) (snd (sealed ! i)) limit =
      (if passes (?sq ` A) (?sq i) then Inr (frame_content (fs ! i)) else Inl ErrDataFrameReplay, r\<lparr>dc_receiveWindow := w'\<rparr>)"
    and w': "window_inv w' (if passes (?sq ` A) (?sq i) then insert (?sq i) (?sq ` A) else ?sq ` A)"
    by auto
  have run: "open_run ?r limit (map ((!) sealed) (i # arrivals)) =
      (case DataChannel_OpenFrame ?r (?sq i) (snd (sealed ! i)) limit of (out, r') \<Rightarrow> out # open_run r' limit (map ((!) sealed) arrivals))"
    by (cases "sealed ! i") simp
  have p: "passes (?sq ` A) (?sq i) \<longleftrightarrow> i \<notin> A \<and> (\<forall>a \<in> A. a < i + 64)"
    using passes_index [of "length fs" ?sq A i] sq Cons.prems(2) i by blast
  show ?case
  proof (cases "i \<notin> A \<and> (\<forall>a \<in> A. a < i + 64)")
    case True
    with Cons.IH [of w' "insert i A"] w' p Cons.prems(2,3) i show ?thesis unfolding run o by simp
  next
    case False
    with Cons.IH [of w' A] w' p Cons.prems(2,3) i show ?thesis unfolding run o by auto
  qed
qed

section \<open>Delivery\<close>

text \<open>The two ends of a session: one sends with the key and direction the other receives with.\<close>

definition opposite :: "byte \<Rightarrow> byte \<Rightarrow> bool" where
  "opposite role role' \<longleftrightarrow> (role = DataRoleClient \<and> role' = DataRoleServer) \<or> (role = DataRoleServer \<and> role' = DataRoleClient)"

definition data_linked :: "data_channel \<Rightarrow> data_channel \<Rightarrow> bool" where
  "data_linked c d \<longleftrightarrow> (\<exists>e e'. dc_sendCodec c = Some e \<and> dc_receiveCodec d = Some e' \<and> codec_match e e') \<and>
     dc_sendDirection c = dc_receiveDirection d \<and> dc_sendSequence c = 0 \<and> dc_receiveWindow d = ReplayWindow_zero"

lemma NewDataChannel_match:
  assumes L: "lib_ok L" and o: "opposite role role'"
    and c: "NewDataChannel L rnd1 rnd2 typ key aad role = Inr c" and d: "NewDataChannel L rnd3 rnd4 typ key aad role' = Inr d"
  shows "data_linked c d"
proof -
  obtain k e where e: "deriveDataKey L key (dc_sendDirection c) = Inr k" "NewCodec L rnd1 typ k aad = Inr e" "dc_sendCodec c = Some e"
    "dc_sendSequence c = 0" "dc_sendDirection c = (if role = DataRoleClient then dataClientToServer else dataServerToClient)"
    using c by (auto simp: NewDataChannel_def bind_result_Inr_iff split: if_splits)
  obtain k' e' where e': "deriveDataKey L key (dc_receiveDirection d) = Inr k'" "NewCodec L rnd4 typ k' aad = Inr e'"
    "dc_receiveCodec d = Some e'" "dc_receiveWindow d = ReplayWindow_zero"
    "dc_receiveDirection d = (if role' = DataRoleServer then dataClientToServer else dataServerToClient)"
    using d by (auto simp: NewDataChannel_def bind_result_Inr_iff channel_consts split: if_splits)
  have dir: "dc_sendDirection c = dc_receiveDirection d"
    using o e(5) e'(5) by (auto simp: opposite_def channel_consts)
  with e(1) e'(1) have "k = k'" by simp
  with NewCodec_match [OF L e(2)] e' e dir show ?thesis by (auto simp: data_linked_def)
qed

text \<open>
  What a receiving end promises for the frames of a sending end: whatever order, losses and duplicates the
  transport makes of them, each arrival gives the type and plaintext that were sealed, if the frame is new and less
  than 64 behind every frame delivered before, and ErrDataFrameReplay otherwise.
\<close>

definition delivers :: "data_channel \<Rightarrow> data_channel \<Rightarrow> bool" where
  "delivers c d \<longleftrightarrow> (\<forall>fs sealed limit arrivals.
     seal_run c fs = Some sealed \<longrightarrow> list_all (frame_fits limit) fs \<longrightarrow> list_all (\<lambda>i. i < length fs) arrivals \<longrightarrow>
     open_run d limit (map ((!) sealed) arrivals) = receive fs {} arrivals)"

lemma linked_open_run:
  assumes l: "data_linked c d"
    and f: "seal_run c fs = Some sealed" "list_all (frame_fits limit) fs" "list_all (\<lambda>i. i < length fs) arrivals"
  shows "open_run d limit (map ((!) sealed) arrivals) = receive fs {} arrivals"
proof -
  obtain e e' where m: "dc_sendCodec c = Some e" "dc_receiveCodec d = Some e'" "codec_match e e'"
    "dc_sendDirection c = dc_receiveDirection d" "dc_sendSequence c = 0" "dc_receiveWindow d = ReplayWindow_zero"
    using l by (auto simp: data_linked_def)
  have s: "unat (fst (sealed ! i)) = i + 1"
    "decodeWithDecryption e' (snd (sealed ! i)) aadDomainData (dataFrameContext (dc_receiveDirection d) (fst (sealed ! i))) limit =
      Inr (fst (frame_content (fs ! i)) # snd (frame_content (fs ! i)))" if "i < length fs" for i
    using seal_run_opens [OF f(1) m(1,3), of limit] that m(4,5) f(2) by (auto simp: list_all_length)
  have "d\<lparr>dc_receiveWindow := ReplayWindow_zero\<rparr> = d" using m(6) by simp
  then show ?thesis
    using open_run_receive [OF m(2) s, of ReplayWindow_zero "{}"] window_inv_zero f(3) by simp
qed

lemma linked_delivers: "data_linked c d \<Longrightarrow> delivers c d"
  unfolding delivers_def using linked_open_run by blast

text \<open>
  C5. Frames are delivered unchanged and at most once. Two ends of a session are set up with the
  same parameters and opposite roles, and one seals any sequence of data and heartbeat frames. Whatever
  order, losses and duplicates the transport makes of them, the other end returns for each arrival the
  type and plaintext that were sealed, if the frame is new and less than 64 behind every frame
  delivered before, and ErrDataFrameReplay otherwise.
\<close>

theorem DataChannel_delivery:
  assumes "lib_ok L" and "opposite role role'"
    and "NewDataChannel L rnd1 rnd2 typ key aad role = Inr c" and "NewDataChannel L rnd3 rnd4 typ key aad role' = Inr d"
    and "seal_run c fs = Some sealed" and "list_all (frame_fits limit) fs" and "list_all (\<lambda>i. i < length fs) arrivals"
  shows "open_run d limit (map ((!) sealed) arrivals) = receive fs {} arrivals"
  by (rule linked_open_run [OF NewDataChannel_match [OF assms(1-4)] assms(5-7)])

theorem DataChannel_delivery_witness:
  "\<exists>c d sealed. NewDataChannel sum_lib zero_random zero_random ASCON_128A [5] [] DataRoleClient = Inr c \<and>
     NewDataChannel sum_lib zero_random zero_random ASCON_128A [5] [] DataRoleServer = Inr d \<and>
     seal_run c [App [104, 105], Beat, App []] = Some sealed \<and>
     open_run d 100 (map ((!) sealed) [2, 0, 2, 1]) =
       [Inr (DataFrameApplication, []), Inr (DataFrameApplication, [104, 105]), Inl ErrDataFrameReplay, Inr (DataFrameHeartbeat, [])]"
proof -
  note defs = NewDataChannel_def deriveDataKey_def NewCodec_def createEncryptKit_def NewAscon128a_def withNonceSource_def newNonceSource_def
    sum_lib_def symbolic_lib_def crypto_lib.defs sum_aead_def nonceCounterSize_def zero_random_def Let_def channel_consts
    AES_256_GCM_def ASCON_128A_def
  obtain c where c: "NewDataChannel sum_lib zero_random zero_random ASCON_128A [5] [] DataRoleClient = Inr c" by (simp add: defs)
  obtain d where d: "NewDataChannel sum_lib zero_random zero_random ASCON_128A [5] [] DataRoleServer = Inr d" by (simp add: defs)
  have "\<exists>sealed. seal_run c [App [104, 105], Beat, App []] = Some sealed"
    using c by (auto simp: defs DataChannel_Seal_def DataChannel_SealHeartbeat_def sealFrame_def encodeWithEncryption_def
        rewrap_def impl_method_defs impl_Encrypt_def nonceSource_next_def)
  then obtain sealed where s: "seal_run c [App [104, 105], Beat, App []] = Some sealed" by blast
  have "opposite DataRoleClient DataRoleServer" by (simp add: opposite_def)
  from DataChannel_delivery [OF sum_lib_ok this c d s, of 100 "[2, 0, 2, 1]"] have
    "open_run d 100 (map ((!) sealed) [2, 0, 2, 1]) =
       [Inr (DataFrameApplication, []), Inr (DataFrameApplication, [104, 105]), Inl ErrDataFrameReplay, Inr (DataFrameHeartbeat, [])]"
    by (simp add: frame_fits_def)
  with c d s show ?thesis by blast
qed

text \<open>
  C6. A frame is authenticated before the window moves. OpenFrame either fails and leaves the
  channel exactly as it was, so that no forged or replayed frame can suppress a legitimate one, or it returns
  what was sealed with the channel's receiving key for this direction and this sequence number.
\<close>

theorem OpenFrame_authenticated:
  assumes "lib_ok L" and "NewCodec L rnd typ key aad = Inr e" and "aead_for L typ key = Inr A" and "dc_receiveCodec d = Some e"
  shows "case DataChannel_OpenFrame d sequence ciphertext limit of
      (Inl _, d') \<Rightarrow> d' = d
    | (Inr (frameType, plaintext), d') \<Rightarrow>
        sequence \<noteq> 0 \<and> d' = d\<lparr>dc_receiveWindow := snd (ReplayWindow_Accept (dc_receiveWindow d) sequence)\<rparr> \<and>
        (\<exists>nonce. ciphertext = nonce @ Seal A nonce (frameType # plaintext)
           (buildAdditionalData aad aadDomainData (dataFrameContext (dc_receiveDirection d) sequence)))"
proof -
  obtain kit where kit: "cd_encryptionKit e = Some kit" "A = kit_aead kit" "codec_inv e" "cd_additionalData e = aad"
    using assms(2,3) by (auto elim: NewCodec_Inr)
  have tidy: "aead_tidy (kit_aead kit)" using aead_for_ok [OF assms(1,3)] kit(2) by simp
  note sealed = decodeWithDecryption_sealed [OF kit(3,1) tidy, unfolded kit(4) kit(2) [symmetric]]
  show ?thesis
    using assms(4) sealed [of ciphertext aadDomainData "dataFrameContext (dc_receiveDirection d) sequence" limit]
    by (auto simp: DataChannel_OpenFrame_def dest: Accept_reject_same split: sum.splits list.splits prod.splits bool.splits)
qed

definition sample_channel :: "codec \<Rightarrow> data_channel" where
  "sample_channel e = \<lparr>dc_sendCodec = None, dc_receiveCodec = Some e, dc_sendDirection = dataServerToClient,
     dc_receiveDirection = dataClientToServer, dc_sendSequence = 0, dc_receiveWindow = ReplayWindow_zero\<rparr>"

definition sample_frame :: bytes where
  "sample_frame = replicate 12 9 @ Seal (sum_aead ([1] @ replicate 31 0)) (replicate 12 9) [1, 104]
     (buildAdditionalData [] aadDomainData (dataFrameContext dataClientToServer 1))"

theorem OpenFrame_authenticated_witness:
  "\<exists>e. NewCodec sum_lib zero_random AES_256_GCM [1] [] = Inr e \<and>
     fst (DataChannel_OpenFrame (sample_channel e) 1 sample_frame 10) = Inr (1, [104]) \<and>
     (\<exists>nonce. sample_frame = nonce @ Seal (sum_aead ([1] @ replicate 31 0)) nonce [1, 104]
        (buildAdditionalData [] aadDomainData (dataFrameContext dataClientToServer 1))) \<and>
     DataChannel_OpenFrame (sample_channel e) 2 [] 10 = (fst (DataChannel_OpenFrame (sample_channel e) 2 [] 10), sample_channel e)"
proof -
  note defs = NewCodec_def createEncryptKit_def NewAES256GCM_def withNonceSource_def newNonceSource_def
    sum_lib_def crypto_lib.defs nonceCounterSize_def zero_random_def Let_def
  obtain e where e: "NewCodec sum_lib zero_random AES_256_GCM [1] [] = Inr e" by (simp add: defs sum_aead_def)
  have A: "aead_for sum_lib AES_256_GCM [1] = Inr (sum_aead ([1] @ replicate 31 0))"
    by (simp add: aead_for_def sum_lib_def crypto_lib.defs)
  have r: "dc_receiveCodec (sample_channel e) = Some e" by (simp add: sample_channel_def)
  note th = OpenFrame_authenticated [OF sum_lib_ok e A r]
  have o1: "fst (DataChannel_OpenFrame (sample_channel e) 1 sample_frame 10) = Inr (1, [104])"
    using e by (auto simp: defs sum_aead_def sum_tag_def sample_frame_def sample_channel_def DataChannel_OpenFrame_def decodeWithDecryption_def
        additionalDataFor_def dataFrameContext_def impl_Decrypt_def impl_method_defs channel_consts ReplayWindow_Accept_def ReplayWindow_zero_def)
  have o2: "\<exists>err. fst (DataChannel_OpenFrame (sample_channel e) 2 [] 10) = Inl err"
    by (simp add: sample_channel_def DataChannel_OpenFrame_def decodeWithDecryption_def)
  from th [of 1 sample_frame 10] o1 have n: "\<exists>nonce. sample_frame = nonce @ Seal (sum_aead ([1] @ replicate 31 0)) nonce [1, 104]
        (buildAdditionalData [] aadDomainData (dataFrameContext dataClientToServer 1))"
    by (auto simp: sample_channel_def split: prod.splits)
  from th [of 2 "[]" 10] o2 have "snd (DataChannel_OpenFrame (sample_channel e) 2 [] 10) = sample_channel e"
    by (auto split: prod.splits)
  with e o1 n show ?thesis by (metis prod.collapse)
qed

end
