(* ===== verification/Transport_IO.thy ===== *)
theory Transport_IO
  imports Data_Channel Recv_Buffer
begin

text \<open>
  The data path of a connection: Write and sendHeartbeat (peer/server/write.go, peer/client/write.go), and the readers
  of stream and datagram transports (readTransport and readRawTransport of peer/server/conn.go and
  peer/client/connect.go). A frame on the wire is the length of the ciphertext and the sequence
  number, eight bytes each, and the ciphertext. The transport below is an argument: which of its writes
  fail and after how many bytes, and the bytes or datagrams that its reads return.
\<close>

section \<open>Frames\<close>

definition DataFrameSequenceSize :: nat where "DataFrameSequenceSize = 8"

definition frame_bytes :: "u64 \<Rightarrow> bytes \<Rightarrow> bytes" where
  "frame_bytes sequence ciphertext = be_put 8 (length ciphertext) @ be_put 8 (unat sequence) @ ciphertext"

section \<open>Writing\<close>

text \<open>
  How a call ends: it returns a value, it panics, or it is still running when the fuel is used up.
\<close>

datatype 'a outcome = Returned 'a | Panicked | Running

text \<open>
  The inner loop of Write: seal the piece, and halve it as long as the ciphertext is too long.
  It gives the sequence number, the ciphertext and the number of plaintext bytes it took.
\<close>

function sealFit :: "data_channel \<Rightarrow> bytes \<Rightarrow> int \<Rightarrow> (u64 \<times> bytes \<times> nat) result \<times> data_channel" where
  "sealFit d piece frameLimit =
     (case DataChannel_Seal d piece of
        (Inl err, d') \<Rightarrow> (Inl err, d')
      | (Inr (sequence, ciphertext), d') \<Rightarrow>
          if int (length ciphertext) \<le> frameLimit then (Inr (sequence, ciphertext, length piece), d')
          else if length piece \<le> 1 then (Inl (Errorf ''encoded frame exceeds configured limit''), d')
          else sealFit d' (take (length piece div 2) piece) frameLimit)"
  by pat_completeness auto
termination
  by (relation "measure (\<lambda>(d, piece, l). length piece)") auto

declare sealFit.simps [simp del]

text \<open>
  The outer loop, from offset \<open>off\<close> on. \<open>send k\<close> tells how the \<open>k\<close>-th write to the transport fails, if it does: with how many
  bytes of the frame written, and the error. A net.Conn that returns no error has written everything. \<open>sent\<close> is what was written
  so far, one element for each call. A slice expression with its end before its start
  panics; if the limit is exactly 64 the loop sends empty frames forever.
\<close>

definition plaintextEnd :: "bytes \<Rightarrow> nat \<Rightarrow> int \<Rightarrow> int" where
  "plaintextEnd p off frameLimit = min (int off + frameLimit - 64) (int (length p))"

fun writeLoop ::
  "nat \<Rightarrow> data_channel \<Rightarrow> bytes \<Rightarrow> nat \<Rightarrow> int \<Rightarrow> (nat \<Rightarrow> (nat \<times> go_error) option) \<Rightarrow> bytes list \<Rightarrow>
     (nat \<times> go_error option) outcome \<times> data_channel \<times> bytes list" where
  "writeLoop fuel d p off frameLimit send sent =
     (if off \<ge> length p then (Returned (length p, None), d, sent)
      else (case fuel of
              0 \<Rightarrow> (Running, d, sent)
            | Suc fuel' \<Rightarrow>
                if plaintextEnd p off frameLimit < int off then (Panicked, d, sent)
                else (case sealFit d (take (nat (plaintextEnd p off frameLimit) - off) (drop off p)) frameLimit of
                        (Inl err, d') \<Rightarrow> (Returned (off, Some err), d', sent)
                      | (Inr (sequence, ciphertext, n), d') \<Rightarrow>
                          (case send (length sent) of
                             Some (written, err) \<Rightarrow> (Returned (off, Some err), d', sent @ [take written (frame_bytes sequence ciphertext)])
                           | None \<Rightarrow> writeLoop fuel' d' p (off + n) frameLimit send (sent @ [frame_bytes sequence ciphertext])))))"

declare writeLoop.simps [simp del]

text \<open>
  The state of a connection that Write looks at: its transport, its data channel, whether it is
  open (not closed on the server, connected on the client), whether the write deadline has passed.
\<close>

record write_state =
  ws_transport :: bool
  ws_channel :: "data_channel option"
  ws_open :: bool
  ws_timedOut :: bool

definition Connection_Write ::
  "nat \<Rightarrow> write_state \<Rightarrow> int \<Rightarrow> (nat \<Rightarrow> (nat \<times> go_error) option) \<Rightarrow> bytes \<Rightarrow>
     (nat \<times> go_error option) outcome \<times> write_state \<times> bytes list" where
  "Connection_Write fuel c frameLimit send p =
     (case ws_channel c of
        None \<Rightarrow> (Returned (0, Some (Errorf ''transport not connected'')), c, [])
      | Some d \<Rightarrow>
          if \<not> ws_transport c \<or> \<not> ws_open c then (Returned (0, Some (Errorf ''transport not connected'')), c, [])
          else if ws_timedOut c then (Returned (0, Some ErrDeadlineExceeded), c, [])
          else if p = [] then (Returned (0, None), c, [])
          else (case writeLoop fuel d p 0 frameLimit send [] of
                  (r, d', sent) \<Rightarrow> (r, c\<lparr>ws_channel := Some d'\<rparr>, sent)))"

text \<open>The client's Write differs in where it takes the limit and the connected flag from.\<close>

definition frame_limit :: "int \<Rightarrow> int \<Rightarrow> int" where
  "frame_limit maxFrameSize transportMaxFrameSize =
     (if transportMaxFrameSize > 0 \<and> maxFrameSize > transportMaxFrameSize then transportMaxFrameSize else maxFrameSize)"

definition Client_Write ::
  "nat \<Rightarrow> write_state \<Rightarrow> int \<Rightarrow> int \<Rightarrow> (nat \<Rightarrow> (nat \<times> go_error) option) \<Rightarrow> bytes \<Rightarrow>
     (nat \<times> go_error option) outcome \<times> write_state \<times> bytes list" where
  "Client_Write fuel c maxFrameSize transportLimit send p =
     Connection_Write fuel c (frame_limit maxFrameSize transportLimit) send p"

text \<open>
  sendHeartbeat: \<open>expected\<close> says that the transport and channel are those the caller expects; \<open>n\<close> is
  the count the transport's write returns.
\<close>

definition sendHeartbeat ::
  "write_state \<Rightarrow> bool \<Rightarrow> (bytes \<Rightarrow> nat \<times> go_error option) \<Rightarrow> go_error option \<times> write_state \<times> bytes list" where
  "sendHeartbeat c expected send =
     (case ws_channel c of
        None \<Rightarrow> (Some (Errorf ''transport not connected''), c, [])
      | Some d \<Rightarrow>
          if \<not> ws_transport c \<or> \<not> expected then (Some (Errorf ''transport not connected''), c, [])
          else (case DataChannel_SealHeartbeat d of
                  (Inl err, d') \<Rightarrow> (Some err, c\<lparr>ws_channel := Some d'\<rparr>, [])
                | (Inr (sequence, ciphertext), d') \<Rightarrow>
                    (let frame = frame_bytes sequence ciphertext
                     in (case send frame of
                           (n, Some err) \<Rightarrow> (Some err, c\<lparr>ws_channel := Some d'\<rparr>, [take n frame])
                         | (n, None) \<Rightarrow>
                             (if n \<noteq> length frame then Some ErrShortWrite else None, c\<lparr>ws_channel := Some d'\<rparr>, [take n frame])))))"

section \<open>Reading\<close>

record reader =
  rd_channel :: data_channel
  rd_buf :: recv_buffer
  rd_budget :: "byte_budget option"
  rd_lastRead :: int

text \<open>
  One round of readTransport on the bytes that the stream still delivers: whether the loop goes on,
  the state, and the bytes left. \<open>cur\<close> and \<open>cur'\<close> are the answers of the two calls of
  isCurrentTransport, \<open>now\<close> the clock. io.ReadFull fails when the stream ends early. The outer \<open>None\<close>
  is a panic of the budget. The client has no budget, which is a nil budget here.
\<close>

definition readTransport_iter ::
  "int \<Rightarrow> bool \<Rightarrow> bool \<Rightarrow> int \<Rightarrow> reader \<Rightarrow> bytes \<Rightarrow> (bool \<times> reader \<times> bytes) option" where
  "readTransport_iter maxFrameSize cur cur' now r input =
     (if length input < 8 then Some (False, r, [])
      else (let frameLength = be_get (take 8 input); input1 = drop 8 input
            in if \<not> cur \<or> frameLength = 0 \<or> int frameLength > maxFrameSize then Some (False, r, input1)
               else if length input1 < DataFrameSequenceSize then Some (False, r, [])
               else (let sequence = (of_nat (be_get (take DataFrameSequenceSize input1)) :: u64);
                         input2 = drop DataFrameSequenceSize input1
                     in (case ByteBudget_Reserve (rd_budget r) (int frameLength) of
                           (False, b) \<Rightarrow> Some (False, r\<lparr>rd_budget := b\<rparr>, input2)
                         | (True, b) \<Rightarrow>
                             (case ByteBudget_Release b (int frameLength) of
                                None \<Rightarrow> None
                              | Some b' \<Rightarrow>
                                  if length input2 < frameLength then Some (False, r\<lparr>rd_budget := b'\<rparr>, [])
                                  else (let frame = take frameLength input2; input3 = drop frameLength input2
                                        in (case DataChannel_OpenFrame (rd_channel r) sequence frame maxFrameSize of
                                              (Inl err, d) \<Rightarrow> Some (False, r\<lparr>rd_budget := b', rd_channel := d\<rparr>, input3)
                                            | (Inr (frameType, raw), d) \<Rightarrow>
                                                if int (length raw) > maxFrameSize \<or> \<not> cur'
                                                then Some (False, r\<lparr>rd_budget := b', rd_channel := d\<rparr>, input3)
                                                else (let r1 = r\<lparr>rd_budget := b', rd_channel := d, rd_lastRead := now\<rparr>
                                                      in if frameType = DataFrameHeartbeat then Some (True, r1, input3)
                                                         else (case RecvBuffer_Write (rd_buf r1) (rd_budget r1) raw of
                                                                 (Some err, rb, b'') \<Rightarrow> Some (False, r1\<lparr>rd_buf := rb, rd_budget := b''\<rparr>, input3)
                                                               | (None, rb, b'') \<Rightarrow> Some (True, r1\<lparr>rd_buf := rb, rd_budget := b''\<rparr>, input3))))))))))"

text \<open>
  The loop, with the connection current throughout and the clock at \<open>now\<close>, on all the bytes that the stream delivers before it
  ends; every round that goes on has consumed at least 17 bytes, so more rounds than there are bytes are enough fuel.
\<close>

fun readTransport_loop :: "nat \<Rightarrow> int \<Rightarrow> int \<Rightarrow> reader \<Rightarrow> bytes \<Rightarrow> (reader \<times> bytes) outcome" where
  "readTransport_loop 0 maxFrameSize now r input = Running"
| "readTransport_loop (Suc fuel) maxFrameSize now r input =
     (case readTransport_iter maxFrameSize True True now r input of
        None \<Rightarrow> Panicked
      | Some (False, r', input') \<Rightarrow> Returned (r', input')
      | Some (True, r', input') \<Rightarrow> readTransport_loop fuel maxFrameSize now r' input')"

text \<open>
  One round of readRawTransport on the datagram that a read returned; a replayed datagram is skipped.
\<close>

definition readRawTransport_iter ::
  "int \<Rightarrow> bool \<Rightarrow> bool \<Rightarrow> int \<Rightarrow> reader \<Rightarrow> bytes \<Rightarrow> (bool \<times> reader) option" where
  "readRawTransport_iter maxFrameSize cur cur' now r packet =
     (let n = length packet; frameLength = be_get (take 8 packet)
      in if n < 8 \<or> \<not> cur \<or> frameLength = 0 \<or> n < 8 + DataFrameSequenceSize \<or> int frameLength > maxFrameSize \<or>
            int frameLength \<noteq> int n - 8 - int DataFrameSequenceSize
         then Some (False, r)
         else (case ByteBudget_Reserve (rd_budget r) (int frameLength) of
                 (False, b) \<Rightarrow> Some (False, r\<lparr>rd_budget := b\<rparr>)
               | (True, b) \<Rightarrow>
                   (let sequenceOffset = 8 + DataFrameSequenceSize;
                        sequence = (of_nat (be_get (take DataFrameSequenceSize (drop 8 packet))) :: u64)
                    in (case DataChannel_OpenFrame (rd_channel r) sequence (drop sequenceOffset packet) maxFrameSize of
                          (res, d) \<Rightarrow>
                            (case ByteBudget_Release b (int frameLength) of
                               None \<Rightarrow> None
                             | Some b' \<Rightarrow>
                                 (let r1 = r\<lparr>rd_budget := b', rd_channel := d\<rparr>
                                  in (case res of
                                        Inl err \<Rightarrow> Some (err = ErrDataFrameReplay, r1)
                                      | Inr (frameType, raw) \<Rightarrow>
                                          if int (length raw) > maxFrameSize \<or> \<not> cur' then Some (False, r1)
                                          else (let r2 = r1\<lparr>rd_lastRead := now\<rparr>
                                                in if frameType = DataFrameHeartbeat then Some (True, r2)
                                                   else (case RecvBuffer_Write (rd_buf r2) (rd_budget r2) raw of
                                                           (e, rb, b'') \<Rightarrow> Some (e = None, r2\<lparr>rd_buf := rb, rd_budget := b''\<rparr>))))))))))"

section \<open>What a write puts on the wire\<close>

text \<open>
  Frames as the receiver sees them: each opens to its chunk of plaintext under the receiver's codec \<open>e\<close>, and the
  sequence numbers rise strictly from above \<open>lo\<close> up to at most \<open>hi\<close>.
\<close>

definition opens :: "codec \<Rightarrow> byte \<Rightarrow> u64 \<Rightarrow> bytes \<Rightarrow> bytes \<Rightarrow> bool" where
  "opens e dir sequence ciphertext chunk \<longleftrightarrow> length chunk < length ciphertext \<and>
     (\<forall>limit. limit \<le> 0 \<or> 1 + int (length chunk) \<le> limit \<longrightarrow>
        decodeWithDecryption e ciphertext aadDomainData (dataFrameContext dir sequence) limit = Inr (DataFrameApplication # chunk))"

fun sealed_seq :: "codec \<Rightarrow> byte \<Rightarrow> nat \<Rightarrow> (u64 \<times> bytes \<times> bytes) list \<Rightarrow> nat \<Rightarrow> bool" where
  "sealed_seq e dir lo [] hi \<longleftrightarrow> lo \<le> hi"
| "sealed_seq e dir lo ((sequence, ciphertext, chunk) # ts) hi \<longleftrightarrow>
     lo < unat sequence \<and> opens e dir sequence ciphertext chunk \<and> sealed_seq e dir (unat sequence) ts hi"

lemma sealed_seq_append:
  "sealed_seq e dir lo ts mid \<Longrightarrow> sealed_seq e dir mid us hi \<Longrightarrow> sealed_seq e dir lo (ts @ us) hi"
proof (induction ts arbitrary: lo)
  case Nil
  then show ?case by (cases us) auto
next
  case (Cons t ts)
  then show ?case by (cases t) auto
qed

definition wire :: "(u64 \<times> bytes \<times> bytes) list \<Rightarrow> bytes list" where
  "wire ts = map (\<lambda>(sequence, ciphertext, chunk). frame_bytes sequence ciphertext) ts"

definition chunks :: "(u64 \<times> bytes \<times> bytes) list \<Rightarrow> bytes" where
  "chunks ts = concat (map (\<lambda>(sequence, ciphertext, chunk). chunk) ts)"

lemma wire_chunks_simps [simp]:
  "wire [] = []" "chunks [] = []"
  "wire ((q, c, x) # ts) = frame_bytes q c # wire ts" "chunks ((q, c, x) # ts) = x @ chunks ts"
  by (simp_all add: wire_def chunks_def)

lemma Seal_Inr:
  assumes "DataChannel_Seal d piece = (Inr (sequence, ciphertext), d')" and "dc_sendCodec d = Some e" and "codec_match e r"
  shows "(\<exists>e'. dc_sendCodec d' = Some e' \<and> codec_match e' r) \<and> dc_sendDirection d' = dc_sendDirection d \<and>
    dc_sendSequence d' = sequence \<and> unat sequence = Suc (unat (dc_sendSequence d)) \<and>
    opens r (dc_sendDirection d) sequence ciphertext piece"
proof -
  have s: "seal_step d (App piece) = (Inr (sequence, ciphertext), d')" using assms(1) by simp
  have "opens r (dc_sendDirection d) sequence ciphertext piece"
    unfolding opens_def
  proof (intro conjI allI impI)
    show "length piece < length ciphertext"
      using seal_step_Inr [OF s assms(2,3)] by (metis frame_content.simps(1) snd_conv)
  next
    fix limit :: int
    assume "limit \<le> 0 \<or> 1 + int (length piece) \<le> limit"
    then have "frame_fits limit (App piece)" by (simp add: frame_fits_def)
    with seal_step_Inr [OF s assms(2,3), of limit]
    show "decodeWithDecryption r ciphertext aadDomainData (dataFrameContext (dc_sendDirection d) sequence) limit =
        Inr (DataFrameApplication # piece)"
      by (metis frame_content.simps(1) fst_conv snd_conv)
  qed
  with seal_step_Inr [OF s assms(2,3)] show ?thesis by metis
qed

text \<open>What every sealing keeps, successful or not: the two ends match, and the sequence does not fall.\<close>

definition sender_step :: "codec \<Rightarrow> data_channel \<Rightarrow> data_channel \<Rightarrow> bool" where
  "sender_step r d d' \<longleftrightarrow> (\<exists>e'. dc_sendCodec d' = Some e' \<and> codec_match e' r) \<and> dc_sendDirection d' = dc_sendDirection d \<and>
     unat (dc_sendSequence d) \<le> unat (dc_sendSequence d')"

lemma encode_Inl: "encodeWithEncryption e data domain context = (Inl err, e') \<Longrightarrow> e' = e"
  by (auto simp: encodeWithEncryption_def split: if_splits option.splits sum.splits)

lemma Seal_Inl:
  assumes "DataChannel_Seal d piece = (Inl err, d')" and "dc_sendCodec d = Some e" and "codec_match e r"
  shows "sender_step r d d'"
  using assms
  by (auto simp: DataChannel_Seal_def sealFrame_def sender_step_def Let_def unat_succ dest!: encode_Inl
      split: if_splits sum.splits prod.splits)

lemma sealFit_step:
  assumes "sealFit d piece limit = (res, d')" and "dc_sendCodec d = Some e" and "codec_match e r"
  shows "sender_step r d d'"
  using assms
proof (induction d piece limit arbitrary: e rule: sealFit.induct)
  case (1 d piece limit)
  show ?case
  proof (cases "fst (DataChannel_Seal d piece)")
    case (Inl err)
    then obtain d1 where s: "DataChannel_Seal d piece = (Inl err, d1)" by (cases "DataChannel_Seal d piece") auto
    then show ?thesis using "1.prems"(1) Seal_Inl [OF s "1.prems"(2,3)] by (subst (asm) sealFit.simps) simp
  next
    case (Inr qc)
    then obtain q c d1 where s: "DataChannel_Seal d piece = (Inr (q, c), d1)" by (cases "DataChannel_Seal d piece"; cases qc) auto
    note f = Seal_Inr [OF s "1.prems"(2,3)]
    then have step: "sender_step r d d1" by (auto simp: sender_step_def)
    show ?thesis
    proof (cases "int (length c) \<le> limit \<or> length piece \<le> 1")
      case True
      with "1.prems"(1) s step show ?thesis by (subst (asm) sealFit.simps) (auto split: if_splits)
    next
      case False
      then have "sealFit d1 (take (length piece div 2) piece) limit = (res, d')"
        using "1.prems"(1) s by (subst (asm) sealFit.simps) auto
      moreover from f obtain e1 where e1: "dc_sendCodec d1 = Some e1" "codec_match e1 r" by blast
      ultimately have "sender_step r d1 d'"
        using "1.IH" [OF s [symmetric] refl refl _ _ _ e1] False by simp
      with step show ?thesis by (auto simp: sender_step_def)
    qed
  qed
qed

lemma sealFit_Inr:
  assumes "sealFit d piece limit = (Inr (sequence, ciphertext, n), d')" and "dc_sendCodec d = Some e" and "codec_match e r"
  shows "(\<exists>e'. dc_sendCodec d' = Some e' \<and> codec_match e' r) \<and> dc_sendDirection d' = dc_sendDirection d \<and>
    dc_sendSequence d' = sequence \<and> unat (dc_sendSequence d) < unat sequence \<and>
    opens r (dc_sendDirection d) sequence ciphertext (take n piece) \<and> n \<le> length piece \<and> (piece \<noteq> [] \<longrightarrow> 0 < n) \<and>
    int (length ciphertext) \<le> limit"
  using assms
proof (induction d piece limit arbitrary: e rule: sealFit.induct)
  case (1 d piece limit)
  obtain q c d1 where s: "DataChannel_Seal d piece = (Inr (q, c), d1)"
    using "1.prems"(1) by (subst (asm) sealFit.simps) (auto split: prod.splits sum.splits)
  note f = Seal_Inr [OF s "1.prems"(2,3)]
  show ?case
  proof (cases "int (length c) \<le> limit")
    case True
    with "1.prems"(1) s f show ?thesis by (subst (asm) sealFit.simps) auto
  next
    case False
    then have r: "sealFit d1 (take (length piece div 2) piece) limit = (Inr (sequence, ciphertext, n), d')" "1 < length piece"
      using "1.prems"(1) s by (subst (asm) sealFit.simps, auto split: if_splits)+
    from f obtain e1 where e1: "dc_sendCodec d1 = Some e1" "codec_match e1 r" by blast
    have "take (length piece div 2) piece \<noteq> []" using r(2) by auto
    with "1.IH" [OF s [symmetric] refl refl False _ r(1) e1] r(2) f show ?thesis
      by (auto simp: take_take min_def split: if_splits)
  qed
qed

text \<open>
  The end of what a write puts on the wire. If its last call of the transport fails, that is the beginning of one more frame, or all of it, with
  a chunk that comes next in the data and that the write does not report as written.
\<close>

definition cut_frame ::
  "codec \<Rightarrow> byte \<Rightarrow> nat \<Rightarrow> (u64 \<times> bytes \<times> bytes) list \<Rightarrow> nat \<Rightarrow> int \<Rightarrow> (nat \<Rightarrow> (nat \<times> go_error) option) \<Rightarrow>
     (nat \<times> go_error option) outcome \<Rightarrow> bytes \<Rightarrow> bytes list \<Rightarrow> bool" where
  "cut_frame e dir lo ts hi limit send res p torn \<longleftrightarrow> torn = [] \<or>
     (\<exists>q c x k n err j more. torn = [take k (frame_bytes q c)] \<and> sealed_seq e dir lo (ts @ [(q, c, x)]) hi \<and> int (length c) \<le> limit \<and>
        res = Returned (n, Some err) \<and> send j = Some (k, err) \<and> drop n p = x @ more)"

lemma cut_frame_none [intro]: "cut_frame e dir lo ts hi limit send res p []"
  by (simp add: cut_frame_def)

lemma cut_frame_Cons:
  "cut_frame e dir (unat q) ts hi limit send res p torn \<Longrightarrow> lo < unat q \<Longrightarrow> opens e dir q c x \<Longrightarrow>
     cut_frame e dir lo ((q, c, x) # ts) hi limit send res p torn"
  unfolding cut_frame_def by fastforce

lemma writeLoop_frames:
  assumes "writeLoop fuel d p off limit send sent = (res, d', sent')" and "dc_sendCodec d = Some e" and "codec_match e r"
    and "off \<le> length p"
  shows "\<exists>ts torn. sent' = sent @ wire ts @ torn \<and> cut_frame r (dc_sendDirection d) (unat (dc_sendSequence d)) ts (unat (dc_sendSequence d')) limit send res p torn \<and>
    sealed_seq r (dc_sendDirection d) (unat (dc_sendSequence d)) ts (unat (dc_sendSequence d')) \<and>
    sender_step r d d' \<and> list_all (\<lambda>(q, c, x). int (length c) \<le> limit) ts \<and>
    (\<forall>n err. res = Returned (n, err) \<longrightarrow> off \<le> n \<and> n \<le> length p \<and> chunks ts = take (n - off) (drop off p) \<and> (err = None \<longrightarrow> n = length p))"
  using assms
proof (induction fuel arbitrary: d off sent e)
  case 0
  then show ?case by (auto simp: writeLoop.simps sender_step_def split: if_splits intro!: exI [of _ "[]"] cut_frame_none)
next
  case (Suc fuel)
  let ?stop = "plaintextEnd p off limit"
  let ?piece = "take (nat ?stop - off) (drop off p)"
  consider (fin) "off \<ge> length p" | (panic) "off < length p" "?stop < int off"
    | (err) err d1 where "off < length p" "\<not> ?stop < int off" "sealFit d ?piece limit = (Inl err, d1)"
    | (fail) q c n d1 k err where "off < length p" "\<not> ?stop < int off" "sealFit d ?piece limit = (Inr (q, c, n), d1)" "send (length sent) = Some (k, err)"
    | (next_frame) q c n d1 where "off < length p" "\<not> ?stop < int off" "sealFit d ?piece limit = (Inr (q, c, n), d1)" "send (length sent) = None"
    by (cases "off \<ge> length p"; cases "?stop < int off"; cases "sealFit d ?piece limit"; cases "fst (sealFit d ?piece limit)";
        cases "send (length sent)") (auto simp: not_le)
  then show ?case
  proof cases
    case next_frame
    note f = sealFit_Inr [OF next_frame(3) Suc.prems(2,3)]
    from f obtain e1 where e1: "dc_sendCodec d1 = Some e1" "codec_match e1 r" by blast
    have w: "writeLoop fuel d1 p (off + n) limit send (sent @ [frame_bytes q c]) = (res, d', sent')"
      using Suc.prems(1) next_frame by (subst (asm) writeLoop.simps) (simp add: Let_def)
    have ln: "n \<le> length ?piece" using f by blast
    also have "\<dots> \<le> length p - off" by simp
    finally have le: "off + n \<le> length p" using next_frame(1) by linarith
    have "n \<le> nat ?stop - off" by (rule order_trans [OF ln]) simp
    then have n: "take n ?piece = take n (drop off p)" by (simp only: take_take min.absorb1)
    from Suc.IH [OF w e1 le] obtain ts torn where ts: "sent' = (sent @ [frame_bytes q c]) @ wire ts @ torn"
      "cut_frame r (dc_sendDirection d1) (unat (dc_sendSequence d1)) ts (unat (dc_sendSequence d')) limit send res p torn"
      "sealed_seq r (dc_sendDirection d1) (unat (dc_sendSequence d1)) ts (unat (dc_sendSequence d'))" "sender_step r d1 d'" "list_all (\<lambda>(q, c, x). int (length c) \<le> limit) ts"
      "\<forall>m err. res = Returned (m, err) \<longrightarrow> off + n \<le> m \<and> m \<le> length p \<and>
        chunks ts = take (m - (off + n)) (drop (off + n) p) \<and> (err = None \<longrightarrow> m = length p)"
      by blast
    have "take (m - off) (drop off p) = take n (drop off p) @ take (m - (off + n)) (drop (off + n) p)" if "off + n \<le> m" for m
    proof -
      have "m - off = n + (m - (off + n))" using that by simp
      then show ?thesis by (metis take_add drop_drop add.commute)
    qed
    with ts f n show ?thesis
      by (intro exI [of _ "(q, c, take n ?piece) # ts"] exI [of _ torn]) (auto simp: sender_step_def intro!: cut_frame_Cons)
  next
    case err
    with Suc.prems sealFit_step [OF err(3) Suc.prems(2,3)] show ?thesis
      by (auto simp: writeLoop.simps sender_step_def intro!: exI [of _ "[]"] cut_frame_none)
  next
    case fail
    note f = sealFit_Inr [OF fail(3) Suc.prems(2,3)]
    have ln: "n \<le> nat ?stop - off" by (rule order_trans [OF f [THEN conjunct2, THEN conjunct2, THEN conjunct2, THEN conjunct2, THEN conjunct2, THEN conjunct1]]) simp
    then have x: "take n ?piece = take n (drop off p)" by (simp only: take_take min.absorb1)
    have "writeLoop (Suc fuel) d p off limit send sent = (Returned (off, Some err), d1, sent @ [take k (frame_bytes q c)])"
      using fail by (simp add: writeLoop.simps [of "Suc fuel" d p off])
    then have res: "res = Returned (off, Some err)" "d' = d1" "sent' = sent @ [take k (frame_bytes q c)]"
      using Suc.prems(1) by simp_all
    have "sealed_seq r (dc_sendDirection d) (unat (dc_sendSequence d)) ([] @ [(q, c, take n ?piece)]) (unat (dc_sendSequence d'))"
      "int (length c) \<le> limit"
      using f by (auto simp only: res(2) append_Nil sealed_seq.simps)
    moreover have "drop off p = take n ?piece @ drop n (drop off p)" by (simp only: x append_take_drop_id)
    ultimately have "cut_frame r (dc_sendDirection d) (unat (dc_sendSequence d)) [] (unat (dc_sendSequence d')) limit send res p [take k (frame_bytes q c)]"
      unfolding cut_frame_def res(1) using fail(4) by blast
    with res Suc.prems sealFit_step [OF fail(3) Suc.prems(2,3)] show ?thesis
      by (intro exI [of _ "[]"] exI [of _ "[take k (frame_bytes q c)]"]) (auto simp: sender_step_def)
  qed (use Suc.prems in \<open>auto simp: writeLoop.simps sender_step_def intro!: exI [of _ "[]"] cut_frame_none\<close>)
qed

lemma sealFit_progress:
  assumes "sealFit d piece limit = (Inr (sequence, ciphertext, n), d')" and "piece \<noteq> []"
  shows "0 < n \<and> n \<le> length piece"
  using assms
proof (induction d piece limit rule: sealFit.induct)
  case (1 d piece limit)
  obtain q c d1 where s: "DataChannel_Seal d piece = (Inr (q, c), d1)"
    using "1.prems"(1) by (subst (asm) sealFit.simps) (auto split: prod.splits sum.splits)
  show ?case
  proof (cases "int (length c) \<le> limit")
    case True
    with "1.prems" s show ?thesis by (subst (asm) sealFit.simps) auto
  next
    case False
    then have r: "sealFit d1 (take (length piece div 2) piece) limit = (Inr (sequence, ciphertext, n), d')" "1 < length piece"
      using "1.prems"(1) s by (subst (asm) sealFit.simps, auto split: if_splits)+
    then have "take (length piece div 2) piece \<noteq> []" by auto
    with "1.IH" [OF s [symmetric] refl refl False _ r(1)] r(2) show ?thesis by auto
  qed
qed

text \<open>With a limit above 64 every round makes progress, so the write returns.\<close>

lemma writeLoop_returns:
  "64 < limit \<Longrightarrow> length p \<le> off + fuel \<Longrightarrow> \<exists>n err d' sent'. writeLoop fuel d p off limit send sent = (Returned (n, err), d', sent')"
proof (induction fuel arbitrary: d off sent)
  case 0
  then show ?case by (simp add: writeLoop.simps)
next
  case (Suc fuel)
  show ?case
  proof (cases "off \<ge> length p")
    case True
    then show ?thesis by (simp add: writeLoop.simps)
  next
    case False
    let ?piece = "take (nat (plaintextEnd p off limit) - off) (drop off p)"
    have e: "\<not> plaintextEnd p off limit < int off" "?piece \<noteq> []"
      using False Suc.prems(1) by (auto simp: plaintextEnd_def min_def)
    show ?thesis
    proof (cases "fst (sealFit d ?piece limit)")
      case (Inl err)
      with False e show ?thesis by (cases "sealFit d ?piece limit") (simp add: writeLoop.simps)
    next
      case (Inr qcn)
      then obtain q c n d1 where s: "sealFit d ?piece limit = (Inr (q, c, n), d1)"
        by (cases "sealFit d ?piece limit"; cases qcn) auto
      have "length p \<le> (off + n) + fuel" using sealFit_progress [OF s e(2)] Suc.prems(2) by linarith
      from Suc.IH [OF Suc.prems(1) this] s False e show ?thesis
        by (cases "send (length sent)") (auto simp: writeLoop.simps [of "Suc fuel" d p off])
    qed
  qed
qed

section \<open>Reading what was written\<close>

text \<open>Room in a budget, or no budget at all.\<close>

definition budget_room :: "byte_budget option \<Rightarrow> int \<Rightarrow> bool" where
  "budget_room b n \<longleftrightarrow> b = None \<or> (budget_inv b \<and> ByteBudget_Used b + n \<le> budget_limit b)"

lemma budget_reserve_release:
  assumes "budget_room b n" and "0 \<le> n"
  shows "\<exists>b'. ByteBudget_Reserve b n = (True, b') \<and> ByteBudget_Release b' n = Some b"
proof (cases b)
  case None
  then show ?thesis by (simp add: ByteBudget_Reserve_def ByteBudget_Release_def)
next
  case (Some bb)
  then have inv: "budget_inv b" "ByteBudget_Used b + n \<le> budget_limit b" using assms(1) by (auto simp: budget_room_def)
  then show ?thesis
    using Some assms(2) Reserve_cases [OF inv(1) assms(2)]
    by (auto simp: ByteBudget_Release_def ByteBudget_Used_def budget_limit_def budget_inv_def Let_def)
qed

lemma Write_room:
  assumes "recv_inv rb" and "\<not> rb_closed rb" and "rb_len rb + int (length data) \<le> rb_limit rb" and "budget_room b (int (length data) + m)" and "0 \<le> m"
  shows "\<exists>b'. RecvBuffer_Write rb b data = (None, rb\<lparr>rb_buf := rb_buf rb @ data\<rparr>, b') \<and> budget_room b' m"
proof -
  have w: "wrap64 (rb_limit rb - rb_len rb) = rb_limit rb - rb_len rb"
    using assms(1) rb_len_nonneg [of rb] unfolding recv_inv_def by (intro wrap64_id) linarith
  show ?thesis
  proof (cases b)
    case None
    with assms(2,3) w show ?thesis by (simp add: RecvBuffer_Write_def ByteBudget_Reserve_def budget_room_def)
  next
    case (Some bb)
    then have inv: "budget_inv b" "ByteBudget_Used b + (int (length data) + m) \<le> budget_limit b"
      using assms(4) by (auto simp: budget_room_def)
    obtain b' where b': "ByteBudget_Reserve b (int (length data)) = (True, b')"
      using bb.reserve_iff [OF inv(1), of "int (length data)"] inv(2) assms(5)
      by (cases "ByteBudget_Reserve b (int (length data))") auto
    with bb.reserve_ok [OF inv(1) _ b'] inv(2) assms(2,3) w show ?thesis
      by (auto simp: RecvBuffer_Write_def budget_room_def)
  qed
qed

lemma frame_bytes_parse:
  assumes "length ciphertext < 2 ^ 64"
  shows "be_get (take 8 (frame_bytes q ciphertext @ rest)) = length ciphertext"
    and "(of_nat (be_get (take 8 (drop 8 (frame_bytes q ciphertext @ rest)))) :: u64) = q"
    and "drop 8 (drop 8 (frame_bytes q ciphertext @ rest)) = ciphertext @ rest"
  using assms unsigned_less [of q, where 'a = nat] by (simp_all add: frame_bytes_def be_get_put)

definition reader_ok :: "codec \<Rightarrow> byte \<Rightarrow> nat \<Rightarrow> reader \<Rightarrow> bool" where
  "reader_ok e dir lo r \<longleftrightarrow> dc_receiveCodec (rd_channel r) = Some e \<and> dc_receiveDirection (rd_channel r) = dir \<and>
     (\<exists>A. window_inv (dc_receiveWindow (rd_channel r)) A \<and> (\<forall>a \<in> A. unat a \<le> lo)) \<and>
     recv_inv (rd_buf r) \<and> \<not> rb_closed (rd_buf r)"

lemma OpenFrame_next:
  assumes r: "reader_ok e dir lo r" and q: "lo < unat q" and o: "opens e dir q c x" and x: "1 + int (length x) \<le> maxFrameSize"
  shows "\<exists>d. DataChannel_OpenFrame (rd_channel r) q c maxFrameSize = (Inr (DataFrameApplication, x), d) \<and>
    reader_ok e dir (unat q) (r\<lparr>rd_channel := d\<rparr>)"
proof -
  obtain A where A: "dc_receiveCodec (rd_channel r) = Some e" "dc_receiveDirection (rd_channel r) = dir"
    "window_inv (dc_receiveWindow (rd_channel r)) A" "\<forall>a \<in> A. unat a \<le> lo"
    using r by (auto simp: reader_ok_def)
  have q0: "q \<noteq> 0" using q by auto
  have p: "passes A q" using A(4) q q0 by (fastforce simp: passes_def)
  have dec: "decodeWithDecryption e c aadDomainData (dataFrameContext (dc_receiveDirection (rd_channel r)) q) maxFrameSize =
      Inr (fst (frame_content (App x)) # snd (frame_content (App x)))"
    using o x A(2) by (simp add: opens_def)
  from OpenFrame_window [OF A(1,3) q0 dec] p obtain w where
    w: "DataChannel_OpenFrame (rd_channel r) q c maxFrameSize = (Inr (DataFrameApplication, x), (rd_channel r)\<lparr>dc_receiveWindow := w\<rparr>)"
      "window_inv w (insert q A)" by auto
  have "\<forall>a \<in> insert q A. unat a \<le> unat q" using A(4) q by fastforce
  with w r show ?thesis by (auto simp: reader_ok_def)
qed

lemma read_one_frame:
  assumes r: "reader_ok e dir lo r" and q: "lo < unat q" and o: "opens e dir q c x"
    and c: "int (length c) \<le> maxFrameSize" "maxFrameSize < 2 ^ 63"
    and room: "rb_len (rd_buf r) + int (length x) \<le> rb_limit (rd_buf r)" "budget_room (rd_budget r) (int (length c))"
      "budget_room (rd_budget r) (int (length x) + m)" "0 \<le> m"
  shows "\<exists>r'. readTransport_iter maxFrameSize True True now r (frame_bytes q c @ rest) = Some (True, r', rest) \<and>
    reader_ok e dir (unat q) r' \<and> rd_buf r' = (rd_buf r)\<lparr>rb_buf := rb_buf (rd_buf r) @ x\<rparr> \<and> budget_room (rd_budget r') m"
proof -
  let ?in = "frame_bytes q c @ rest"
  have x: "length x < length c" using o by (simp add: opens_def)
  have cb: "length c < 2 ^ 64" using le_less_trans [OF c] by simp
  note parse = frame_bytes_parse [OF cb, of q rest]
  obtain d where d: "DataChannel_OpenFrame (rd_channel r) q c maxFrameSize = (Inr (DataFrameApplication, x), d)"
    "reader_ok e dir (unat q) (r\<lparr>rd_channel := d\<rparr>)"
    using OpenFrame_next [OF r q o, of maxFrameSize] x c(1) by auto
  obtain b' where b': "ByteBudget_Reserve (rd_budget r) (int (length c)) = (True, b')" "ByteBudget_Release b' (int (length c)) = Some (rd_budget r)"
    using budget_reserve_release [OF room(2)] by auto
  obtain b'' where b'': "RecvBuffer_Write (rd_buf r) (rd_budget r) x = (None, (rd_buf r)\<lparr>rb_buf := rb_buf (rd_buf r) @ x\<rparr>, b'')" "budget_room b'' m"
    using Write_room [OF _ _ room(1,3,4)] r by (auto simp: reader_ok_def)
  have len: "\<not> length ?in < 8" "\<not> length (drop 8 ?in) < 8" by (simp_all add: frame_bytes_def)
  have "readTransport_iter maxFrameSize True True now r ?in =
      Some (True, r\<lparr>rd_channel := d, rd_buf := (rd_buf r)\<lparr>rb_buf := rb_buf (rd_buf r) @ x\<rparr>, rd_budget := b'', rd_lastRead := now\<rparr>, rest)"
    unfolding readTransport_iter_def DataFrameSequenceSize_def Let_def parse
    using len x c(1) d(1) b' b''(1) by (auto simp: channel_consts)
  moreover have "recv_inv ((rd_buf r)\<lparr>rb_buf := rb_buf (rd_buf r) @ x\<rparr>)"
    using r room(1) by (auto simp: reader_ok_def recv_inv_def rb_len_def)
  ultimately show ?thesis using d(2) b''(2) by (auto simp: reader_ok_def)
qed

lemma read_all_frames:
  "reader_ok e dir lo r \<Longrightarrow> sealed_seq e dir lo ts hi \<Longrightarrow> list_all (\<lambda>(q, c, x). int (length c) \<le> limit) ts \<Longrightarrow>
     0 \<le> limit \<Longrightarrow> limit \<le> maxFrameSize \<Longrightarrow> maxFrameSize < 2 ^ 63 \<Longrightarrow>
     rb_len (rd_buf r) + int (length (chunks ts)) \<le> rb_limit (rd_buf r) \<Longrightarrow>
     budget_room (rd_budget r) (int (length (chunks ts)) + limit) \<Longrightarrow>
     \<exists>r'. readTransport_loop (length ts + fuel) maxFrameSize now r (concat (wire ts) @ rest) = readTransport_loop fuel maxFrameSize now r' rest \<and>
       rb_buf (rd_buf r') = rb_buf (rd_buf r) @ chunks ts \<and> budget_room (rd_budget r') limit"
proof (induction ts arbitrary: lo r)
  case Nil
  then show ?case by auto
next
  case (Cons t ts)
  obtain q c x where t: "t = (q, c, x)" by (cases t) auto
  have "budget_room (rd_budget r) (int (length c))" "budget_room (rd_budget r) (int (length x) + (int (length (chunks ts)) + limit))"
    using Cons.prems(3,4,8) by (auto simp: t budget_room_def)
  with read_one_frame [of e dir lo r q c x maxFrameSize "int (length (chunks ts)) + limit" now "concat (wire ts) @ rest"] Cons.prems
  obtain r1 where r1: "readTransport_iter maxFrameSize True True now r (frame_bytes q c @ concat (wire ts) @ rest) = Some (True, r1, concat (wire ts) @ rest)"
    "reader_ok e dir (unat q) r1" "rd_buf r1 = (rd_buf r)\<lparr>rb_buf := rb_buf (rd_buf r) @ x\<rparr>"
    "budget_room (rd_budget r1) (int (length (chunks ts)) + limit)"
    by (auto simp: t)
  from Cons.IH [OF r1(2)] Cons.prems r1 show ?case
    by (auto simp: t rb_len_def)
qed

text \<open>A frame that is cut off ends the loop and adds nothing to the buffer.\<close>

lemma read_torn:
  assumes b: "budget_room (rd_budget r) (int (length c))" and k: "k < length (frame_bytes q c)" and c: "length c < 2 ^ 64"
  shows "\<exists>r' left. readTransport_iter maxFrameSize True True now r (take k (frame_bytes q c)) = Some (False, r', left) \<and> rd_buf r' = rd_buf r"
proof (cases "k < 16")
  case True
  then show ?thesis using k by (auto simp: readTransport_iter_def DataFrameSequenceSize_def frame_bytes_def Let_def)
next
  case False
  let ?in = "take k (frame_bytes q c)"
  obtain b' where b': "ByteBudget_Reserve (rd_budget r) (int (length c)) = (True, b')" "ByteBudget_Release b' (int (length c)) = Some (rd_budget r)"
    using budget_reserve_release [OF b] by auto
  have p: "be_get (take 8 ?in) = length c" using frame_bytes_parse(1) [OF c, of q "[]"] False by (simp add: min_def)
  have len: "length ?in = k" "k < 16 + length c" using k by (simp_all add: frame_bytes_def)
  show ?thesis
    unfolding readTransport_iter_def DataFrameSequenceSize_def Let_def p using len False b' by auto
qed

text \<open>What a reader makes of complete frames and the torn one at their end.\<close>

lemma read_wire:
  assumes r: "reader_ok e dir lo r" and ts: "sealed_seq e dir lo ts hi" "list_all (\<lambda>(q, c, x). int (length c) \<le> limit) ts"
    and l: "0 \<le> limit" "limit \<le> maxFrameSize" "maxFrameSize < 2 ^ 63"
    and torn: "tail = [] \<and> x = [] \<or> (\<exists>q c k. tail = take k (frame_bytes q c) \<and> sealed_seq e dir lo (ts @ [(q, c, x)]) hi \<and> int (length c) \<le> limit)"
    and room: "rb_len (rd_buf r) + int (length (chunks ts @ x)) \<le> rb_limit (rd_buf r)" "budget_room (rd_budget r) (int (length (chunks ts @ x)) + limit)"
  shows "\<exists>r' left y. readTransport_loop (Suc (Suc (length ts))) maxFrameSize now r (concat (wire ts) @ tail) = Returned (r', left) \<and>
    rb_buf (rd_buf r') = rb_buf (rd_buf r) @ chunks ts @ y \<and> (y = [] \<or> y = x)"
proof -
  have app: "wire (ts @ us) = wire ts @ wire us" "chunks (ts @ us) = chunks ts @ chunks us" for us by (simp_all add: wire_def chunks_def)
  have eof: "readTransport_loop (Suc n) maxFrameSize now r [] = Returned (r, [])" for n r by (simp add: readTransport_iter_def)
  have room': "rb_len (rd_buf r) + int (length (chunks ts)) \<le> rb_limit (rd_buf r)" "budget_room (rd_budget r) (int (length (chunks ts)) + limit)"
    using room by (auto simp: budget_room_def)
  from torn consider "tail = []"
    | q c k where "tail = take k (frame_bytes q c)" "k < length (frame_bytes q c)" "int (length c) \<le> limit"
    | q c where "tail = frame_bytes q c" "sealed_seq e dir lo (ts @ [(q, c, x)]) hi" "int (length c) \<le> limit"
    by (metis not_less take_all)
  then show ?thesis
  proof cases
    case 1
    from read_all_frames [OF r ts l room', of "Suc (Suc 0)" now "[]"] obtain r' where
      "readTransport_loop (length ts + Suc (Suc 0)) maxFrameSize now r (concat (wire ts) @ []) = readTransport_loop (Suc (Suc 0)) maxFrameSize now r' []"
      "rb_buf (rd_buf r') = rb_buf (rd_buf r) @ chunks ts" by blast
    with 1 eof [of "Suc 0" r'] show ?thesis by (intro exI [of _ r'] exI [of _ "[]"]) simp
  next
    case (2 q c k)
    from read_all_frames [OF r ts l room', of "Suc (Suc 0)" now tail] obtain r' where r':
      "readTransport_loop (length ts + Suc (Suc 0)) maxFrameSize now r (concat (wire ts) @ tail) = readTransport_loop (Suc (Suc 0)) maxFrameSize now r' tail"
      "rb_buf (rd_buf r') = rb_buf (rd_buf r) @ chunks ts" "budget_room (rd_budget r') limit" by blast
    have "budget_room (rd_budget r') (int (length c))" using r'(3) 2(3) by (auto simp: budget_room_def)
    moreover have "length c < 2 ^ 64" using 2(3) l by simp
    ultimately obtain r'' left where "readTransport_iter maxFrameSize True True now r' tail = Some (False, r'', left)" "rd_buf r'' = rd_buf r'"
      using read_torn [OF _ 2(2), of r' maxFrameSize now] 2(1) by blast
    with r' show ?thesis by (intro exI [of _ r''] exI [of _ left] exI [of _ "[]"]) simp
  next
    case (3 q c)
    have l3: "list_all (\<lambda>(q, c, x). int (length c) \<le> limit) (ts @ [(q, c, x)])" using ts(2) 3(3) by simp
    have "rb_len (rd_buf r) + int (length (chunks (ts @ [(q, c, x)]))) \<le> rb_limit (rd_buf r)"
      "budget_room (rd_budget r) (int (length (chunks (ts @ [(q, c, x)]))) + limit)" using room by (simp_all add: app)
    from read_all_frames [OF r 3(2) l3 l this, of "Suc 0" now "[]"] obtain r' where
      "readTransport_loop (length (ts @ [(q, c, x)]) + Suc 0) maxFrameSize now r (concat (wire (ts @ [(q, c, x)])) @ []) =
         readTransport_loop (Suc 0) maxFrameSize now r' []"
      "rb_buf (rd_buf r') = rb_buf (rd_buf r) @ chunks (ts @ [(q, c, x)])" by blast
    with 3(1) eof [of 0 r'] show ?thesis by (intro exI [of _ r'] exI [of _ "[]"] exI [of _ x]) (simp add: app)
  qed
qed

section \<open>End to end\<close>

lemma readTransport_loop_mono:
  "readTransport_loop fuel m now r input = Returned y \<Longrightarrow> fuel \<le> fuel' \<Longrightarrow> readTransport_loop fuel' m now r input = Returned y"
proof (induction fuel arbitrary: r input fuel')
  case (Suc fuel)
  then obtain f where "fuel' = Suc f" "fuel \<le> f" by (cases fuel') auto
  with Suc show ?case by (auto split: option.splits bool.splits)
qed simp

text \<open>A sequence of writes on one connection; \<open>sends i\<close> tells how the transport fails during the \<open>i\<close>-th.\<close>

fun write_run :: "write_state \<Rightarrow> int \<Rightarrow> (nat \<Rightarrow> nat \<Rightarrow> (nat \<times> go_error) option) \<Rightarrow> bytes list \<Rightarrow> ((nat \<times> go_error option) outcome \<times> bytes list) list" where
  "write_run w limit sends [] = []"
| "write_run w limit sends (p # ps) =
     (case Connection_Write (length p) w limit (sends 0) p of
        (res, w', frames) \<Rightarrow> (res, frames) # write_run w' limit (\<lambda>i. sends (Suc i)) ps)"

definition writable :: "codec \<Rightarrow> write_state \<Rightarrow> data_channel \<Rightarrow> bool" where
  "writable r w d \<longleftrightarrow> ws_transport w \<and> ws_open w \<and> \<not> ws_timedOut w \<and> ws_channel w = Some d \<and>
     (\<exists>e. dc_sendCodec d = Some e \<and> codec_match e r)"

lemma Write_frames:
  assumes w: "writable r w d" and l: "64 < limit"
  shows "\<exists>n err d' ts torn. Connection_Write (length p) w limit send p = (Returned (n, err), w\<lparr>ws_channel := Some d'\<rparr>, wire ts @ torn) \<and>
    cut_frame r (dc_sendDirection d) (unat (dc_sendSequence d)) ts (unat (dc_sendSequence d')) limit send (Returned (n, err)) p torn \<and>
    writable r (w\<lparr>ws_channel := Some d'\<rparr>) d' \<and> dc_sendDirection d' = dc_sendDirection d \<and>
    sealed_seq r (dc_sendDirection d) (unat (dc_sendSequence d)) ts (unat (dc_sendSequence d')) \<and>
    list_all (\<lambda>(q, c, x). int (length c) \<le> limit) ts \<and> n \<le> length p \<and> chunks ts = take n p \<and> (err = None \<longrightarrow> n = length p)"
proof -
  obtain e where e: "dc_sendCodec d = Some e" "codec_match e r" and c: "ws_channel w = Some d"
    using w by (auto simp: writable_def)
  show ?thesis
  proof (cases "p = []")
    case True
    have "w\<lparr>ws_channel := Some d\<rparr> = w" using c by simp
    with True w c show ?thesis
      by (intro exI [of _ 0] exI [of _ None] exI [of _ d] exI [of _ "[]"]) (simp add: Connection_Write_def writable_def cut_frame_none)
  next
    case False
    from writeLoop_returns [OF l, of p 0 "length p"] obtain n err d' sent where
      lp: "writeLoop (length p) d p 0 limit send [] = (Returned (n, err), d', sent)" by fastforce
    from writeLoop_frames [OF lp e] obtain ts torn where ts: "sent = wire ts @ torn"
      "cut_frame r (dc_sendDirection d) (unat (dc_sendSequence d)) ts (unat (dc_sendSequence d')) limit send (Returned (n, err)) p torn"
      "sealed_seq r (dc_sendDirection d) (unat (dc_sendSequence d)) ts (unat (dc_sendSequence d'))" "sender_step r d d'"
      "list_all (\<lambda>(q, c, x). int (length c) \<le> limit) ts" "n \<le> length p" "chunks ts = take n p" "err = None \<longrightarrow> n = length p"
      by auto
    have "Connection_Write (length p) w limit send p = (Returned (n, err), w\<lparr>ws_channel := Some d'\<rparr>, wire ts @ torn)"
      using w c False lp ts(1) by (simp add: Connection_Write_def writable_def)
    with ts(2-) w show ?thesis
      by (intro exI [of _ n] exI [of _ err] exI [of _ d'] exI [of _ ts] exI [of _ torn]) (auto simp: writable_def sender_step_def)
  qed
qed

text \<open>
  The bytes on the wire after a sequence of writes: complete frames with the bytes reported as written, and at the end, if the last write
  failed, the torn frame of the chunk \<open>x\<close> that it was sending.
\<close>

definition on_wire :: "codec \<Rightarrow> byte \<Rightarrow> nat \<Rightarrow> int \<Rightarrow> ((nat \<times> go_error option) \<times> bytes list) list \<Rightarrow> bytes list \<Rightarrow> (u64 \<times> bytes \<times> bytes) list \<Rightarrow> bytes \<Rightarrow> bytes \<Rightarrow> nat \<Rightarrow> bool" where
  "on_wire e dir lo limit outs ps ts tail x hi \<longleftrightarrow>
     concat (concat (map snd outs)) = concat (wire ts) @ tail \<and> length ts \<le> length (concat (map snd outs)) \<and> sealed_seq e dir lo ts hi \<and>
     list_all (\<lambda>(q, c, x). int (length c) \<le> limit) ts \<and> chunks ts = concat (map2 (\<lambda>((n, err), frames) p. take n p) outs ps) \<and>
     list_all2 (\<lambda>((n, err), frames) p. n \<le> length p \<and> (err = None \<longrightarrow> n = length p)) outs ps \<and>
     (tail = [] \<and> x = [] \<or>
      (\<exists>q c k n err more. tail = take k (frame_bytes q c) \<and> sealed_seq e dir lo (ts @ [(q, c, x)]) hi \<and> int (length c) \<le> limit \<and>
         outs \<noteq> [] \<and> fst (last outs) = (n, Some err) \<and> drop n (last ps) = x @ more))"

lemma on_wire_Cons:
  assumes o: "on_wire e dir mid limit outs ps us tail x hi" and ne: "outs \<noteq> []"
    and ts: "sealed_seq e dir lo ts mid" "list_all (\<lambda>(q, c, x). int (length c) \<le> limit) ts" "chunks ts = take n p" "n \<le> length p \<and> (err = None \<longrightarrow> n = length p)"
    and torn: "concat torn = []"
  shows "on_wire e dir lo limit (((n, err), wire ts @ torn) # outs) (p # ps) (ts @ us) tail x hi"
proof -
  have app: "wire (ts @ us) = wire ts @ wire us" "chunks (ts @ us) = chunks ts @ chunks us" "length (wire ts) = length ts" by (simp_all add: wire_def chunks_def)
  have l: "last (((n, err), wire ts @ torn) # outs) = last outs" "last (p # ps) = last ps"
    using o ne by (auto simp: on_wire_def)
  have last: "tail = [] \<and> x = [] \<or>
      (\<exists>q c k m err' more. tail = take k (frame_bytes q c) \<and> sealed_seq e dir lo ((ts @ us) @ [(q, c, x)]) hi \<and> int (length c) \<le> limit \<and>
         ((n, err), wire ts @ torn) # outs \<noteq> [] \<and> fst (last (((n, err), wire ts @ torn) # outs)) = (m, Some err') \<and> drop m (last (p # ps)) = x @ more)"
    if "tail = [] \<and> x = [] \<or>
      (\<exists>q c k n err more. tail = take k (frame_bytes q c) \<and> sealed_seq e dir mid (us @ [(q, c, x)]) hi \<and> int (length c) \<le> limit \<and>
         outs \<noteq> [] \<and> fst (last outs) = (n, Some err) \<and> drop n (last ps) = x @ more)"
    unfolding l append_assoc using that sealed_seq_append [OF ts(1)] by blast
  show ?thesis
    using o ts torn sealed_seq_append [OF ts(1)] last unfolding on_wire_def by (intro conjI) (simp_all add: app)
qed

lemma write_run_frames:
  assumes "writable r w d" and "64 < limit" and "\<forall>i k n err. Suc i < length ps \<longrightarrow> sends i k = Some (n, err) \<longrightarrow> n = 0"
  shows "\<exists>outs ts tail x hi. write_run w limit sends ps = map (\<lambda>((n, err), frames). (Returned (n, err), frames)) outs \<and>
    on_wire r (dc_sendDirection d) (unat (dc_sendSequence d)) limit outs ps ts tail x hi"
  using assms
proof (induction ps arbitrary: w d sends)
  case Nil
  then show ?case by (intro exI [of _ "[]"] exI [of _ "unat (dc_sendSequence d)"]) (simp add: on_wire_def)
next
  case (Cons p ps)
  from Write_frames [OF Cons.prems(1,2), of p "sends 0"] obtain n err d' ts torn where
    w: "Connection_Write (length p) w limit (sends 0) p = (Returned (n, err), w\<lparr>ws_channel := Some d'\<rparr>, wire ts @ torn)"
      "cut_frame r (dc_sendDirection d) (unat (dc_sendSequence d)) ts (unat (dc_sendSequence d')) limit (sends 0) (Returned (n, err)) p torn"
      "writable r (w\<lparr>ws_channel := Some d'\<rparr>) d'" "dc_sendDirection d' = dc_sendDirection d"
      "sealed_seq r (dc_sendDirection d) (unat (dc_sendSequence d)) ts (unat (dc_sendSequence d'))"
      "list_all (\<lambda>(q, c, x). int (length c) \<le> limit) ts" "n \<le> length p" "chunks ts = take n p" "err = None \<longrightarrow> n = length p"
    by blast
  have lw: "length (wire us) = length us" for us by (simp add: wire_def)
  show ?case
  proof (cases ps)
    case Nil
    obtain x where "concat torn = [] \<and> x = [] \<or> (\<exists>q c k err' more. concat torn = take k (frame_bytes q c) \<and>
        sealed_seq r (dc_sendDirection d) (unat (dc_sendSequence d)) (ts @ [(q, c, x)]) (unat (dc_sendSequence d')) \<and> int (length c) \<le> limit \<and>
        err = Some err' \<and> drop n p = x @ more)"
    proof (cases "torn = []")
      case False
      then obtain q c x k err' more where "torn = [take k (frame_bytes q c)]"
        "sealed_seq r (dc_sendDirection d) (unat (dc_sendSequence d)) (ts @ [(q, c, x)]) (unat (dc_sendSequence d'))" "int (length c) \<le> limit"
        "err = Some err'" "drop n p = x @ more"
        using w(2) unfolding cut_frame_def by auto
      then have "concat torn = take k (frame_bytes q c)" by simp
      then show thesis using that [of x] \<open>int (length c) \<le> limit\<close> \<open>err = Some err'\<close> \<open>drop n p = x @ more\<close>
          \<open>sealed_seq r (dc_sendDirection d) (unat (dc_sendSequence d)) (ts @ [(q, c, x)]) (unat (dc_sendSequence d'))\<close> by blast
    qed (use that [of "[]"] in simp)
    then have "on_wire r (dc_sendDirection d) (unat (dc_sendSequence d)) limit [((n, err), wire ts @ torn)] [p] ts (concat torn) x (unat (dc_sendSequence d'))"
      unfolding on_wire_def using w(5-) by (auto simp: lw)
    then show ?thesis using w(1) Nil by (intro exI [of _ "[((n, err), wire ts @ torn)]"]) auto
  next
    case (Cons p' ps')
    have torn: "concat torn = []"
      using w(2) Cons.prems(3) unfolding cut_frame_def local.Cons by (metis Suc_less_eq concat.simps length_Cons take0 append_Nil zero_less_Suc)
    have "\<forall>i k n err. Suc i < length ps \<longrightarrow> sends (Suc i) k = Some (n, err) \<longrightarrow> n = 0" using Cons.prems(3) by auto
    from Cons.IH [OF w(3) Cons.prems(2) this] obtain outs us tail x hi where o:
      "write_run (w\<lparr>ws_channel := Some d'\<rparr>) limit (\<lambda>i. sends (Suc i)) ps = map (\<lambda>((n, err), frames). (Returned (n, err), frames)) outs"
      "on_wire r (dc_sendDirection d') (unat (dc_sendSequence d')) limit outs ps us tail x hi" by blast
    have ne: "outs \<noteq> []" using o(1) by (cases outs) (auto simp: local.Cons split: prod.splits)
    have "on_wire r (dc_sendDirection d) (unat (dc_sendSequence d)) limit (((n, err), wire ts @ torn) # outs) (p # ps) (ts @ us) tail x hi"
      using on_wire_Cons [OF o(2) ne _ w(6,8) _ torn] w(4,5,7,9) by simp
    then show ?thesis using w(1) o(1) by (intro exI [of _ "((n, err), wire ts @ torn) # outs"]) auto
  qed
qed

lemma on_wire_length:
  assumes "on_wire e dir lo limit outs ps ts tail x hi"
  shows "length (concat (map2 (\<lambda>((n, err), frames) p. take n p) outs ps) @ x) \<le> sum_list (map length ps)"
proof (cases "x = []")
  case True
  have "length outs = length ps" using assms by (auto simp: on_wire_def dest: list_all2_lengthD)
  then show ?thesis using True by (simp, induction outs ps rule: list_induct2) auto
next
  case False
  then obtain n err more where l: "outs \<noteq> []" "fst (last outs) = (n, Some err)" "drop n (last ps) = x @ more"
    and len: "length outs = length ps" using assms by (auto simp: on_wire_def dest: list_all2_lengthD)
  have "length x \<le> length (last ps) - n" using arg_cong [OF l(3), of length] by simp
  with len l(1,2) show ?thesis
  proof (induction outs ps rule: list_induct2)
    case (Cons y ys p ps)
    then show ?case by (cases ys; cases ps; cases y) auto
  qed simp
qed

lemma NewDataChannel_reader:
  assumes "dc_receiveCodec d = Some e" and "dc_receiveWindow d = ReplayWindow_zero" and "0 < bufLimit" and "bufLimit < 2 ^ 63"
  shows "reader_ok e (dc_receiveDirection d) 0
    \<lparr>rd_channel = d, rd_buf = NewRecvBufferWithLimit bufLimit, rd_budget = b, rd_lastRead = t\<rparr>"
  using assms window_inv_zero recv_inv_new [OF assms(4)]
  by (auto simp: reader_ok_def NewRecvBufferWithLimit_def)

text \<open>
  C7. Bytes written on one end are the bytes received on the other. Two ends of a session are set up
  with the same parameters and opposite roles; one writes any sequence of byte strings over a transport whose writes may fail. A failing
  write of the transport may have put any part of its frame on the wire during the last Write; before that it put nothing there.
  Every Write returns, with a count of at most its length, and without an error only if everything was written. The stream reader of the
  other end, with room for the data in its buffer and in the shared budget, reads to the end of the stream without a panic, and then its buffer
  holds the bytes that the writes reported as written, in order, followed by nothing or, if the last Write failed, by data of
  that Write that comes next. The frame limit must exceed 64 bytes.
\<close>

theorem Write_Read_stream:
  assumes "lib_ok L" and "opposite role role'"
    and "NewDataChannel L rnd1 rnd2 typ key aad role = Inr c" and "NewDataChannel L rnd3 rnd4 typ key aad role' = Inr d"
    and "64 < limit" "limit \<le> maxFrameSize" "maxFrameSize < 2 ^ 63"
    and "int (sum_list (map length ps)) \<le> bufLimit" "0 < bufLimit" "bufLimit < 2 ^ 63"
    and "int (sum_list (map length ps)) + limit \<le> cap" "cap < 2 ^ 63"
    and torn: "\<forall>i k n err. Suc i < length ps \<longrightarrow> sends i k = Some (n, err) \<longrightarrow> n = 0"
  shows "\<exists>outs r' left more. write_run \<lparr>ws_transport = True, ws_channel = Some c, ws_open = True, ws_timedOut = False\<rparr> limit sends ps =
      map (\<lambda>((n, err), frames). (Returned (n, err), frames)) outs \<and>
    list_all2 (\<lambda>((n, err), frames) p. n \<le> length p \<and> (err = None \<longrightarrow> n = length p)) outs ps \<and>
    readTransport_loop (Suc (Suc (length (concat (map snd outs))))) maxFrameSize now
      \<lparr>rd_channel = d, rd_buf = NewRecvBufferWithLimit bufLimit, rd_budget = Some (NewByteBudget cap), rd_lastRead = t\<rparr>
      (concat (concat (map snd outs))) = Returned (r', left) \<and>
    rb_buf (rd_buf r') = concat (map2 (\<lambda>((n, err), frames) p. take n p) outs ps) @ more \<and>
    (more \<noteq> [] \<longrightarrow> (\<exists>n err rest. fst (last outs) = (n, Some err) \<and> drop n (last ps) = more @ rest))"
proof -
  let ?w = "\<lparr>ws_transport = True, ws_channel = Some c, ws_open = True, ws_timedOut = False\<rparr>"
  let ?r = "\<lparr>rd_channel = d, rd_buf = NewRecvBufferWithLimit bufLimit, rd_budget = Some (NewByteBudget cap), rd_lastRead = t\<rparr>"
  obtain e e' where m: "dc_sendCodec c = Some e" "dc_receiveCodec d = Some e'" "codec_match e e'"
    "dc_sendDirection c = dc_receiveDirection d" "dc_sendSequence c = 0" "dc_receiveWindow d = ReplayWindow_zero"
    using NewDataChannel_match [OF assms(1-4)] by (auto simp: data_linked_def)
  have "writable e' ?w c" using m by (simp add: writable_def)
  from write_run_frames [OF this assms(5) torn] obtain outs ts tail x hi where
    o: "write_run ?w limit sends ps = map (\<lambda>((n, err), frames). (Returned (n, err), frames)) outs"
      "on_wire e' (dc_receiveDirection d) 0 limit outs ps ts tail x hi"
    using m(4,5) by auto
  let ?reported = "concat (map2 (\<lambda>((n, err), frames) p. take n p) outs ps)"
  have len: "length (?reported @ x) \<le> sum_list (map length ps)" by (rule on_wire_length [OF o(2)])
  have room: "rb_len (rd_buf ?r) + int (length (chunks ts @ x)) \<le> rb_limit (rd_buf ?r)" "budget_room (rd_budget ?r) (int (length (chunks ts @ x)) + limit)"
    using len o(2) assms(5,8-12)
    by (auto simp: on_wire_def NewRecvBufferWithLimit_def rb_len_def budget_room_def budget_inv_def NewByteBudget_def ByteBudget_Used_def budget_limit_def)
  have rd: "reader_ok e' (dc_receiveDirection d) 0 ?r" by (rule NewDataChannel_reader [OF m(2,6) assms(9,10)])
  have ts: "sealed_seq e' (dc_receiveDirection d) 0 ts hi" "list_all (\<lambda>(q, c, x). int (length c) \<le> limit) ts" "length ts \<le> length (concat (map snd outs))"
    "tail = [] \<and> x = [] \<or> (\<exists>q c k. tail = take k (frame_bytes q c) \<and> sealed_seq e' (dc_receiveDirection d) 0 (ts @ [(q, c, x)]) hi \<and> int (length c) \<le> limit)"
    using o(2) unfolding on_wire_def by blast+
  from read_wire [OF rd ts(1,2) _ assms(6,7) ts(4) room, of now] assms(5) obtain r' left y where
    r': "readTransport_loop (Suc (Suc (length ts))) maxFrameSize now ?r (concat (wire ts) @ tail) = Returned (r', left)"
      "rb_buf (rd_buf r') = rb_buf (rd_buf ?r) @ chunks ts @ y" "y = [] \<or> y = x" by auto
  have "readTransport_loop (Suc (Suc (length (concat (map snd outs))))) maxFrameSize now ?r (concat (concat (map snd outs))) = Returned (r', left)"
    using readTransport_loop_mono [OF r'(1), of "Suc (Suc (length (concat (map snd outs))))"] ts(3) o(2) by (simp add: on_wire_def)
  moreover have "rb_buf (rd_buf r') = ?reported @ y" using r'(2) o(2) by (simp add: on_wire_def NewRecvBufferWithLimit_def)
  moreover have "y \<noteq> [] \<longrightarrow> (\<exists>n err rest. fst (last outs) = (n, Some err) \<and> drop n (last ps) = y @ rest)"
    using r'(3) o(2) unfolding on_wire_def by metis
  moreover have "list_all2 (\<lambda>((n, err), frames) p. n \<le> length p \<and> (err = None \<longrightarrow> n = length p)) outs ps" using o(2) by (simp add: on_wire_def)
  ultimately show ?thesis using o(1) by (intro exI [of _ outs] exI [of _ r'] exI [of _ left] exI [of _ y]) blast
qed

theorem Write_Read_stream_witness:
  "\<exists>c d outs r' left more. NewDataChannel sum_lib zero_random zero_random ASCON_128A [5] [] DataRoleClient = Inr c \<and>
     NewDataChannel sum_lib zero_random zero_random ASCON_128A [5] [] DataRoleServer = Inr d \<and>
     write_run \<lparr>ws_transport = True, ws_channel = Some c, ws_open = True, ws_timedOut = False\<rparr> 1100
       (\<lambda>i _. if i = 1 then Some (20, ErrDeadlineExceeded) else None) [[1, 2, 3], [4]] =
       map (\<lambda>((n, err), frames). (Returned (n, err), frames)) outs \<and>
     readTransport_loop (Suc (Suc (length (concat (map snd outs))))) 4096 7
       \<lparr>rd_channel = d, rd_buf = NewRecvBufferWithLimit 4096, rd_budget = Some (NewByteBudget 8192), rd_lastRead = 0\<rparr>
       (concat (concat (map snd outs))) = Returned (r', left) \<and>
     rb_buf (rd_buf r') = concat (map2 (\<lambda>((n, err), frames) p. take n p) outs [[1, 2, 3], [4]]) @ more"
proof -
  note defs = NewDataChannel_def deriveDataKey_def NewCodec_def createEncryptKit_def NewAscon128a_def withNonceSource_def newNonceSource_def
    sum_lib_def symbolic_lib_def crypto_lib.defs sum_aead_def nonceCounterSize_def zero_random_def Let_def channel_consts
    AES_256_GCM_def ASCON_128A_def
  obtain c where c: "NewDataChannel sum_lib zero_random zero_random ASCON_128A [5] [] DataRoleClient = Inr c" by (simp add: defs)
  obtain d where d: "NewDataChannel sum_lib zero_random zero_random ASCON_128A [5] [] DataRoleServer = Inr d" by (simp add: defs)
  have "opposite DataRoleClient DataRoleServer" by (simp add: opposite_def)
  from Write_Read_stream [OF sum_lib_ok this c d, of 1100 4096 "[[1, 2, 3], [4]]" 4096 8192
      "\<lambda>i _. if i = 1 then Some (20, ErrDeadlineExceeded) else None" 7 0] c d show ?thesis
    by fastforce
qed

text \<open>
  Below a limit of 64 bytes, which a transport outside this repository may impose, the first
  slice expression of a write panics; at exactly 64 the loop never ends.
\<close>

lemma Write_small_limit:
  assumes "p \<noteq> []" and "limit < 64"
  shows "writeLoop (Suc fuel) d p 0 limit send [] = (Panicked, d, [])"
  using assms by (simp add: writeLoop.simps plaintextEnd_def)

lemma writeLoop_count:
  "writeLoop fuel d p off limit send sent = (Returned (n, err), d', sent') \<Longrightarrow> n \<le> length p \<and> (err = None \<longrightarrow> n = length p)"
proof (induction fuel arbitrary: d off sent n err d' sent')
  case 0
  then show ?case by (subst (asm) writeLoop.simps) (auto split: if_split_asm)
next
  case (Suc fuel)
  let ?piece = "take (nat (plaintextEnd p off limit) - off) (drop off p)"
  consider "off \<ge> length p" | "off < length p" "err \<noteq> None" "n = off"
    | q c k d1 where "writeLoop fuel d1 p (off + k) limit send (sent @ [frame_bytes q c]) = (Returned (n, err), d', sent')"
    using Suc.prems unfolding writeLoop.simps [of "Suc fuel" d p off]
    by (auto split: if_split_asm prod.split_asm sum.split_asm option.split_asm)
  then show ?case
  proof cases
    case 1
    with Suc.prems show ?thesis by (simp add: writeLoop.simps)
  qed (use Suc.IH in auto)
qed

text \<open>
  C18. Write ends. On whatever connection, with whatever data and however the transport fails, a
  Write needs at most as many rounds as there are bytes, if the frame limit is not exactly 64. Above 64 it
  returns, with a count that is within the data and complete if there is no error; it panics only
  below 64.
\<close>

theorem Write_terminates:
  assumes "limit \<noteq> 64"
  shows "\<exists>r c' sent. Connection_Write (length p) c limit send p = (r, c', sent) \<and> r \<noteq> Running \<and> (r = Panicked \<longrightarrow> limit < 64) \<and>
    (\<forall>n err. r = Returned (n, err) \<longrightarrow> n \<le> length p \<and> (err = None \<longrightarrow> n = length p))"
proof -
  have loop: "\<exists>r d' sent. writeLoop (length p) d p 0 limit send [] = (r, d', sent) \<and> r \<noteq> Running \<and> (r = Panicked \<longrightarrow> limit < 64)"
    if ne: "p \<noteq> []" for d
  proof (cases "limit < 64")
    case True
    obtain fuel where "length p = Suc fuel" using ne by (cases p) auto
    with Write_small_limit [OF ne True] True show ?thesis by simp
  next
    case False
    then have "64 < limit" using assms by simp
    from writeLoop_returns [OF this, of p 0 "length p" d send "[]"] show ?thesis by fastforce
  qed
  show ?thesis
  proof (cases "ws_channel c")
    case None
    then show ?thesis by (simp add: Connection_Write_def)
  next
    case (Some d)
    show ?thesis
    proof (cases "p = []")
      case True
      with Some show ?thesis by (simp add: Connection_Write_def)
    next
      case False
      from loop [OF this, of d] obtain r d' sent where w: "writeLoop (length p) d p 0 limit send [] = (r, d', sent)" "r \<noteq> Running"
        "r = Panicked \<longrightarrow> limit < 64" by blast
      have "\<forall>n err. r = Returned (n, err) \<longrightarrow> n \<le> length p \<and> (err = None \<longrightarrow> n = length p)"
        using writeLoop_count w(1) by blast
      with w False Some show ?thesis by (simp add: Connection_Write_def)
    qed
  qed
qed

theorem Write_terminates_witness:
  "\<exists>d r c' sent. NewDataChannel sum_lib zero_random zero_random ASCON_128A [5] [] DataRoleClient = Inr d \<and>
     Connection_Write 3 \<lparr>ws_transport = True, ws_channel = Some d, ws_open = True, ws_timedOut = False\<rparr> 1024
       (\<lambda>_. Some (0, ErrClosedPipe)) [1, 2, 3] = (r, c', sent) \<and> r \<noteq> Running \<and> r \<noteq> Panicked"
proof -
  obtain d where d: "NewDataChannel sum_lib zero_random zero_random ASCON_128A [5] [] DataRoleClient = Inr d"
    by (simp add: NewDataChannel_def deriveDataKey_def NewCodec_def createEncryptKit_def NewAscon128a_def withNonceSource_def
      newNonceSource_def sum_lib_def symbolic_lib_def crypto_lib.defs sum_aead_def nonceCounterSize_def zero_random_def Let_def
      channel_consts AES_256_GCM_def ASCON_128A_def)
  with Write_terminates [of 1024 "[1, 2, 3]" "\<lparr>ws_transport = True, ws_channel = Some d, ws_open = True, ws_timedOut = False\<rparr>"
      "\<lambda>_. Some (0, ErrClosedPipe)"] show ?thesis by (auto simp: eval_nat_numeral)
qed

end
