(* ===== verification/Server_State.thy ===== *)
theory Server_State
  imports Config Data_Channel Transport_IO
begin

text \<open>
  The state of a server and its connections (peer/server/types.go) and the operations on it:
  the limits and leases (limits.go), closing (close.go), the table of connections and the
  ownership of agents and transports (conn.go), addresses and deadlines, accepting (listener.go)
  and creating a server (new.go).

  Connections are objects that several goroutines and the table share, so they live in a store:
  \<open>sv_heap\<close> lists the connections ever created and a pointer is an index into it. ICE agents and
  transports are handles, numbers that are compared and closed. Their closing and the callbacks are recorded
  in \<open>sv_log\<close>. A connection's owner is never nil here: every connection is
  created by the server that holds it.
\<close>

section \<open>Connections and servers (types.go)\<close>

datatype once_state = OnceFresh | OnceRunning | OnceDone

record connection =
  cn_sourceId :: string
  cn_codec :: signaling_channel
  cn_handshakeCodec :: codec
  cn_sessionSalt :: bytes
  cn_clientNonce :: bytes
  cn_serverNonce :: bytes
  cn_clientEphemeralKey :: bytes
  cn_serverEphemeralKey :: bytes
  cn_transportConn :: "nat option"
  cn_dataChannel :: "data_channel option"
  cn_lastTransportRead :: int
  cn_established :: bool
  cn_closed :: bool
  cn_iceAgent :: "nat option"
  cn_localAddr :: addr
  cn_remoteAddr :: addr
  cn_selectedTransport :: string
  cn_transportMaxFrameSize :: int
  cn_pendingICEOffer :: "ice_description option"
  cn_recvBuf :: recv_buffer
  cn_signalSend :: u64
  cn_signalRecv :: replay_window
  cn_serverId :: string
  cn_roomId :: string
  cn_writeDeadline :: "int option"
  cn_pendingLease :: bool
  cn_totalLease :: bool
  cn_handshakeTimer :: bool
  cn_closeOnce :: once_state
  cn_closeErr :: "go_error option"

datatype server_event =
    TransportClosed nat
  | AgentClosed nat
  | OnConnected nat
  | OnDisconnected nat
  | OnICEOffer nat ice_description
  | OnICEAnswer nat ice_description
  | ICEConnClosed
  | OnNewClientReject string go_error
  | Publish string bytes

record 'c server =
  sv_serverId :: string
  sv_api :: api
  sv_options :: server_options
  sv_nonceCache :: 'c
  sv_onOffer :: bool
  sv_onHandshake :: bool
  sv_connections :: "string \<rightharpoonup> nat"
  sv_heap :: "connection list"
  sv_acceptCh :: "nat list"
  sv_closeCh :: bool
  sv_roomLeaseKey :: string
  sv_bufferBudget :: "byte_budget option"
  sv_totalConnections :: int
  sv_pendingHandshakes :: int
  sv_log :: "server_event list"

abbreviation conn_at :: "'c server \<Rightarrow> nat \<Rightarrow> connection" where
  "conn_at s p \<equiv> sv_heap s ! p"

definition upd_conn :: "'c server \<Rightarrow> nat \<Rightarrow> (connection \<Rightarrow> connection) \<Rightarrow> 'c server" where
  "upd_conn s p f = s\<lparr>sv_heap := (sv_heap s)[p := f (sv_heap s ! p)]\<rparr>"

definition emit :: "'c server \<Rightarrow> server_event list \<Rightarrow> 'c server" where
  "emit s es = s\<lparr>sv_log := sv_log s @ es\<rparr>"

section \<open>Creating a server (new.go)\<close>

text \<open>\<open>lru_New\<close> is the constructor of the nonce cache, golang-lru's New.\<close>

definition NewServer ::
  "crypto_lib \<Rightarrow> (int \<Rightarrow> 'c result) \<Rightarrow> api \<Rightarrow> server_options option \<Rightarrow> 'c server result" where
  "NewServer L lru_New a options =
     bind_result (NewServer_options L a options) (\<lambda>options.
       bind_result (lru_New (so_LRUSize options)) (\<lambda>nonceCache.
         bind_result (ServerIDFromPublicKey L (publicOf L (so_IdentityKey options))) (\<lambda>serverID.
           Inr \<lparr>sv_serverId = serverID, sv_api = a, sv_options = options, sv_nonceCache = nonceCache, sv_onOffer = False,
                sv_onHandshake = False, sv_connections = Map.empty, sv_heap = [], sv_acceptCh = [], sv_closeCh = False,
                sv_roomLeaseKey = [], sv_bufferBudget = Some (NewByteBudget (so_MaxBufferedBytes options)),
                sv_totalConnections = 0, sv_pendingHandshakes = 0, sv_log = []\<rparr>)))"

section \<open>The table of connections (conn.go)\<close>

definition setConnection :: "'c server \<Rightarrow> nat option \<Rightarrow> bool \<times> 'c server" where
  "setConnection s conn =
     (if sv_closeCh s then (False, s)
      else (case conn of
              None \<Rightarrow> (False, s)
            | Some p \<Rightarrow>
                if cn_closed (conn_at s p) then (False, s)
                else (True, s\<lparr>sv_connections := (sv_connections s)(cn_sourceId (conn_at s p) \<mapsto> p)\<rparr>)))"

definition isCurrent :: "'c server \<Rightarrow> nat \<Rightarrow> bool" where
  "isCurrent s p \<longleftrightarrow> \<not> cn_closed (conn_at s p) \<and> sv_connections s (cn_sourceId (conn_at s p)) = Some p"

definition removeCurrent :: "'c server \<Rightarrow> nat \<Rightarrow> bool \<times> 'c server" where
  "removeCurrent s p =
     (if sv_connections s (cn_sourceId (conn_at s p)) = Some p
      then (True, s\<lparr>sv_connections := (sv_connections s)(cn_sourceId (conn_at s p) := None)\<rparr>)
      else (False, s))"

section \<open>Leases and the handshake timer (limits.go)\<close>

definition reserveConnection :: "'c server \<Rightarrow> bool \<times> 'c server" where
  "reserveConnection s =
     (if sv_totalConnections s \<ge> so_MaxConnections (sv_options s) then (False, s)
      else if sv_pendingHandshakes s \<ge> so_MaxPendingHandshakes (sv_options s) then (False, s)
      else (True, s\<lparr>sv_totalConnections := sv_totalConnections s + 1, sv_pendingHandshakes := sv_pendingHandshakes s + 1\<rparr>))"

definition stopHandshakeTimer :: "'c server \<Rightarrow> nat \<Rightarrow> 'c server" where
  "stopHandshakeTimer s p = upd_conn s p (\<lambda>c. c\<lparr>cn_handshakeTimer := False\<rparr>)"

definition startHandshakeTimer :: "'c server \<Rightarrow> nat \<Rightarrow> 'c server" where
  "startHandshakeTimer s p =
     (if \<not> cn_handshakeTimer (conn_at s p) \<and> \<not> cn_closed (conn_at s p)
      then upd_conn s p (\<lambda>c. c\<lparr>cn_handshakeTimer := True\<rparr>) else s)"

definition swapPendingLease :: "'c server \<Rightarrow> nat \<Rightarrow> bool \<times> 'c server" where
  "swapPendingLease s p = (cn_pendingLease (conn_at s p), upd_conn s p (\<lambda>c. c\<lparr>cn_pendingLease := False\<rparr>))"

definition swapTotalLease :: "'c server \<Rightarrow> nat \<Rightarrow> bool \<times> 'c server" where
  "swapTotalLease s p = (cn_totalLease (conn_at s p), upd_conn s p (\<lambda>c. c\<lparr>cn_totalLease := False\<rparr>))"

definition addPending :: "'c server \<Rightarrow> int \<Rightarrow> 'c server" where
  "addPending s d = s\<lparr>sv_pendingHandshakes := wrap64 (sv_pendingHandshakes s + d)\<rparr>"

definition addTotal :: "'c server \<Rightarrow> int \<Rightarrow> 'c server" where
  "addTotal s d = s\<lparr>sv_totalConnections := wrap64 (sv_totalConnections s + d)\<rparr>"

definition markEstablished :: "'c server \<Rightarrow> nat \<Rightarrow> nat option \<Rightarrow> nat option \<Rightarrow> bool \<times> 'c server" where
  "markEstablished s p expectedAgent expectedTransport =
     (let c = conn_at s p
      in if cn_closed c \<or> cn_iceAgent c \<noteq> expectedAgent \<or> cn_transportConn c \<noteq> expectedTransport \<or> \<not> isCurrent s p then (False, s)
         else (let s = upd_conn s p (\<lambda>c. c\<lparr>cn_established := True\<rparr>);
                   (pending, s) = swapPendingLease s p;
                   s = (if pending then addPending s (- 1) else s)
               in (True, stopHandshakeTimer s p)))"

definition releaseLease :: "'c server \<Rightarrow> nat \<Rightarrow> 'c server" where
  "releaseLease s p =
     (let s = stopHandshakeTimer s p;
          (pending, s) = swapPendingLease s p;
          s = (if pending then addPending s (- 1) else s);
          (held, s) = swapTotalLease s p
      in if held then addTotal s (- 1) else s)"

section \<open>Closing (close.go)\<close>

text \<open>\<open>closeHandle h\<close> is the error that closing the transport or agent \<open>h\<close> returns. The outer None is a panic of the budget.\<close>

definition closeRecvBuf :: "'c server \<Rightarrow> nat \<Rightarrow> 'c server option" where
  "closeRecvBuf s p =
     map_option (\<lambda>(rb, b). (upd_conn s p (\<lambda>c. c\<lparr>cn_recvBuf := rb\<rparr>))\<lparr>sv_bufferBudget := b\<rparr>)
       (RecvBuffer_Close (cn_recvBuf (conn_at s p)) (sv_bufferBudget s))"

definition detachTransport :: "(nat \<Rightarrow> go_error option) \<Rightarrow> 'c server \<Rightarrow> nat \<Rightarrow> 'c server" where
  "detachTransport closeHandle s p =
     (let c = conn_at s p;
          s = upd_conn s p (\<lambda>c. c\<lparr>cn_transportConn := None, cn_dataChannel := None, cn_iceAgent := None,
                 cn_localAddr := zero_addr, cn_remoteAddr := zero_addr\<rparr>);
          s = (case cn_transportConn c of
                 None \<Rightarrow> s
               | Some t \<Rightarrow> emit (upd_conn s p (\<lambda>c. c\<lparr>cn_closeErr := closeHandle t\<rparr>)) [TransportClosed t])
      in (case cn_iceAgent c of
            None \<Rightarrow> s
          | Some a \<Rightarrow>
              emit (if cn_closeErr (conn_at s p) = None then upd_conn s p (\<lambda>c. c\<lparr>cn_closeErr := closeHandle a\<rparr>) else s) [AgentClosed a]))"

definition Connection_Close :: "(nat \<Rightarrow> go_error option) \<Rightarrow> 'c server \<Rightarrow> nat \<Rightarrow> 'c server option" where
  "Connection_Close closeHandle s p =
     (let s = upd_conn s p (\<lambda>c. c\<lparr>cn_closed := True\<rparr>)
      in if cn_closeOnce (conn_at s p) \<noteq> OnceFresh then Some s
         else (let wasEstablished = cn_established (conn_at s p);
                   s = upd_conn s p (\<lambda>c. c\<lparr>cn_established := False\<rparr>)
               in (case closeRecvBuf s p of
                     None \<Rightarrow> None
                   | Some s \<Rightarrow>
                       (let s = snd (removeCurrent s p);
                            s = releaseLease s p;
                            s = detachTransport closeHandle s p;
                            s = upd_conn s p (\<lambda>c. c\<lparr>cn_closeOnce := OnceDone\<rparr>)
                        in Some (if wasEstablished then emit s [OnDisconnected p] else s)))))"

fun closeAll :: "(nat \<Rightarrow> go_error option) \<Rightarrow> 'c server \<Rightarrow> nat list \<Rightarrow> 'c server option" where
  "closeAll closeHandle s [] = Some s"
| "closeAll closeHandle s (p # ps) =
     (case Connection_Close closeHandle s p of None \<Rightarrow> None | Some s \<Rightarrow> closeAll closeHandle s ps)"

text \<open>
  Server.Close without the room lease, which \<open>Server_Close_room\<close> of the theory Listening adds: \<open>ps\<close> are the
  connections in the order in which the iterator of the table gives them.
\<close>

definition Server_Close :: "(nat \<Rightarrow> go_error option) \<Rightarrow> 'c server \<Rightarrow> nat list \<Rightarrow> 'c server option" where
  "Server_Close closeHandle s ps =
     (let s = s\<lparr>sv_closeCh := True, sv_onHandshake := False, sv_onOffer := False\<rparr>
      in map_option (\<lambda>s. s\<lparr>sv_connections := Map.empty\<rparr>) (closeAll closeHandle s ps))"

section \<open>Agents and transports (conn.go)\<close>

definition selectedTransportForSetup :: "'c server \<Rightarrow> nat \<Rightarrow> string \<times> bool" where
  "selectedTransportForSetup s p =
     (let c = conn_at s p;
          available = (\<not> cn_closed c \<and> cn_iceAgent c = None \<and> cn_transportConn c = None)
      in (cn_selectedTransport c, available \<and> cn_selectedTransport c \<noteq> [] \<and> isCurrent s p))"

definition installICEAgent :: "'c server \<Rightarrow> nat \<Rightarrow> nat option \<Rightarrow> bool \<times> 'c server" where
  "installICEAgent s p agent =
     (case agent of
        None \<Rightarrow> (False, s)
      | Some a \<Rightarrow>
          (let c = conn_at s p
           in if \<not> cn_closed c \<and> cn_iceAgent c = None \<and> cn_transportConn c = None \<and> isCurrent s p
              then (True, upd_conn s p (\<lambda>c. c\<lparr>cn_iceAgent := Some a\<rparr>))
              else (False, emit s [AgentClosed a])))"

definition ownsICEAgent :: "'c server \<Rightarrow> nat \<Rightarrow> nat \<Rightarrow> bool" where
  "ownsICEAgent s p agent \<longleftrightarrow> \<not> cn_closed (conn_at s p) \<and> cn_iceAgent (conn_at s p) = Some agent \<and> isCurrent s p"

definition installTransport ::
  "'c server \<Rightarrow> nat \<Rightarrow> nat \<Rightarrow> nat option \<Rightarrow> int \<Rightarrow> net_addr option \<Rightarrow> net_addr option \<Rightarrow> bool \<times> 'c server" where
  "installTransport s p agent conn maxFrameSize local remote =
     (case conn of
        None \<Rightarrow> (False, s)
      | Some t \<Rightarrow>
          (let c = conn_at s p
           in if \<not> cn_closed c \<and> cn_iceAgent c = Some agent \<and> cn_transportConn c = None \<and> cn_dataChannel c \<noteq> None \<and> isCurrent s p
              then (True, upd_conn s p (\<lambda>c. c\<lparr>cn_transportConn := Some t, cn_transportMaxFrameSize := maxFrameSize,
                      cn_localAddr := AddrFromNet (cn_roomId c) (cn_serverId c) local,
                      cn_remoteAddr := AddrFromNet (cn_roomId c) (cn_sourceId c) remote\<rparr>))
              else (False, emit s [TransportClosed t])))"

definition transportState :: "'c server \<Rightarrow> nat \<Rightarrow> nat option \<times> data_channel option" where
  "transportState s p = (cn_transportConn (conn_at s p), cn_dataChannel (conn_at s p))"

definition transportConnValue :: "'c server \<Rightarrow> nat \<Rightarrow> nat option" where
  "transportConnValue s p = fst (transportState s p)"

text \<open>
  The data channel of a connection is the one it was created with or nil, so the comparison of the two
  pointers comes down to whether both are nil; \<open>hasChannel\<close> says that the expected one is not.
\<close>

definition isCurrentTransport :: "'c server \<Rightarrow> nat \<Rightarrow> nat option \<Rightarrow> bool \<Rightarrow> bool" where
  "isCurrentTransport s p conn hasChannel \<longleftrightarrow>
     \<not> cn_closed (conn_at s p) \<and> cn_transportConn (conn_at s p) = conn \<and> (cn_dataChannel (conn_at s p) \<noteq> None) = hasChannel \<and> isCurrent s p"

section \<open>Addresses, deadlines and the frame limit (conn.go)\<close>

definition Connection_LocalAddr :: "'c server \<Rightarrow> nat \<Rightarrow> addr" where
  "Connection_LocalAddr s p =
     (let c = conn_at s p
      in if RoomID (cn_localAddr c) = [] then \<lparr>RoomID = cn_roomId c, PeerID = cn_serverId c, IP = [], Port = 0\<rparr> else cn_localAddr c)"

definition Connection_RemoteAddr :: "'c server \<Rightarrow> nat \<Rightarrow> addr" where
  "Connection_RemoteAddr s p =
     (let c = conn_at s p
      in if RoomID (cn_remoteAddr c) = [] then \<lparr>RoomID = cn_roomId c, PeerID = cn_sourceId c, IP = [], Port = 0\<rparr> else cn_remoteAddr c)"

definition Connection_setPhysicalAddrs :: "'c server \<Rightarrow> nat \<Rightarrow> net_addr option \<Rightarrow> net_addr option \<Rightarrow> 'c server" where
  "Connection_setPhysicalAddrs s p local remote =
     upd_conn s p (\<lambda>c. c\<lparr>cn_localAddr := AddrFromNet (cn_roomId c) (cn_serverId c) local,
       cn_remoteAddr := AddrFromNet (cn_roomId c) (cn_sourceId c) remote\<rparr>)"

text \<open>Setting a write deadline also sets it on the transport, whose error, an argument here, is returned. The zero time is None.\<close>

definition Connection_SetWriteDeadline :: "(nat \<Rightarrow> go_error option) \<Rightarrow> 'c server \<Rightarrow> nat \<Rightarrow> int option \<Rightarrow> go_error option \<times> 'c server" where
  "Connection_SetWriteDeadline setDeadline s p t =
     (let s = upd_conn s p (\<lambda>c. c\<lparr>cn_writeDeadline := t\<rparr>)
      in (case transportConnValue s p of None \<Rightarrow> (None, s) | Some h \<Rightarrow> (setDeadline h, s)))"

definition Connection_SetReadDeadline :: "'c server \<Rightarrow> nat \<Rightarrow> int option \<Rightarrow> go_error option \<times> 'c server" where
  "Connection_SetReadDeadline s p t =
     (None, upd_conn s p (\<lambda>c. c\<lparr>cn_recvBuf := RecvBuffer_SetDeadline (cn_recvBuf c) t\<rparr>))"

definition Connection_SetDeadline :: "(nat \<Rightarrow> go_error option) \<Rightarrow> 'c server \<Rightarrow> nat \<Rightarrow> int option \<Rightarrow> go_error option \<times> 'c server" where
  "Connection_SetDeadline setDeadline s p t =
     Connection_SetWriteDeadline setDeadline (snd (Connection_SetReadDeadline s p t)) p t"

definition Connection_writeTimedOut :: "'c server \<Rightarrow> nat \<Rightarrow> int \<Rightarrow> bool" where
  "Connection_writeTimedOut s p now = (case cn_writeDeadline (conn_at s p) of None \<Rightarrow> False | Some d \<Rightarrow> now > d)"

definition Connection_maxFrameSize :: "'c server \<Rightarrow> nat \<Rightarrow> int" where
  "Connection_maxFrameSize s p = frame_limit (so_MaxFrameSize (sv_options s)) (cn_transportMaxFrameSize (conn_at s p))"

section \<open>Accepting (listener.go)\<close>

text \<open>
  One attempt of Accept: the closed server has priority; otherwise a waiting connection is taken, and with none
  the call waits, which is None, until a connection arrives or the server is closed.
\<close>

definition Server_Accept :: "'c server \<Rightarrow> (nat result \<times> 'c server) option" where
  "Server_Accept s =
     (if sv_closeCh s then Some (Inl ErrNetClosed, s)
      else (case sv_acceptCh s of
              [] \<Rightarrow> None
            | p # ps \<Rightarrow> Some (Inr p, s\<lparr>sv_acceptCh := ps\<rparr>)))"

definition Server_Addr :: "'c server \<Rightarrow> addr" where
  "Server_Addr s = \<lparr>RoomID = api_RoomId (sv_api s), PeerID = sv_serverId s, IP = [], Port = 0\<rparr>"


section \<open>Effects on the store\<close>

lemma conn_at_upd [simp]:
  "p < length (sv_heap s) \<Longrightarrow> conn_at (upd_conn s p f) q = (if q = p then f (conn_at s p) else conn_at s q)"
  by (simp add: upd_conn_def)

lemma upd_conn_frame [simp]:
  "length (sv_heap (upd_conn s p f)) = length (sv_heap s)"
  "sv_connections (upd_conn s p f) = sv_connections s"
  "sv_closeCh (upd_conn s p f) = sv_closeCh s"
  "sv_options (upd_conn s p f) = sv_options s"
  "sv_totalConnections (upd_conn s p f) = sv_totalConnections s"
  "sv_pendingHandshakes (upd_conn s p f) = sv_pendingHandshakes s"
  "sv_bufferBudget (upd_conn s p f) = sv_bufferBudget s"
  "sv_acceptCh (upd_conn s p f) = sv_acceptCh s"
  "sv_nonceCache (upd_conn s p f) = sv_nonceCache s"
  "sv_api (upd_conn s p f) = sv_api s"
  "sv_serverId (upd_conn s p f) = sv_serverId s"
  "sv_log (upd_conn s p f) = sv_log s"
  by (simp_all add: upd_conn_def)

lemma upd_conn_heap: "sv_heap (upd_conn s p f) = (sv_heap s)[p := f (conn_at s p)]"
  by (simp add: upd_conn_def)

lemma emit_frame [simp]:
  "sv_heap (emit s es) = sv_heap s" "sv_connections (emit s es) = sv_connections s" "sv_closeCh (emit s es) = sv_closeCh s"
  "sv_options (emit s es) = sv_options s" "sv_totalConnections (emit s es) = sv_totalConnections s"
  "sv_pendingHandshakes (emit s es) = sv_pendingHandshakes s" "sv_bufferBudget (emit s es) = sv_bufferBudget s"
  "sv_log (emit s es) = sv_log s @ es"
  by (simp_all add: emit_def)

text \<open>The number of elements with a property, as an integer.\<close>

definition count_if :: "('a \<Rightarrow> bool) \<Rightarrow> 'a list \<Rightarrow> int" where
  "count_if f xs = int (length (filter f xs))"

lemma count_if_simps [simp]:
  "count_if f [] = 0" "count_if f (x # xs) = (if f x then 1 else 0) + count_if f xs"
  "count_if f (xs @ ys) = count_if f xs + count_if f ys"
  by (simp_all add: count_if_def)

lemma count_if_nonneg: "0 \<le> count_if f xs"
  by (simp add: count_if_def)

lemma count_if_upd:
  "p < length xs \<Longrightarrow> count_if f (xs[p := c]) = count_if f xs - (if f (xs ! p) then 1 else 0) + (if f c then 1 else 0)"
  by (induction xs arbitrary: p) (auto split: nat.splits)

text \<open>A connection for examples.\<close>

definition sample_connection :: "server_options \<Rightarrow> connection" where
  "sample_connection opts =
     \<lparr>cn_sourceId = ''c'', cn_codec = \<lparr>sc_sendCodec = None, sc_receiveCodec = None, sc_sessionKey = []\<rparr>,
      cn_handshakeCodec = \<lparr>cd_secret = [], cd_typ = [], cd_encryptionKit = None, cd_additionalData = [], cd_dataAAD = [], cd_headerAAD = []\<rparr>,
      cn_sessionSalt = [], cn_clientNonce = [], cn_serverNonce = [], cn_clientEphemeralKey = [], cn_serverEphemeralKey = [],
      cn_transportConn = None, cn_dataChannel = None, cn_lastTransportRead = 0, cn_established = False, cn_closed = False, cn_iceAgent = None,
      cn_localAddr = zero_addr, cn_remoteAddr = zero_addr, cn_selectedTransport = [], cn_transportMaxFrameSize = 0, cn_pendingICEOffer = None,
      cn_recvBuf = NewRecvBufferWithLimit (so_ReceiveBufferSize opts), cn_signalSend = 0, cn_signalRecv = ReplayWindow_zero, cn_serverId = [],
      cn_roomId = [], cn_writeDeadline = None, cn_pendingLease = True, cn_totalLease = True, cn_handshakeTimer = False,
      cn_closeOnce = OnceFresh, cn_closeErr = None\<rparr>"

end
