(* ===== verification/Server_Leases.thy ===== *)
theory Server_Leases
  imports Server_State
begin

text \<open>
  The leases of a server under concurrency. Connection.Close and markEstablished run in many
  goroutines at once, interleaved with the handler of client hellos and with Server.Close. Here every
  goroutine is a list of atomic actions: one access of an atomic variable, or one critical section.
  A step runs the first action of some goroutine, advances the hello handler, of which there is at most one
  because of helloMu, or starts a goroutine. Buffers and the byte budget follow the steps of \<open>buffer_step\<close>.

  The counters totalConnections and pendingHandshakes are shown to be exact and within their limits in
  every reachable state, no lease is lost, and no goroutine waits at closeOnce forever. A mutex appears only as the
  atomicity of the sections that it guards: it has no state of its own, and the order of locking is not part of the model.
\<close>

section \<open>Goroutines as lists of actions\<close>

text \<open>
  \<open>Closing p k w\<close> is the body of closeOnce at its \<open>k\<close>-th action, \<open>w\<close> the local wasEstablished;
  \<open>AddPending\<close> and \<open>AddTotal\<close> are the decrements that follow a successful Swap or undo a reservation.
\<close>

datatype action =
    MarkClosed nat
  | CloseOnce nat
  | Closing nat nat bool
  | AddPending
  | AddTotal
  | TimerFired nat
  | CheckEstablish nat "nat option" "nat option"
  | SetEstablished nat
  | SwapPending nat
  | StopTimer nat
  | ClearTable

definition closing_step :: "(nat \<Rightarrow> go_error option) \<Rightarrow> 'c server \<Rightarrow> nat \<Rightarrow> nat \<Rightarrow> bool \<Rightarrow> ('c server \<times> action list) option" where
  "closing_step closeHandle s p k w =
     (if k = 0 then Some (upd_conn s p (\<lambda>c. c\<lparr>cn_established := False\<rparr>), [Closing p 1 (cn_established (conn_at s p))])
      else if k = 1 then map_option (\<lambda>s. (s, [Closing p 2 w])) (closeRecvBuf s p)
      else if k = 2 then Some (snd (removeCurrent s p), [Closing p 3 w])
      else if k = 3 then Some (stopHandshakeTimer s p, [Closing p 4 w])
      else if k = 4 then Some (snd (swapPendingLease s p), (if fst (swapPendingLease s p) then [AddPending] else []) @ [Closing p 5 w])
      else if k = 5 then Some (snd (swapTotalLease s p), (if fst (swapTotalLease s p) then [AddTotal] else []) @ [Closing p 6 w])
      else if k = 6 then Some (detachTransport closeHandle s p, [Closing p 7 w])
      else Some (let s = upd_conn s p (\<lambda>c. c\<lparr>cn_closeOnce := OnceDone\<rparr>) in if w then emit s [OnDisconnected p] else s, []))"

text \<open>
  One action, a whole critical section at once: the new state and the actions that come next in the same goroutine. None means that the action
  has to wait, for the first caller of closeOnce to finish, or that the budget panics; waiting for a mutex is not a state of the model.
\<close>

fun exec_action :: "(nat \<Rightarrow> go_error option) \<Rightarrow> 'c server \<Rightarrow> action \<Rightarrow> ('c server \<times> action list) option" where
  "exec_action closeHandle s (MarkClosed p) = Some (upd_conn s p (\<lambda>c. c\<lparr>cn_closed := True\<rparr>), [CloseOnce p])"
| "exec_action closeHandle s (CloseOnce p) =
     (case cn_closeOnce (conn_at s p) of
        OnceFresh \<Rightarrow> Some (upd_conn s p (\<lambda>c. c\<lparr>cn_closeOnce := OnceRunning\<rparr>), [Closing p 0 False])
      | OnceRunning \<Rightarrow> None
      | OnceDone \<Rightarrow> Some (s, []))"
| "exec_action closeHandle s (Closing p k w) = closing_step closeHandle s p k w"
| "exec_action closeHandle s AddPending = Some (addPending s (- 1), [])"
| "exec_action closeHandle s AddTotal = Some (addTotal s (- 1), [])"
| "exec_action closeHandle s (TimerFired p) = Some (s, if cn_pendingLease (conn_at s p) then [MarkClosed p] else [])"
| "exec_action closeHandle s (CheckEstablish p agent conn) =
     (let c = conn_at s p
      in Some (s, if cn_closed c \<or> cn_iceAgent c \<noteq> agent \<or> cn_transportConn c \<noteq> conn \<or> \<not> isCurrent s p then [MarkClosed p]
                  else [SetEstablished p, SwapPending p, StopTimer p]))"
| "exec_action closeHandle s (SetEstablished p) = Some (upd_conn s p (\<lambda>c. c\<lparr>cn_established := True\<rparr>), [])"
| "exec_action closeHandle s (SwapPending p) =
     Some (snd (swapPendingLease s p), if fst (swapPendingLease s p) then [AddPending] else [])"
| "exec_action closeHandle s (StopTimer p) = Some (stopHandshakeTimer s p, [])"
| "exec_action closeHandle s ClearTable = Some (s\<lparr>sv_connections := Map.empty\<rparr>, [])"

text \<open>The hello handler (the subscription of Listen, with handleClientHello inlined), by the point it has reached.\<close>

datatype hello_pc =
    HIdle
  | HWait nat string
  | HReserve string
  | HPending string
  | HCreate string
  | HSet nat
  | HTimer nat
  | HSend nat

record 'c system =
  sy_server :: "'c server"
  sy_hello :: hello_pc
  sy_threads :: "action list list"
  sy_frames :: "nat list"

definition queue :: "'c system \<Rightarrow> action list" where
  "queue y = concat (sy_threads y)"

definition memory :: "'c server \<Rightarrow> nat list \<Rightarrow> buffer_sys" where
  "memory s frames = \<lparr>sys_budget = sv_bufferBudget s, sys_bufs = map cn_recvBuf (sv_heap s), sys_frames = frames\<rparr>"

definition set_memory :: "'c server \<Rightarrow> buffer_sys \<Rightarrow> 'c server" where
  "set_memory s m = s\<lparr>sv_bufferBudget := sys_budget m,
     sv_heap := map2 (\<lambda>c rb. c\<lparr>cn_recvBuf := rb\<rparr>) (sv_heap s) (sys_bufs m)\<rparr>"

text \<open>A connection as handleClientHello creates it.\<close>

definition fresh_connection :: "server_options \<Rightarrow> string \<Rightarrow> connection \<Rightarrow> bool" where
  "fresh_connection opts cid c \<longleftrightarrow>
     cn_sourceId c = cid \<and> \<not> cn_closed c \<and> \<not> cn_established c \<and> cn_transportConn c = None \<and> cn_iceAgent c = None \<and>
     cn_selectedTransport c = [] \<and> cn_pendingLease c \<and> cn_totalLease c \<and> \<not> cn_handshakeTimer c \<and> cn_closeOnce c = OnceFresh \<and>
     cn_recvBuf c = NewRecvBufferWithLimit (so_ReceiveBufferSize opts)"

text \<open>
  What the other operations of a connection may change: anything but the fields that the leases depend on. Agents, transports,
  addresses, sequence numbers, deadlines and the selected transport are of this kind.
\<close>

definition lease_frame :: "(connection \<Rightarrow> connection) \<Rightarrow> bool" where
  "lease_frame f \<longleftrightarrow> (\<forall>c. cn_sourceId (f c) = cn_sourceId c \<and> cn_closed (f c) = cn_closed c \<and> cn_pendingLease (f c) = cn_pendingLease c \<and>
     cn_totalLease (f c) = cn_totalLease c \<and> cn_closeOnce (f c) = cn_closeOnce c \<and> cn_recvBuf (f c) = cn_recvBuf c \<and>
     cn_handshakeTimer (f c) = cn_handshakeTimer c \<and> cn_established (f c) = cn_established c)"

definition spawn :: "'c system \<Rightarrow> action list \<Rightarrow> 'c system" where
  "spawn y t = y\<lparr>sy_threads := sy_threads y @ [t]\<rparr>"

text \<open>A step of the goroutine at position \<open>i\<close>.\<close>

inductive thread_step :: "(nat \<Rightarrow> go_error option) \<Rightarrow> 'c system \<Rightarrow> 'c system \<Rightarrow> bool" for closeHandle where
  thread: "\<lbrakk> sy_threads y = xs @ (a # rest) # ys; exec_action closeHandle (sy_server y) a = Some (s', new) \<rbrakk> \<Longrightarrow>
     thread_step closeHandle y (y\<lparr>sy_server := s', sy_threads := xs @ (new @ rest) # ys\<rparr>)"

inductive hello_step :: "'c system \<Rightarrow> 'c system \<Rightarrow> bool" where
  hello_new: "\<lbrakk> sy_hello y = HIdle; sv_connections (sy_server y) cid = None \<rbrakk> \<Longrightarrow> hello_step y (y\<lparr>sy_hello := HReserve cid\<rparr>)"
| hello_reuse: "\<lbrakk> sy_hello y = HIdle; sv_connections (sy_server y) cid = Some e; \<not> cn_closed (conn_at (sy_server y) e);
     cn_transportConn (conn_at (sy_server y) e) = None; cn_selectedTransport (conn_at (sy_server y) e) = [] \<rbrakk> \<Longrightarrow>
     hello_step y (y\<lparr>sy_hello := HSet e\<rparr>)"
| hello_replace: "\<lbrakk> sy_hello y = HIdle; sv_connections (sy_server y) cid = Some e \<rbrakk> \<Longrightarrow>
     hello_step y ((spawn y [MarkClosed e])\<lparr>sy_hello := HWait e cid\<rparr>)"
| hello_closed: "\<lbrakk> sy_hello y = HWait e cid; cn_closeOnce (conn_at (sy_server y) e) = OnceDone \<rbrakk> \<Longrightarrow>
     hello_step y (y\<lparr>sy_hello := HReserve cid\<rparr>)"
| hello_reject: "sy_hello y = HReserve cid \<Longrightarrow> hello_step y (y\<lparr>sy_hello := HIdle\<rparr>)"
| hello_full: "\<lbrakk> sy_hello y = HReserve cid; sv_totalConnections (sy_server y) \<ge> so_MaxConnections (sv_options (sy_server y)) \<rbrakk> \<Longrightarrow>
     hello_step y (y\<lparr>sy_hello := HIdle\<rparr>)"
| hello_total: "\<lbrakk> sy_hello y = HReserve cid; s = sy_server y; sv_totalConnections s < so_MaxConnections (sv_options s) \<rbrakk> \<Longrightarrow>
     hello_step y (y\<lparr>sy_server := s\<lparr>sv_totalConnections := sv_totalConnections s + 1\<rparr>, sy_hello := HPending cid\<rparr>)"
| hello_undo: "\<lbrakk> sy_hello y = HPending cid; sv_pendingHandshakes (sy_server y) \<ge> so_MaxPendingHandshakes (sv_options (sy_server y)) \<rbrakk> \<Longrightarrow>
     hello_step y ((spawn y [AddTotal])\<lparr>sy_hello := HIdle\<rparr>)"
| hello_pending: "\<lbrakk> sy_hello y = HPending cid; s = sy_server y; sv_pendingHandshakes s < so_MaxPendingHandshakes (sv_options s) \<rbrakk> \<Longrightarrow>
     hello_step y (y\<lparr>sy_server := s\<lparr>sv_pendingHandshakes := sv_pendingHandshakes s + 1\<rparr>, sy_hello := HCreate cid\<rparr>)"
| hello_fail: "sy_hello y = HCreate cid \<Longrightarrow> hello_step y ((spawn y [AddPending, AddTotal])\<lparr>sy_hello := HIdle\<rparr>)"
| hello_create: "\<lbrakk> sy_hello y = HCreate cid; s = sy_server y; fresh_connection (sv_options s) cid c \<rbrakk> \<Longrightarrow>
     hello_step y (y\<lparr>sy_server := s\<lparr>sv_heap := sv_heap s @ [c]\<rparr>, sy_hello := HSet (length (sv_heap s))\<rparr>)"
| hello_set: "\<lbrakk> sy_hello y = HSet p; setConnection (sy_server y) (Some p) = (True, s') \<rbrakk> \<Longrightarrow>
     hello_step y (y\<lparr>sy_server := s', sy_hello := HTimer p\<rparr>)"
| hello_unset: "\<lbrakk> sy_hello y = HSet p; setConnection (sy_server y) (Some p) = (False, s') \<rbrakk> \<Longrightarrow>
     hello_step y ((spawn y [MarkClosed p])\<lparr>sy_hello := HIdle\<rparr>)"
| hello_timer: "sy_hello y = HTimer p \<Longrightarrow>
     hello_step y (y\<lparr>sy_server := startHandshakeTimer (sy_server y) p, sy_hello := HSend p\<rparr>)"
| hello_sent: "sy_hello y = HSend p \<Longrightarrow> hello_step y (y\<lparr>sy_hello := HIdle\<rparr>)"
| hello_unsent: "sy_hello y = HSend p \<Longrightarrow> hello_step y ((spawn y [MarkClosed p])\<lparr>sy_hello := HIdle\<rparr>)"

text \<open>
  The environment: goroutines that close a connection (its user, its readers, its heartbeat monitor, the disconnect message,
  a failed setup), the handshake timer, the end of a transport setup, Server.Close, data in the buffers, and the other operations.
\<close>

inductive env_step :: "'c system \<Rightarrow> 'c system \<Rightarrow> bool" where
  env_close: "p < length (sv_heap (sy_server y)) \<Longrightarrow> env_step y (spawn y [MarkClosed p])"
| env_timer: "\<lbrakk> p < length (sv_heap (sy_server y)); cn_handshakeTimer (conn_at (sy_server y) p) \<rbrakk> \<Longrightarrow> env_step y (spawn y [TimerFired p])"
| env_establish: "p < length (sv_heap (sy_server y)) \<Longrightarrow> env_step y (spawn y [CheckEstablish p agent conn])"
| env_shutdown: "\<lbrakk> set ps = ran (sv_connections (sy_server y)) \<rbrakk> \<Longrightarrow>
     env_step y ((spawn y (map MarkClosed ps @ [ClearTable]))\<lparr>sy_server := (sy_server y)\<lparr>sv_closeCh := True\<rparr>\<rparr>)"
| env_memory: "\<lbrakk> event_ok e; \<forall>l. e \<noteq> EvNew l; buffer_step (memory (sy_server y) (sy_frames y)) e = Some m \<rbrakk> \<Longrightarrow>
     env_step y (y\<lparr>sy_server := set_memory (sy_server y) m, sy_frames := sys_frames m\<rparr>)"
| env_other: "\<lbrakk> p < length (sv_heap (sy_server y)); lease_frame f \<rbrakk> \<Longrightarrow> env_step y (y\<lparr>sy_server := upd_conn (sy_server y) p f\<rparr>)"

inductive reachable :: "(nat \<Rightarrow> go_error option) \<Rightarrow> 'c server \<Rightarrow> 'c system \<Rightarrow> bool" for closeHandle s0 where
  reach_init: "reachable closeHandle s0 \<lparr>sy_server = s0, sy_hello = HIdle, sy_threads = [], sy_frames = []\<rparr>"
| reach_thread: "\<lbrakk> reachable closeHandle s0 y; thread_step closeHandle y y' \<rbrakk> \<Longrightarrow> reachable closeHandle s0 y'"
| reach_hello: "\<lbrakk> reachable closeHandle s0 y; hello_step y y' \<rbrakk> \<Longrightarrow> reachable closeHandle s0 y'"
| reach_env: "\<lbrakk> reachable closeHandle s0 y; env_step y y' \<rbrakk> \<Longrightarrow> reachable closeHandle s0 y'"


section \<open>The invariant\<close>

definition in_table :: "'c server \<Rightarrow> nat \<Rightarrow> bool" where
  "in_table s p \<longleftrightarrow> sv_connections s (cn_sourceId (conn_at s p)) = Some p"

fun hello_total :: "hello_pc \<Rightarrow> int" where
  "hello_total (HPending cid) = 1" | "hello_total (HCreate cid) = 1" | "hello_total _ = 0"

fun hello_pends :: "hello_pc \<Rightarrow> int" where
  "hello_pends (HCreate cid) = 1" | "hello_pends _ = 0"

text \<open>
  The counters count the leases that connections hold, the decrements that are still to be made, and the reservation of the hello handler.
\<close>

definition counts_ok :: "'c server \<Rightarrow> action list \<Rightarrow> hello_pc \<Rightarrow> bool" where
  "counts_ok s q h \<longleftrightarrow>
     sv_totalConnections s = count_if cn_totalLease (sv_heap s) + count_if (\<lambda>a. a = AddTotal) q + hello_total h \<and>
     sv_pendingHandshakes s = count_if cn_pendingLease (sv_heap s) + count_if (\<lambda>a. a = AddPending) q + hello_pends h \<and>
     sv_totalConnections s \<le> so_MaxConnections (sv_options s) \<and> sv_pendingHandshakes s \<le> so_MaxPendingHandshakes (sv_options s) \<and>
     so_MaxConnections (sv_options s) < 2 ^ 63 \<and> so_MaxPendingHandshakes (sv_options s) < 2 ^ 63"

definition conn_ok :: "'c server \<Rightarrow> action list \<Rightarrow> nat \<Rightarrow> bool" where
  "conn_ok s q p \<longleftrightarrow>
     (cn_closeOnce (conn_at s p) \<noteq> OnceFresh \<longrightarrow> cn_closed (conn_at s p)) \<and>
     (cn_closeOnce (conn_at s p) = OnceFresh \<longrightarrow> cn_totalLease (conn_at s p)) \<and>
     (cn_closeOnce (conn_at s p) = OnceDone \<longrightarrow> \<not> cn_totalLease (conn_at s p) \<and> \<not> in_table s p) \<and>
     (cn_pendingLease (conn_at s p) \<longrightarrow> cn_totalLease (conn_at s p)) \<and>
     (cn_closeOnce (conn_at s p) = OnceRunning \<longrightarrow>
        (\<exists>k w. Closing p k w \<in> set q \<and> (cn_totalLease (conn_at s p) \<longrightarrow> k \<le> 5)))"

fun action_ok :: "'c server \<Rightarrow> action \<Rightarrow> bool" where
  "action_ok s (MarkClosed p) \<longleftrightarrow> p < length (sv_heap s)"
| "action_ok s (CloseOnce p) \<longleftrightarrow> p < length (sv_heap s) \<and> cn_closed (conn_at s p)"
| "action_ok s (Closing p k w) \<longleftrightarrow> p < length (sv_heap s) \<and> cn_closeOnce (conn_at s p) \<noteq> OnceFresh \<and> (2 < k \<longrightarrow> \<not> in_table s p) \<and>
     (4 < k \<longrightarrow> \<not> cn_pendingLease (conn_at s p)) \<and> (5 < k \<longrightarrow> \<not> cn_totalLease (conn_at s p))"
| "action_ok s (TimerFired p) \<longleftrightarrow> p < length (sv_heap s)"
| "action_ok s (CheckEstablish p a t) \<longleftrightarrow> p < length (sv_heap s)"
| "action_ok s (SetEstablished p) \<longleftrightarrow> p < length (sv_heap s)"
| "action_ok s (SwapPending p) \<longleftrightarrow> p < length (sv_heap s)"
| "action_ok s (StopTimer p) \<longleftrightarrow> p < length (sv_heap s)"
| "action_ok s ClearTable \<longleftrightarrow> sv_closeCh s"
| "action_ok s AddPending \<longleftrightarrow> True"
| "action_ok s AddTotal \<longleftrightarrow> True"

definition table_ok :: "'c server \<Rightarrow> bool" where
  "table_ok s \<longleftrightarrow> (\<forall>x p. sv_connections s x = Some p \<longrightarrow>
     p < length (sv_heap s) \<and> cn_sourceId (conn_at s p) = x \<and> cn_totalLease (conn_at s p))"

fun hello_ok :: "'c server \<Rightarrow> hello_pc \<Rightarrow> bool" where
  "hello_ok s HIdle \<longleftrightarrow> True"
| "hello_ok s (HWait e cid) \<longleftrightarrow> e < length (sv_heap s) \<and> cn_sourceId (conn_at s e) = cid \<and> sv_connections s cid \<in> {None, Some e}"
| "hello_ok s (HReserve cid) \<longleftrightarrow> sv_connections s cid = None"
| "hello_ok s (HPending cid) \<longleftrightarrow> sv_connections s cid = None"
| "hello_ok s (HCreate cid) \<longleftrightarrow> sv_connections s cid = None"
| "hello_ok s (HSet p) \<longleftrightarrow> p < length (sv_heap s) \<and> sv_connections s (cn_sourceId (conn_at s p)) \<in> {None, Some p}"
| "hello_ok s (HTimer p) \<longleftrightarrow> p < length (sv_heap s)"
| "hello_ok s (HSend p) \<longleftrightarrow> p < length (sv_heap s)"

fun releases :: "nat \<Rightarrow> action \<Rightarrow> bool" where
  "releases p (MarkClosed q) \<longleftrightarrow> q = p"
| "releases p (CloseOnce q) \<longleftrightarrow> q = p"
| "releases p (Closing q k w) \<longleftrightarrow> q = p \<and> k \<le> 5"
| "releases p _ \<longleftrightarrow> False"

text \<open>While the server is open, a lease belongs to a connection in the table or to one that a goroutine is about to release or to add.\<close>

definition leak_ok :: "'c server \<Rightarrow> action list \<Rightarrow> hello_pc \<Rightarrow> bool" where
  "leak_ok s q h \<longleftrightarrow> (\<not> sv_closeCh s \<longrightarrow>
     (\<forall>p < length (sv_heap s). cn_totalLease (conn_at s p) \<longrightarrow> in_table s p \<or> (\<exists>a \<in> set q. releases p a) \<or> h = HSet p))"

definition lease_inv :: "'c server \<Rightarrow> action list \<Rightarrow> hello_pc \<Rightarrow> bool" where
  "lease_inv s q h \<longleftrightarrow> counts_ok s q h \<and> (\<forall>p < length (sv_heap s). conn_ok s q p) \<and> (\<forall>a \<in> set q. action_ok s a) \<and>
     table_ok s \<and> hello_ok s h \<and> leak_ok s q h"

lemma wrap64_dec: "0 < x \<Longrightarrow> x < 2 ^ 63 \<Longrightarrow> wrap64 (x - 1) = x - 1"
  by (rule wrap64_id) linarith

lemmas inv_defs = lease_inv_def counts_ok_def conn_ok_def table_ok_def leak_ok_def in_table_def

text \<open>Replacing the action \<open>a\<close>, which concerns only the connection \<open>p\<close>, and changing that connection.\<close>

fun concerns :: "action \<Rightarrow> nat \<Rightarrow> bool" where
  "concerns (MarkClosed p) q \<longleftrightarrow> p = q"
| "concerns (CloseOnce p) q \<longleftrightarrow> p = q"
| "concerns (Closing p k w) q \<longleftrightarrow> p = q"
| "concerns _ q \<longleftrightarrow> False"

lemma releases_concerns: "releases q a \<Longrightarrow> concerns a q"
  by (cases a) auto

lemma keeps_upd:
  assumes inv: "lease_inv s (A @ a # B) h" and p: "p < length (sv_heap s)"
    and only: "\<And>q. concerns a q \<Longrightarrow> q = p"
    and src: "cn_sourceId (f (conn_at s p)) = cn_sourceId (conn_at s p)"
    and tl: "(if cn_totalLease (conn_at s p) then 1 else 0) + (if a = AddTotal then 1 else 0) =
      (if cn_totalLease (f (conn_at s p)) then 1 else 0) + count_if (\<lambda>x. x = AddTotal) new"
    and pl: "(if cn_pendingLease (conn_at s p) then 1 else 0) + (if a = AddPending then 1 else 0) =
      (if cn_pendingLease (f (conn_at s p)) then 1 else 0) + count_if (\<lambda>x. x = AddPending) new"
    and conn: "conn_ok (upd_conn s p f) (A @ new @ B) p"
    and new: "\<And>x. x \<in> set new \<Longrightarrow> action_ok (upd_conn s p f) x"
    and old: "\<And>x. x \<in> set A \<union> set B \<Longrightarrow> action_ok s x \<Longrightarrow> action_ok (upd_conn s p f) x"
    and lease: "in_table s p \<Longrightarrow> cn_totalLease (f (conn_at s p))"
    and leak: "\<not> sv_closeCh s \<Longrightarrow> cn_totalLease (f (conn_at s p)) \<Longrightarrow> \<not> in_table s p \<Longrightarrow> h \<noteq> HSet p \<Longrightarrow>
      \<exists>x \<in> set (A @ new @ B). releases p x"
  shows "lease_inv (upd_conn s p f) (A @ new @ B) h"
proof -
  let ?s = "upd_conn s p f"
  have "counts_ok ?s (A @ new @ B) h"
    using inv p tl pl by (auto simp: lease_inv_def counts_ok_def upd_conn_heap count_if_upd)
  moreover have "conn_ok ?s (A @ new @ B) q" if "q < length (sv_heap s)" for q
  proof (cases "q = p")
    case False
    have "\<And>k w. Closing q k w \<noteq> a" using only [of q] False by auto
    then have "set (A @ new @ B) \<supseteq> {Closing q k w |k w. Closing q k w \<in> set (A @ a # B)}" by auto
    with inv False that p show ?thesis
      by (simp add: lease_inv_def conn_ok_def in_table_def) blast
  qed (use conn in simp)
  moreover have "\<forall>x \<in> set (A @ new @ B). action_ok ?s x" using inv new old by (auto simp: lease_inv_def)
  moreover have "table_ok ?s" using inv p src lease by (auto simp: lease_inv_def table_ok_def in_table_def)
  moreover have "hello_ok ?s h" using inv p src by (cases h) (auto simp: lease_inv_def)
  moreover have "leak_ok ?s (A @ new @ B) h"
    unfolding leak_ok_def
  proof (intro impI allI)
    fix q assume q: "\<not> sv_closeCh ?s" "q < length (sv_heap ?s)" "cn_totalLease (conn_at ?s q)"
    show "in_table ?s q \<or> (\<exists>x \<in> set (A @ new @ B). releases q x) \<or> h = HSet q"
    proof (cases "q = p")
      case True
      then show ?thesis using q p src leak by (auto simp: in_table_def)
    next
      case False
      with q p have l: "in_table s q \<or> (\<exists>x \<in> set (A @ a # B). releases q x) \<or> h = HSet q"
        using inv by (auto simp: lease_inv_def leak_ok_def)
      have "\<not> releases q a" using only [of q] False releases_concerns by blast
      with l False p show ?thesis by (auto simp: in_table_def)
    qed
  qed
  ultimately show ?thesis by (simp add: lease_inv_def)
qed

text \<open>A change of the connection that no part of the invariant looks at.\<close>

definition quiet :: "(connection \<Rightarrow> connection) \<Rightarrow> bool" where
  "quiet f \<longleftrightarrow> (\<forall>c. cn_sourceId (f c) = cn_sourceId c \<and> cn_closed (f c) = cn_closed c \<and> cn_pendingLease (f c) = cn_pendingLease c \<and>
     cn_totalLease (f c) = cn_totalLease c \<and> cn_closeOnce (f c) = cn_closeOnce c)"

lemma quiet_action: "quiet f \<Longrightarrow> p < length (sv_heap s) \<Longrightarrow> action_ok (upd_conn s p f) x = action_ok s x"
  by (cases x) (auto simp: quiet_def in_table_def)

lemma quiet_conn: "quiet f \<Longrightarrow> p < length (sv_heap s) \<Longrightarrow> conn_ok (upd_conn s p f) q r = conn_ok s q r"
  by (auto simp: quiet_def conn_ok_def in_table_def)

lemma invD:
  assumes "lease_inv s q h"
  shows "a \<in> set q \<Longrightarrow> action_ok s a" and "p < length (sv_heap s) \<Longrightarrow> conn_ok s q p"
    and "p < length (sv_heap s) \<Longrightarrow> in_table s p \<Longrightarrow> cn_totalLease (conn_at s p)"
    and "\<not> sv_closeCh s \<Longrightarrow> p < length (sv_heap s) \<Longrightarrow> cn_totalLease (conn_at s p) \<Longrightarrow> \<not> in_table s p \<Longrightarrow> h \<noteq> HSet p \<Longrightarrow>
      \<exists>x \<in> set q. releases p x"
    and "sv_connections s x = Some p \<Longrightarrow> p < length (sv_heap s) \<and> cn_sourceId (conn_at s p) = x"
  using assms by (auto simp: lease_inv_def table_ok_def in_table_def leak_ok_def)

lemma inv_head: "lease_inv s (A @ a # B) h \<Longrightarrow> action_ok s a"
  by (simp add: lease_inv_def)

lemma keeps_quiet:
  assumes inv: "lease_inv s (A @ a # B) h" and p: "p < length (sv_heap s)" and f: "quiet f"
    and a: "\<And>q. \<not> concerns a q" "a \<noteq> AddTotal" "a \<noteq> AddPending"
    and new: "\<And>x. x \<in> set new \<Longrightarrow> action_ok s x \<and> x \<noteq> AddTotal \<and> x \<noteq> AddPending"
  shows "lease_inv (upd_conn s p f) (A @ new @ B) h"
proof (rule keeps_upd [OF inv p])
  have z: "count_if (\<lambda>x. x = AddTotal) new = 0" "count_if (\<lambda>x. x = AddPending) new = 0"
    using new by (auto simp: count_if_def filter_empty_conv)
  show "conn_ok (upd_conn s p f) (A @ new @ B) p"
    unfolding quiet_conn [OF f p] using invD(2) [OF inv p] a(1) [of p] by (auto simp: conn_ok_def)
  show "\<exists>x \<in> set (A @ new @ B). releases p x" if "\<not> sv_closeCh s" "cn_totalLease (f (conn_at s p))" "\<not> in_table s p" "h \<noteq> HSet p"
    using invD(4) [OF inv that(1) p _ that(3,4)] that(2) f a(1) [of p] releases_concerns by (auto simp: quiet_def)
qed (use f a new invD(3) [OF inv] p quiet_action [OF f p] in \<open>auto simp: quiet_def count_if_def filter_empty_conv\<close>)


section \<open>Every action keeps the invariant\<close>

lemma lease_inv_cong:
  assumes "sv_heap s' = sv_heap s" "sv_connections s' = sv_connections s" "sv_closeCh s' = sv_closeCh s"
    "sv_totalConnections s' = sv_totalConnections s" "sv_pendingHandshakes s' = sv_pendingHandshakes s" "sv_options s' = sv_options s"
  shows "lease_inv s' q h = lease_inv s q h"
proof -
  have "action_ok s' a = action_ok s a" for a using assms by (cases a) (auto simp: in_table_def)
  moreover have "hello_ok s' h = hello_ok s h" using assms by (cases h) auto
  ultimately show ?thesis using assms by (simp add: inv_defs)
qed

lemma lease_inv_emit [simp]: "lease_inv (emit s es) q h = lease_inv s q h"
  by (rule lease_inv_cong) simp_all

lemma lease_inv_budget [simp]: "lease_inv (s\<lparr>sv_bufferBudget := b\<rparr>) q h = lease_inv s q h"
  by (rule lease_inv_cong) simp_all

lemma upd_conn_same [simp]: "upd_conn s p (\<lambda>c. c) = s"
  by (simp add: upd_conn_def)

lemma upd_conn_twice: "p < length (sv_heap s) \<Longrightarrow> upd_conn (upd_conn s p f) p g = upd_conn s p (\<lambda>c. g (f c))"
  by (simp add: upd_conn_def)

lemma upd_conn_emit: "upd_conn (emit s es) p f = emit (upd_conn s p f) es"
  by (simp add: upd_conn_def emit_def)

lemma emit_emit: "emit (emit s es) es' = emit s (es @ es')"
  by (simp add: emit_def)

lemma keeps_MarkClosed:
  assumes inv: "lease_inv s (A @ MarkClosed p # B) h"
  shows "lease_inv (upd_conn s p (\<lambda>c. c\<lparr>cn_closed := True\<rparr>)) (A @ [CloseOnce p] @ B) h"
proof -
  have p: "p < length (sv_heap s)" using inv_head [OF inv] by simp
  have "action_ok (upd_conn s p (\<lambda>c. c\<lparr>cn_closed := True\<rparr>)) x" if "action_ok s x" for x
    using that p by (cases x) (auto simp: in_table_def)
  then show ?thesis
    by (intro keeps_upd [OF inv p]) (use p invD(2,3) [OF inv p] in \<open>auto simp: conn_ok_def in_table_def\<close>)
qed

lemma keeps_CloseOnce_fresh:
  assumes inv: "lease_inv s (A @ CloseOnce p # B) h" and "cn_closeOnce (conn_at s p) = OnceFresh"
  shows "lease_inv (upd_conn s p (\<lambda>c. c\<lparr>cn_closeOnce := OnceRunning\<rparr>)) (A @ [Closing p 0 False] @ B) h"
proof -
  have p: "p < length (sv_heap s)" "cn_closed (conn_at s p)" using inv_head [OF inv] by simp_all
  have "action_ok (upd_conn s p (\<lambda>c. c\<lparr>cn_closeOnce := OnceRunning\<rparr>)) x" if "action_ok s x" for x
    using that p by (cases x) (auto simp: in_table_def)
  then show ?thesis
    by (intro keeps_upd [OF inv p(1)]) (use assms(2) p invD(2,3) [OF inv p(1)] in \<open>auto simp: conn_ok_def in_table_def\<close>)
qed

lemma keeps_CloseOnce_done:
  assumes inv: "lease_inv s (A @ CloseOnce p # B) h" and "cn_closeOnce (conn_at s p) = OnceDone"
  shows "lease_inv s (A @ [] @ B) h"
proof -
  have p: "p < length (sv_heap s)" using inv_head [OF inv] by simp
  have "lease_inv (upd_conn s p (\<lambda>c. c)) (A @ [] @ B) h"
    by (rule keeps_upd [OF inv p]) (use assms(2) p invD(2,3) [OF inv p] in \<open>auto simp: conn_ok_def in_table_def\<close>)
  then show ?thesis by simp
qed

text \<open>An action of the closing goroutine that moves on to the next one, before the leases are given back.\<close>

lemma keeps_closing_quiet:
  assumes inv: "lease_inv s (A @ Closing p k w # B) h" and f: "quiet f"
    and k: "k \<noteq> 2" "k \<noteq> 4" "k \<noteq> 5"
  shows "lease_inv (upd_conn s p f) (A @ [Closing p (Suc k) w'] @ B) h"
proof -
  have a: "action_ok s (Closing p k w)" using inv_head [OF inv] .
  then have p: "p < length (sv_heap s)" by simp
  show ?thesis
  proof (rule keeps_upd [OF inv p])
    show "conn_ok (upd_conn s p f) (A @ [Closing p (Suc k) w'] @ B) p"
      unfolding quiet_conn [OF f p] using invD(2) [OF inv p] k a by (auto simp: conn_ok_def)
    show "\<exists>x \<in> set (A @ [Closing p (Suc k) w'] @ B). releases p x"
      if "\<not> sv_closeCh s" "cn_totalLease (f (conn_at s p))" "\<not> in_table s p" "h \<noteq> HSet p"
      using that f k a invD(4) [OF inv that(1) p _ that(3,4)] by (auto simp: quiet_def)
    show "action_ok (upd_conn s p f) x" if "x \<in> set [Closing p (Suc k) w']" for x
      unfolding quiet_action [OF f p] using that a k by auto
  qed (use f p invD(3) [OF inv p] quiet_action [OF f p] in \<open>auto simp: quiet_def\<close>)
qed

lemma conn_ok_mono:
  assumes "conn_ok s q p" and "conn_at s' p = conn_at s p" and "in_table s' p \<Longrightarrow> in_table s p"
    and "\<And>k v. Closing p k v \<in> set q \<Longrightarrow> \<exists>k' v'. Closing p k' v' \<in> set q' \<and> (k \<le> 5 \<longrightarrow> k' \<le> 5)"
  shows "conn_ok s' q' p"
  using assms unfolding conn_ok_def by metis

lemma keeps_closing_table:
  assumes inv: "lease_inv s (A @ Closing p 2 w # B) h"
  shows "lease_inv (snd (removeCurrent s p)) (A @ [Closing p 3 w] @ B) h"
proof -
  let ?s = "snd (removeCurrent s p)"
  have a: "action_ok s (Closing p 2 w)" using inv_head [OF inv] .
  then have p: "p < length (sv_heap s)" by simp
  have m: "sv_connections ?s x = (if sv_connections s x = Some p then None else sv_connections s x)" for x
  proof (cases "sv_connections s x = Some p")
    case True
    with invD(5) [OF inv True] show ?thesis by (simp add: removeCurrent_def)
  next
    case False
    then show ?thesis by (cases "x = cn_sourceId (conn_at s p)") (simp_all add: removeCurrent_def)
  qed
  have same: "sv_heap ?s = sv_heap s" "sv_closeCh ?s = sv_closeCh s" "sv_options ?s = sv_options s"
    "sv_totalConnections ?s = sv_totalConnections s" "sv_pendingHandshakes ?s = sv_pendingHandshakes s"
    by (simp_all add: removeCurrent_def)
  have tab: "in_table ?s q \<longleftrightarrow> in_table s q \<and> q \<noteq> p" for q by (auto simp: in_table_def m same)
  have "counts_ok ?s (A @ [Closing p 3 w] @ B) h" using inv by (simp add: lease_inv_def counts_ok_def same)
  moreover have "conn_ok ?s (A @ [Closing p 3 w] @ B) q" if "q < length (sv_heap s)" for q
  proof -
    have "\<exists>k' v'. Closing q k' v' \<in> set (A @ [Closing p 3 w] @ B) \<and> (k \<le> 5 \<longrightarrow> k' \<le> 5)"
      if "Closing q k v \<in> set (A @ Closing p 2 w # B)" for k v
    proof (cases "q = p")
      case True
      then show ?thesis by (intro exI [of _ 3] exI [of _ w]) simp
    next
      case False
      with that show ?thesis by (intro exI [of _ k] exI [of _ v]) auto
    qed
    then show ?thesis by (intro conn_ok_mono [OF invD(2) [OF inv that]]) (auto simp: tab same)
  qed
  moreover have "\<forall>x \<in> set (A @ [Closing p 3 w] @ B). action_ok ?s x"
  proof -
    have "action_ok ?s x" if "action_ok s x" for x using that by (cases x) (auto simp: same tab)
    moreover have "action_ok ?s (Closing p 3 w)" using a by (auto simp: same tab)
    ultimately show ?thesis using inv by (auto simp: lease_inv_def)
  qed
  moreover have "table_ok ?s" using inv by (auto simp: lease_inv_def table_ok_def m same split: if_splits)
  moreover have "hello_ok ?s h" using inv by (cases h) (auto simp: lease_inv_def same m)
  moreover have "leak_ok ?s (A @ [Closing p 3 w] @ B) h"
    using inv by (fastforce simp: lease_inv_def leak_ok_def tab same)
  ultimately show ?thesis by (simp add: lease_inv_def same)
qed


lemma action_ok_lower:
  assumes "action_ok s x" and "p < length (sv_heap s)" and "cn_sourceId (f (conn_at s p)) = cn_sourceId (conn_at s p)"
    and "cn_closed (conn_at s p) \<Longrightarrow> cn_closed (f (conn_at s p))" and "cn_closeOnce (f (conn_at s p)) = OnceFresh \<Longrightarrow> cn_closeOnce (conn_at s p) = OnceFresh"
    and "cn_pendingLease (f (conn_at s p)) \<Longrightarrow> cn_pendingLease (conn_at s p)" and "cn_totalLease (f (conn_at s p)) \<Longrightarrow> cn_totalLease (conn_at s p)"
  shows "action_ok (upd_conn s p f) x"
  using assms by (cases x) (auto simp: in_table_def)

lemma keeps_closing_pending:
  assumes inv: "lease_inv s (A @ Closing p 4 w # B) h"
  shows "lease_inv (snd (swapPendingLease s p)) (A @ ((if fst (swapPendingLease s p) then [AddPending] else []) @ [Closing p 5 w]) @ B) h"
proof -
  have a: "action_ok s (Closing p 4 w)" using inv_head [OF inv] .
  then have p: "p < length (sv_heap s)" by simp
  have c: "conn_ok s (A @ Closing p 4 w # B) p" by (rule invD(2) [OF inv p])
  have low: "action_ok (upd_conn s p (\<lambda>c. c\<lparr>cn_pendingLease := False\<rparr>)) x" if "action_ok s x" for x
    by (rule action_ok_lower [OF that p]) (use a in simp_all)
  show ?thesis
    unfolding swapPendingLease_def snd_conv fst_conv
    by (intro keeps_upd [OF inv p])
      (use a c p invD(3) [OF inv p] low in \<open>auto simp: conn_ok_def in_table_def\<close>)
qed

lemma keeps_closing_total:
  assumes inv: "lease_inv s (A @ Closing p 5 w # B) h"
  shows "lease_inv (snd (swapTotalLease s p)) (A @ ((if fst (swapTotalLease s p) then [AddTotal] else []) @ [Closing p 6 w]) @ B) h"
proof -
  have a: "action_ok s (Closing p 5 w)" using inv_head [OF inv] .
  then have p: "p < length (sv_heap s)" by simp
  have c: "conn_ok s (A @ Closing p 5 w # B) p" by (rule invD(2) [OF inv p])
  have low: "action_ok (upd_conn s p (\<lambda>c. c\<lparr>cn_totalLease := False\<rparr>)) x" if "action_ok s x" for x
    by (rule action_ok_lower [OF that p]) (use a in simp_all)
  show ?thesis
    unfolding swapTotalLease_def snd_conv fst_conv
    by (intro keeps_upd [OF inv p])
      (use a c p low in \<open>auto simp: conn_ok_def in_table_def\<close>)
qed

lemma keeps_closing_done:
  assumes inv: "lease_inv s (A @ Closing p k w # B) h" and "6 < k"
  shows "lease_inv (upd_conn s p (\<lambda>c. c\<lparr>cn_closeOnce := OnceDone\<rparr>)) (A @ [] @ B) h"
proof -
  have a: "action_ok s (Closing p k w)" using inv_head [OF inv] .
  then have p: "p < length (sv_heap s)" by simp
  have c: "conn_ok s (A @ Closing p k w # B) p" by (rule invD(2) [OF inv p])
  have low: "action_ok (upd_conn s p (\<lambda>c. c\<lparr>cn_closeOnce := OnceDone\<rparr>)) x" if "action_ok s x" for x
    by (rule action_ok_lower [OF that p]) (use a in simp_all)
  show ?thesis
    by (intro keeps_upd [OF inv p])
      (use a c p assms(2) low in \<open>auto simp: conn_ok_def in_table_def\<close>)
qed

definition quiet_change :: "'c server \<Rightarrow> nat \<Rightarrow> 'c server \<Rightarrow> bool" where
  "quiet_change s p s' \<longleftrightarrow> (\<exists>f es. quiet f \<and> s' = emit (upd_conn s p f) es)"

lemma quiet_change_intros:
  "quiet f \<Longrightarrow> quiet_change s p (upd_conn s p f)"
  "quiet_change s p s' \<Longrightarrow> quiet_change s p (emit s' es)"
  "p < length (sv_heap s) \<Longrightarrow> quiet g \<Longrightarrow> quiet_change s p s' \<Longrightarrow> quiet_change s p (upd_conn s' p g)"
proof -
  show "quiet f \<Longrightarrow> quiet_change s p (upd_conn s p f)"
    unfolding quiet_change_def by (intro exI [of _ f] exI [of _ "[]"]) (simp add: emit_def)
  show "quiet_change s p s' \<Longrightarrow> quiet_change s p (emit s' es)"
    unfolding quiet_change_def by (metis emit_emit)
  assume p: "p < length (sv_heap s)" and g: "quiet g" and "quiet_change s p s'"
  then obtain f es where f: "quiet f" "s' = emit (upd_conn s p f) es" by (auto simp: quiet_change_def)
  then show "quiet_change s p (upd_conn s' p g)"
    unfolding quiet_change_def using g p
    by (intro exI [of _ "\<lambda>c. g (f c)"] exI [of _ es]) (simp add: upd_conn_emit upd_conn_twice quiet_def)
qed

lemma detach_quiet:
  assumes "p < length (sv_heap s)"
  shows "quiet_change s p (detachTransport closeHandle s p)"
  unfolding detachTransport_def Let_def
  by (cases "cn_transportConn (conn_at s p)"; cases "cn_iceAgent (conn_at s p)")
    (use assms in \<open>auto simp: quiet_def intro!: quiet_change_intros\<close>)

lemma keeps_quiet_change:
  assumes "quiet_change s p s'" and "\<And>f. quiet f \<Longrightarrow> lease_inv (upd_conn s p f) q h"
  shows "lease_inv s' q h"
  using assms by (auto simp: quiet_change_def)

lemma keeps_Add:
  assumes inv: "lease_inv s (A @ a # B) h" and a: "a = AddPending \<and> s' = addPending s (- 1) \<or> a = AddTotal \<and> s' = addTotal s (- 1)"
  shows "lease_inv s' (A @ [] @ B) h"
proof -
  have same: "sv_heap s' = sv_heap s" "sv_connections s' = sv_connections s" "sv_closeCh s' = sv_closeCh s" "sv_options s' = sv_options s"
    using a by (auto simp: addPending_def addTotal_def)
  have nn: "0 \<le> hello_total h" "0 \<le> hello_pends h" by (cases h; simp)+
  have "counts_ok s' (A @ [] @ B) h"
    using inv a nn count_if_nonneg [of cn_totalLease "sv_heap s"] count_if_nonneg [of cn_pendingLease "sv_heap s"]
      count_if_nonneg [of "\<lambda>a. a = AddTotal" A] count_if_nonneg [of "\<lambda>a. a = AddTotal" B]
      count_if_nonneg [of "\<lambda>a. a = AddPending" A] count_if_nonneg [of "\<lambda>a. a = AddPending" B]
    by (auto simp: lease_inv_def counts_ok_def addPending_def addTotal_def wrap64_dec)
  moreover have "action_ok s' x = action_ok s x" for x by (cases x) (simp_all add: same in_table_def)
  moreover have "hello_ok s' h = hello_ok s h" by (cases h) (simp_all add: same)
  ultimately show ?thesis
    using inv a by (auto simp: lease_inv_def conn_ok_def table_ok_def leak_ok_def in_table_def same)
qed

lemma keeps_ClearTable:
  assumes inv: "lease_inv s (A @ ClearTable # B) h"
  shows "lease_inv (s\<lparr>sv_connections := Map.empty\<rparr>) (A @ [] @ B) h"
proof -
  let ?s = "s\<lparr>sv_connections := Map.empty\<rparr>"
  have "action_ok ?s x" if "action_ok s x" for x using that by (cases x) (simp_all add: in_table_def)
  moreover have "hello_ok ?s h" using inv by (cases h) (auto simp: lease_inv_def)
  moreover have "conn_ok ?s (A @ [] @ B) p" if "p < length (sv_heap s)" for p
    by (rule conn_ok_mono [OF invD(2) [OF inv that]]) (auto simp: in_table_def)
  moreover have "sv_closeCh s" using inv_head [OF inv] by simp
  ultimately show ?thesis using inv by (auto simp: lease_inv_def counts_ok_def table_ok_def leak_ok_def)
qed

lemma keeps_SwapPending:
  assumes inv: "lease_inv s (A @ SwapPending p # B) h"
  shows "lease_inv (snd (swapPendingLease s p)) (A @ (if fst (swapPendingLease s p) then [AddPending] else []) @ B) h"
proof -
  have p: "p < length (sv_heap s)" using inv_head [OF inv] by simp
  have c: "conn_ok s (A @ SwapPending p # B) p" by (rule invD(2) [OF inv p])
  have low: "action_ok (upd_conn s p (\<lambda>c. c\<lparr>cn_pendingLease := False\<rparr>)) x" if "action_ok s x" for x
    by (rule action_ok_lower [OF that p]) simp_all
  have l: "\<not> sv_closeCh s \<Longrightarrow> cn_totalLease (conn_at s p) \<Longrightarrow> \<not> in_table s p \<Longrightarrow> h \<noteq> HSet p \<Longrightarrow> \<exists>x \<in> set A \<union> set B. releases p x"
    using invD(4) [OF inv _ p] by auto
  show ?thesis
    unfolding swapPendingLease_def snd_conv fst_conv
    by (intro keeps_upd [OF inv p]) (use c p l low invD(3) [OF inv p] in \<open>auto simp: conn_ok_def in_table_def\<close>)
qed


lemma quiet_updates [simp]:
  "quiet (\<lambda>c. c\<lparr>cn_established := b\<rparr>)" "quiet (\<lambda>c. c\<lparr>cn_handshakeTimer := b\<rparr>)" "quiet (\<lambda>c. c\<lparr>cn_recvBuf := rb\<rparr>)" "quiet (\<lambda>c. c)"
  by (simp_all add: quiet_def)

lemma closing_keeps:
  assumes inv: "lease_inv s (A @ Closing p k w # B) h" and "closing_step closeHandle s p k w = Some (s', new)"
  shows "lease_inv s' (A @ new @ B) h"
proof -
  have p: "p < length (sv_heap s)" using inv_head [OF inv] by simp
  consider "k = 0" | "k = 1" | "k = 2" | "k = 3" | "k = 4" | "k = 5" | "k = 6" | "6 < k" by linarith
  then show ?thesis
  proof cases
    case 1
    with assms keeps_closing_quiet [OF inv, of "\<lambda>c. c\<lparr>cn_established := False\<rparr>"] show ?thesis by (auto simp: closing_step_def)
  next
    case 2
    with assms keeps_closing_quiet [OF inv] show ?thesis by (auto simp: closing_step_def closeRecvBuf_def numeral_2_eq_2)
  next
    case 3
    with assms keeps_closing_table [of s A p w B h] show ?thesis by (auto simp: closing_step_def)
  next
    case 4
    with assms keeps_closing_quiet [OF inv, of "\<lambda>c. c\<lparr>cn_handshakeTimer := False\<rparr>"] show ?thesis
      by (auto simp: closing_step_def stopHandshakeTimer_def)
  next
    case 5
    with assms keeps_closing_pending [of s A p w B h] show ?thesis by (auto simp: closing_step_def split: if_splits)
  next
    case 6
    with assms keeps_closing_total [of s A p w B h] show ?thesis by (auto simp: closing_step_def split: if_splits)
  next
    case 7
    have "lease_inv (upd_conn s p f) (A @ [Closing p 7 w] @ B) h" if "quiet f" for f
      using keeps_closing_quiet [OF inv that] 7 by simp
    from keeps_quiet_change [OF detach_quiet [OF p] this] 7 assms(2) show ?thesis by (auto simp: closing_step_def)
  next
    case 8
    with assms keeps_closing_done [OF inv] show ?thesis by (auto simp: closing_step_def Let_def)
  qed
qed

lemma exec_keeps:
  assumes inv: "lease_inv s (A @ a # B) h" and e: "exec_action closeHandle s a = Some (s', new)"
  shows "lease_inv s' (A @ new @ B) h"
proof (cases a)
  case (MarkClosed p)
  with assms keeps_MarkClosed [of s A p B h] show ?thesis by auto
next
  case (CloseOnce p)
  with assms keeps_CloseOnce_fresh [of s A p B h] keeps_CloseOnce_done [of s A p B h] show ?thesis by (auto split: once_state.splits)
next
  case (Closing p k w)
  with assms closing_keeps [of s A p k w B h] show ?thesis by simp
next
  case AddPending
  with assms keeps_Add [OF inv] show ?thesis by simp
next
  case AddTotal
  with assms keeps_Add [OF inv] show ?thesis by simp
next
  case (TimerFired p)
  with inv_head [OF inv] keeps_quiet [OF inv, of p "\<lambda>c. c" new] e show ?thesis by (auto split: if_splits)
next
  case (CheckEstablish p ag t)
  with inv_head [OF inv] e have "p < length (sv_heap s)" "s' = s" "\<And>x. x \<in> set new \<Longrightarrow> action_ok s x \<and> x \<noteq> AddTotal \<and> x \<noteq> AddPending"
    by (auto simp: Let_def split: if_splits)
  with keeps_quiet [OF inv, of p "\<lambda>c. c" new] CheckEstablish show ?thesis by simp
next
  case (SetEstablished p)
  with inv_head [OF inv] keeps_quiet [OF inv, of p "\<lambda>c. c\<lparr>cn_established := True\<rparr>" new] e show ?thesis by auto
next
  case (SwapPending p)
  with assms keeps_SwapPending [of s A p B h] show ?thesis by auto
next
  case (StopTimer p)
  with inv_head [OF inv] keeps_quiet [OF inv, of p "\<lambda>c. c\<lparr>cn_handshakeTimer := False\<rparr>" new] e show ?thesis
    by (auto simp: stopHandshakeTimer_def)
next
  case ClearTable
  with assms keeps_ClearTable [of s A B h] show ?thesis by auto
qed

text \<open>Starting a goroutine whose actions are allowed, and a move of the hello handler.\<close>

lemma keeps_spawn:
  assumes inv: "lease_inv s q h" and new: "\<And>x. x \<in> set new \<Longrightarrow> action_ok s x"
    and h': "hello_ok s h'"
    and tl: "hello_total h = hello_total h' + count_if (\<lambda>x. x = AddTotal) new"
    and pl: "hello_pends h = hello_pends h' + count_if (\<lambda>x. x = AddPending) new"
    and leak: "\<And>p. h = HSet p \<Longrightarrow> h' = HSet p \<or> in_table s p \<or> (\<exists>x \<in> set new. releases p x)"
  shows "lease_inv s (q @ new) h'"
proof -
  have "conn_ok s (q @ new) p" if "p < length (sv_heap s)" for p
    by (rule conn_ok_mono [OF invD(2) [OF inv that]]) auto
  moreover have "leak_ok s (q @ new) h'"
    unfolding leak_ok_def
  proof (intro impI allI)
    fix p assume p: "\<not> sv_closeCh s" "p < length (sv_heap s)" "cn_totalLease (conn_at s p)"
    show "in_table s p \<or> (\<exists>x \<in> set (q @ new). releases p x) \<or> h' = HSet p"
      using invD(4) [OF inv p] leak [of p] by auto
  qed
  ultimately show ?thesis using inv new h' tl pl by (auto simp: lease_inv_def counts_ok_def)
qed


section \<open>The invariant of the system\<close>

definition system_inv :: "'c system \<Rightarrow> bool" where
  "system_inv y \<longleftrightarrow> lease_inv (sy_server y) (queue y) (sy_hello y) \<and> sys_inv (memory (sy_server y) (sy_frames y)) \<and>
     so_ReceiveBufferSize (sv_options (sy_server y)) < 2 ^ 63"

lemma queue_spawn [simp]: "queue (spawn y t) = queue y @ t" "sy_server (spawn y t) = sy_server y" "sy_frames (spawn y t) = sy_frames y"
  by (simp_all add: queue_def spawn_def)

lemma queue_update [simp]: "queue (y\<lparr>sy_server := s\<rparr>) = queue y" "queue (y\<lparr>sy_hello := h\<rparr>) = queue y" "queue (y\<lparr>sy_frames := fs\<rparr>) = queue y"
  by (simp_all add: queue_def)

lemma memory_upd: "(\<And>c. cn_recvBuf (f c) = cn_recvBuf c) \<Longrightarrow> memory (upd_conn s p f) fs = memory s fs"
  by (cases "p < length (sv_heap s)") (auto simp: memory_def upd_conn_def map_update list_update_beyond map_update [symmetric] intro: nth_equalityI)

lemma memory_cong: "sv_heap s' = sv_heap s \<Longrightarrow> sv_bufferBudget s' = sv_bufferBudget s \<Longrightarrow> memory s' fs = memory s fs"
  by (simp add: memory_def)

lemma memory_other [simp]:
  "memory (s\<lparr>sv_connections := m\<rparr>) fs = memory s fs" "memory (s\<lparr>sv_pendingHandshakes := x\<rparr>) fs = memory s fs"
  "memory (s\<lparr>sv_totalConnections := x\<rparr>) fs = memory s fs" "memory (s\<lparr>sv_closeCh := b\<rparr>) fs = memory s fs"
  "memory (emit s es) fs = memory s fs"
  by (simp_all add: memory_def)

text \<open>Only the closing of a buffer touches the memory of a server, and it is a step of the buffers.\<close>

lemma memory_close:
  assumes "p < length (sv_heap s)" and "closeRecvBuf s p = Some s'"
  shows "buffer_step (memory s fs) (EvClose p) = Some (memory s' fs)"
  using assms by (auto simp: closeRecvBuf_def memory_def upd_buf_def upd_conn_def map_update)

lemma detach_memory: "p < length (sv_heap s) \<Longrightarrow> memory (detachTransport closeHandle s p) fs = memory s fs"
  unfolding detachTransport_def Let_def
  by (cases "cn_transportConn (conn_at s p)"; cases "cn_iceAgent (conn_at s p)") (auto simp: memory_upd)

lemma exec_memory:
  assumes "action_ok s a" and "exec_action closeHandle s a = Some (s', new)"
  shows "memory s' fs = memory s fs \<or> (\<exists>p. buffer_step (memory s fs) (EvClose p) = Some (memory s' fs))"
proof (cases a)
  case (Closing p k w)
  with assms have p: "p < length (sv_heap s)" by simp
  have r: "memory (snd (removeCurrent s p)) fs = memory s fs" by (rule memory_cong) (simp_all add: removeCurrent_def)
  show ?thesis
  proof (cases "k = 1")
    case True
    with Closing assms(2) have "closeRecvBuf s p = Some s'" by (auto simp: closing_step_def)
    from memory_close [OF p this] show ?thesis by blast
  next
    case False
    with Closing assms p r show ?thesis
      by (auto simp: closing_step_def stopHandshakeTimer_def swapPendingLease_def swapTotalLease_def memory_upd detach_memory Let_def
          split: if_splits)
  qed
qed (use assms in \<open>auto simp: memory_upd addPending_def addTotal_def swapPendingLease_def stopHandshakeTimer_def Let_def
      split: once_state.splits if_splits\<close>)


lemma step_keepsD: "sys_inv m \<Longrightarrow> event_ok e \<Longrightarrow> buffer_step m e = Some m' \<Longrightarrow> sys_inv m'"
  using buffer_step_keeps [of m e] by (auto simp: step_keeps_def)

lemma exec_options: "exec_action closeHandle s a = Some (s', new) \<Longrightarrow> sv_options s' = sv_options s"
proof (cases a)
  case (Closing p k w)
  have "sv_options (detachTransport closeHandle s p) = sv_options s"
    by (simp add: detachTransport_def Let_def split: option.splits)
  moreover assume "exec_action closeHandle s a = Some (s', new)"
  ultimately show ?thesis using Closing
    by (auto simp: closing_step_def closeRecvBuf_def removeCurrent_def stopHandshakeTimer_def swapPendingLease_def swapTotalLease_def Let_def
        split: if_splits)
qed (auto simp: addPending_def addTotal_def swapPendingLease_def stopHandshakeTimer_def Let_def split: once_state.splits if_splits)

lemma thread_step_keeps:
  assumes "thread_step closeHandle y y'" and inv: "system_inv y"
  shows "system_inv y'"
  using assms(1)
proof cases
  case (thread xs a rest ys s' new)
  let ?A = "concat xs" and ?B = "rest @ concat ys"
  have q: "queue y = ?A @ a # ?B" "queue y' = ?A @ new @ ?B" using thread by (simp_all add: queue_def)
  have i: "lease_inv (sy_server y) (?A @ a # ?B) (sy_hello y)" using inv q(1) by (simp add: system_inv_def)
  note e = thread(3)
  have "lease_inv s' (?A @ new @ ?B) (sy_hello y)" by (rule exec_keeps [OF i e])
  moreover have "sys_inv (memory s' (sy_frames y))"
    using exec_memory [OF inv_head [OF i] e, of "sy_frames y"]
  proof
    assume "memory s' (sy_frames y) = memory (sy_server y) (sy_frames y)"
    then show ?thesis using inv by (simp add: system_inv_def)
  next
    assume "\<exists>p. buffer_step (memory (sy_server y) (sy_frames y)) (EvClose p) = Some (memory s' (sy_frames y))"
    then obtain p where "buffer_step (memory (sy_server y) (sy_frames y)) (EvClose p) = Some (memory s' (sy_frames y))" by blast
    from step_keepsD [OF _ _ this] inv show ?thesis by (simp add: system_inv_def)
  qed
  ultimately show ?thesis using thread(1) q(2) inv exec_options [OF e] by (simp add: system_inv_def)
qed


text \<open>A step of the hello handler that starts goroutines and leaves the server alone.\<close>

lemma hello_spawn:
  assumes inv: "system_inv y" and "sy_hello y = h" and "\<And>x. x \<in> set new \<Longrightarrow> action_ok (sy_server y) x" and "hello_ok (sy_server y) h'"
    and "hello_total h = hello_total h' + count_if (\<lambda>x. x = AddTotal) new" and "hello_pends h = hello_pends h' + count_if (\<lambda>x. x = AddPending) new"
    and "\<And>p. h = HSet p \<Longrightarrow> \<exists>x \<in> set new. releases p x"
  shows "system_inv ((spawn y new)\<lparr>sy_hello := h'\<rparr>)"
  using keeps_spawn [of "sy_server y" "queue y" h new h'] assms by (auto simp: system_inv_def)

lemma hello_move:
  assumes inv: "system_inv y" and "sy_hello y = h" and "hello_ok (sy_server y) h'" "hello_total h = hello_total h'" "hello_pends h = hello_pends h'"
    and "\<And>p. h \<noteq> HSet p"
  shows "system_inv (y\<lparr>sy_hello := h'\<rparr>)"
  using keeps_spawn [of "sy_server y" "queue y" h "[]" h'] assms by (auto simp: system_inv_def)

lemma hello_invD: "system_inv y \<Longrightarrow> sy_hello y = h \<Longrightarrow> hello_ok (sy_server y) h"
  by (auto simp: system_inv_def lease_inv_def)

lemma keeps_counter:
  assumes inv: "lease_inv s q h"
    and "h = HReserve cid \<and> h' = HPending cid \<and> s' = s\<lparr>sv_totalConnections := sv_totalConnections s + 1\<rparr> \<and>
           sv_totalConnections s < so_MaxConnections (sv_options s) \<or>
         h = HPending cid \<and> h' = HCreate cid \<and> s' = s\<lparr>sv_pendingHandshakes := sv_pendingHandshakes s + 1\<rparr> \<and>
           sv_pendingHandshakes s < so_MaxPendingHandshakes (sv_options s)"
  shows "lease_inv s' q h'"
proof -
  have same: "sv_heap s' = sv_heap s" "sv_connections s' = sv_connections s" "sv_closeCh s' = sv_closeCh s" "sv_options s' = sv_options s"
    using assms(2) by auto
  have "counts_ok s' q h'" using inv assms(2) by (auto simp: lease_inv_def counts_ok_def)
  moreover have "action_ok s' x = action_ok s x" for x by (cases x) (simp_all add: same in_table_def)
  moreover have "hello_ok s' h'" using inv assms(2) by (auto simp: lease_inv_def)
  ultimately show ?thesis
    using inv assms(2) by (auto simp: lease_inv_def conn_ok_def table_ok_def leak_ok_def in_table_def same)
qed

lemma keeps_create:
  assumes inv: "lease_inv s q (HCreate cid)" and c: "fresh_connection (sv_options s) cid c"
  shows "lease_inv (s\<lparr>sv_heap := sv_heap s @ [c]\<rparr>) q (HSet (length (sv_heap s)))"
proof -
  let ?s = "s\<lparr>sv_heap := sv_heap s @ [c]\<rparr>" and ?n = "length (sv_heap s)"
  have free: "sv_connections s cid = None" using inv by (simp add: lease_inv_def)
  have at: "conn_at ?s p = (if p = ?n then c else conn_at s p)" if "p \<le> ?n" for p using that by (simp add: nth_append)
  have old: "action_ok ?s x" if "action_ok s x" for x using that by (cases x) (auto simp: in_table_def nth_append)
  have tab: "in_table ?s p = in_table s p" if "p < ?n" for p using that by (simp add: in_table_def nth_append)
  have "counts_ok ?s q (HSet ?n)" using inv c by (simp add: lease_inv_def counts_ok_def fresh_connection_def)
  moreover have "conn_ok ?s q p" if "p < length (sv_heap ?s)" for p
  proof (cases "p = ?n")
    case True
    with c show ?thesis by (simp add: conn_ok_def fresh_connection_def at)
  next
    case False
    with that have p: "p < ?n" by simp
    show ?thesis by (rule conn_ok_mono [OF invD(2) [OF inv p]]) (use p tab in \<open>auto simp: nth_append\<close>)
  qed
  moreover have "table_ok ?s"
    unfolding table_ok_def
  proof (intro allI impI)
    fix x p assume "sv_connections ?s x = Some p"
    then have "sv_connections s x = Some p" by simp
    with inv have "p < ?n \<and> cn_sourceId (conn_at s p) = x \<and> cn_totalLease (conn_at s p)" by (simp add: lease_inv_def table_ok_def)
    then show "p < length (sv_heap ?s) \<and> cn_sourceId (conn_at ?s p) = x \<and> cn_totalLease (conn_at ?s p)" by (simp add: nth_append)
  qed
  moreover have "hello_ok ?s (HSet ?n)" using free c by (simp add: fresh_connection_def)
  moreover have "leak_ok ?s q (HSet ?n)"
    unfolding leak_ok_def
  proof (intro impI allI)
    fix p assume p: "\<not> sv_closeCh ?s" "p < length (sv_heap ?s)" "cn_totalLease (conn_at ?s p)"
    show "in_table ?s p \<or> (\<exists>x \<in> set q. releases p x) \<or> HSet ?n = HSet p"
      using p invD(4) [OF inv, of p] tab [of p] by (cases "p = ?n") (auto simp: nth_append)
  qed
  ultimately show ?thesis using inv old by (auto simp: lease_inv_def)
qed

lemma keeps_set:
  assumes inv: "lease_inv s q (HSet p)" and "setConnection s (Some p) = (True, s')"
  shows "lease_inv s' q (HTimer p)"
proof -
  have p: "p < length (sv_heap s)" and m: "sv_connections s (cn_sourceId (conn_at s p)) \<in> {None, Some p}"
    using inv by (auto simp: lease_inv_def)
  have s': "s' = s\<lparr>sv_connections := (sv_connections s)(cn_sourceId (conn_at s p) \<mapsto> p)\<rparr>" and opn: "\<not> cn_closed (conn_at s p)"
    using assms(2) by (auto simp: setConnection_def split: if_splits)
  have fresh: "cn_closeOnce (conn_at s p) = OnceFresh" "cn_totalLease (conn_at s p)"
    using invD(2) [OF inv p] opn by (auto simp: conn_ok_def)
  have tab: "in_table s' r \<longleftrightarrow> in_table s r \<or> r = p" for r using m by (auto simp: in_table_def s')
  have same: "sv_heap s' = sv_heap s" "sv_closeCh s' = sv_closeCh s" by (simp_all add: s')
  have "action_ok s' x" if "x \<in> set q" for x
    using invD(1) [OF inv that] fresh by (cases x) (auto simp: same tab)
  moreover have "conn_ok s' q r" if "r < length (sv_heap s)" for r
    using invD(2) [OF inv that] fresh by (auto simp: conn_ok_def tab same)
  moreover have "table_ok s'"
    using inv p fresh(2) by (auto simp: lease_inv_def table_ok_def s')
  moreover have "leak_ok s' q (HTimer p)" using inv by (auto simp: lease_inv_def leak_ok_def tab same)
  ultimately show ?thesis using inv p by (simp add: lease_inv_def counts_ok_def same s')
qed


lemma memory_create:
  assumes "sys_inv (memory s fs)" and "fresh_connection (sv_options s) cid c" and "so_ReceiveBufferSize (sv_options s) < 2 ^ 63"
  shows "sys_inv (memory (s\<lparr>sv_heap := sv_heap s @ [c]\<rparr>) fs)"
proof -
  have "buffer_step (memory s fs) (EvNew (so_ReceiveBufferSize (sv_options s))) = Some (memory (s\<lparr>sv_heap := sv_heap s @ [c]\<rparr>) fs)"
    using assms(2) by (simp add: memory_def fresh_connection_def)
  from step_keepsD [OF assms(1) _ this] assms(3) show ?thesis by simp
qed

lemma hello_step_keeps:
  assumes "hello_step y y'" and inv: "system_inv y"
  shows "system_inv y'"
  using assms(1)
proof cases
  case (hello_new cid)
  with inv show ?thesis by (auto intro: hello_move)
next
  case (hello_reuse cid e)
  have "e < length (sv_heap (sy_server y)) \<and> cn_sourceId (conn_at (sy_server y) e) = cid"
    using inv hello_reuse(3) by (auto simp: system_inv_def lease_inv_def table_ok_def)
  with inv hello_reuse show ?thesis by (auto intro!: hello_move)
next
  case (hello_replace cid e)
  have "e < length (sv_heap (sy_server y)) \<and> cn_sourceId (conn_at (sy_server y) e) = cid"
    using inv hello_replace(3) by (auto simp: system_inv_def lease_inv_def table_ok_def)
  with inv hello_replace show ?thesis by (auto intro!: hello_spawn)
next
  case (hello_closed e cid)
  have h: "e < length (sv_heap (sy_server y))" "cn_sourceId (conn_at (sy_server y) e) = cid" "sv_connections (sy_server y) cid \<in> {None, Some e}"
    using hello_invD [OF inv hello_closed(2)] by simp_all
  have "\<not> in_table (sy_server y) e"
    using inv h(1) hello_closed(3) by (auto simp: system_inv_def lease_inv_def conn_ok_def)
  with h have "sv_connections (sy_server y) cid = None" by (auto simp: in_table_def)
  with inv hello_closed show ?thesis by (auto intro!: hello_move)
next
  case (hello_reject cid)
  with inv show ?thesis by (auto intro: hello_move)
next
  case (hello_full cid)
  with inv show ?thesis by (auto intro: hello_move)
next
  case (hello_total cid s)
  with inv keeps_counter [of "sy_server y" "queue y" "HReserve cid" cid "HPending cid"] show ?thesis by (auto simp: system_inv_def)
next
  case (hello_undo cid)
  with inv show ?thesis by (auto intro!: hello_spawn)
next
  case (hello_pending cid s)
  with inv keeps_counter [of "sy_server y" "queue y" "HPending cid" cid "HCreate cid"] show ?thesis by (auto simp: system_inv_def)
next
  case (hello_fail cid)
  with inv show ?thesis by (auto intro!: hello_spawn)
next
  case (hello_create cid s c)
  with inv keeps_create [of "sy_server y" "queue y" cid c] memory_create [of "sy_server y" "sy_frames y" cid c] show ?thesis
    by (auto simp: system_inv_def)
next
  case (hello_set p s')
  have "memory s' (sy_frames y) = memory (sy_server y) (sy_frames y)" "sv_options s' = sv_options (sy_server y)"
    using hello_set(3) by (auto simp: setConnection_def split: if_splits)
  with hello_set inv keeps_set [of "sy_server y" "queue y" p s'] show ?thesis by (auto simp: system_inv_def)
next
  case (hello_unset p s')
  with inv hello_invD [OF inv hello_unset(2)] show ?thesis by (auto intro!: hello_spawn)
next
  case (hello_timer p)
  have p: "p < length (sv_heap (sy_server y))" using hello_invD [OF inv hello_timer(2)] by simp
  have "system_inv (y\<lparr>sy_hello := HSend p\<rparr>)" using inv hello_timer p by (auto intro!: hello_move)
  then have "lease_inv (sy_server y) (queue y) (HSend p)" by (simp add: system_inv_def)
  then have "lease_inv (sy_server y) (queue y @ [StopTimer p]) (HSend p)" using p by (intro keeps_spawn) auto
  then have "lease_inv (upd_conn (sy_server y) p (\<lambda>c. c\<lparr>cn_handshakeTimer := True\<rparr>)) (queue y @ [] @ []) (HSend p)"
    using p by (intro keeps_quiet) auto
  with \<open>lease_inv (sy_server y) (queue y) (HSend p)\<close> hello_timer inv show ?thesis
    by (auto simp: system_inv_def startHandshakeTimer_def memory_upd)
next
  case (hello_sent p)
  with inv show ?thesis by (auto intro: hello_move)
next
  case (hello_unsent p)
  with inv hello_invD [OF inv hello_unsent(2)] show ?thesis by (auto intro!: hello_spawn)
qed


lemma count_if_cong: "length xs = length ys \<Longrightarrow> (\<And>i. i < length xs \<Longrightarrow> f (xs ! i) = f (ys ! i)) \<Longrightarrow> count_if f xs = count_if f ys"
proof (induction xs ys rule: list_induct2)
  case (Cons x xs y ys)
  have "f (xs ! i) = f (ys ! i)" if "i < length xs" for i using Cons.prems [of "Suc i"] that by simp
  with Cons.IH Cons.prems [of 0] show ?case by simp
qed simp

lemma lease_inv_heap:
  assumes inv: "lease_inv s q h" and len: "length (sv_heap s') = length (sv_heap s)"
    and same: "sv_connections s' = sv_connections s" "sv_closeCh s' = sv_closeCh s" "sv_options s' = sv_options s"
      "sv_totalConnections s' = sv_totalConnections s" "sv_pendingHandshakes s' = sv_pendingHandshakes s"
    and at: "\<And>p. p < length (sv_heap s) \<Longrightarrow> cn_sourceId (conn_at s' p) = cn_sourceId (conn_at s p) \<and> cn_closed (conn_at s' p) = cn_closed (conn_at s p) \<and>
      cn_pendingLease (conn_at s' p) = cn_pendingLease (conn_at s p) \<and> cn_totalLease (conn_at s' p) = cn_totalLease (conn_at s p) \<and>
      cn_closeOnce (conn_at s' p) = cn_closeOnce (conn_at s p)"
  shows "lease_inv s' q h"
proof -
  have tab: "in_table s' p = in_table s p" if "p < length (sv_heap s)" for p using at [OF that] by (simp add: in_table_def same)
  have "count_if cn_totalLease (sv_heap s') = count_if cn_totalLease (sv_heap s)"
    "count_if cn_pendingLease (sv_heap s') = count_if cn_pendingLease (sv_heap s)" using len at by (auto intro!: count_if_cong)
  then have "counts_ok s' q h" using inv by (simp add: lease_inv_def counts_ok_def same)
  moreover have "conn_ok s' q p" if "p < length (sv_heap s)" for p
    using invD(2) [OF inv that] at [OF that] tab [OF that] by (simp add: conn_ok_def)
  moreover have "action_ok s' x" if "action_ok s x" for x using that at tab len by (cases x) (auto simp: same)
  moreover have "table_ok s'" using inv at by (auto simp: lease_inv_def table_ok_def same len)
  moreover have "hello_ok s' h" using inv at by (cases h) (auto simp: lease_inv_def same len)
  moreover have "leak_ok s' q h" using inv at tab by (auto simp: lease_inv_def leak_ok_def same len)
  ultimately show ?thesis using inv len by (auto simp: lease_inv_def)
qed

lemma buffer_step_length: "buffer_step m e = Some m' \<Longrightarrow> \<forall>l. e \<noteq> EvNew l \<Longrightarrow> length (sys_bufs m') = length (sys_bufs m)"
  by (cases e) (auto simp: upd_buf_def split: if_splits prod.splits bool.splits option.splits)

lemma memory_set: "length (sys_bufs m) = length (sv_heap s) \<Longrightarrow> memory (set_memory s m) (sys_frames m) = m"
  by (cases m) (auto simp: memory_def set_memory_def intro!: nth_equalityI)

lemma env_step_keeps:
  assumes "env_step y y'" and inv: "system_inv y"
  shows "system_inv y'"
  using assms(1)
proof cases
  case (env_close p)
  with inv keeps_spawn [of "sy_server y" "queue y" "sy_hello y" "[MarkClosed p]" "sy_hello y"] show ?thesis
    by (auto simp: system_inv_def lease_inv_def spawn_def queue_def)
next
  case (env_timer p)
  with inv keeps_spawn [of "sy_server y" "queue y" "sy_hello y" "[TimerFired p]" "sy_hello y"] show ?thesis
    by (auto simp: system_inv_def lease_inv_def spawn_def queue_def)
next
  case (env_establish p agent conn)
  with inv keeps_spawn [of "sy_server y" "queue y" "sy_hello y" "[CheckEstablish p agent conn]" "sy_hello y"] show ?thesis
    by (auto simp: system_inv_def lease_inv_def spawn_def queue_def)
next
  case (env_shutdown ps)
  let ?s = "(sy_server y)\<lparr>sv_closeCh := True\<rparr>" and ?t = "map MarkClosed ps @ [ClearTable]"
  have i: "lease_inv (sy_server y) (queue y) (sy_hello y)" using inv by (simp add: system_inv_def)
  have old: "action_ok ?s x" if "action_ok (sy_server y) x" for x using that by (cases x) (auto simp: in_table_def)
  have h: "hello_ok ?s (sy_hello y)" using hello_invD [OF inv refl] by (cases "sy_hello y") auto
  have i': "lease_inv ?s (queue y) (sy_hello y)"
    using i old h by (auto simp: lease_inv_def counts_ok_def conn_ok_def table_ok_def leak_ok_def in_table_def)
  have ok: "action_ok ?s x" if "x \<in> set ?t" for x
  proof (cases x)
    case (MarkClosed p)
    then have "p \<in> ran (sv_connections (sy_server y))" using that env_shutdown(2) by auto
    then show ?thesis using MarkClosed i by (auto simp: ran_def lease_inv_def table_ok_def)
  qed (use that in auto)
  have z: "count_if (\<lambda>x. x = AddTotal) ?t = 0" "count_if (\<lambda>x. x = AddPending) ?t = 0" by (auto simp: count_if_def filter_empty_conv)
  have "lease_inv ?s (queue y @ ?t) (sy_hello y)"
    by (rule keeps_spawn [OF i' ok h]) (simp_all only: z, simp_all)
  then show ?thesis using env_shutdown(1) inv by (simp add: system_inv_def spawn_def queue_def)
next
  case (env_memory e m)
  have len: "length (sys_bufs m) = length (sv_heap (sy_server y))"
    using buffer_step_length [OF env_memory(4,3)] by (simp add: memory_def)
  have "lease_inv (set_memory (sy_server y) m) (queue y) (sy_hello y)"
    by (rule lease_inv_heap [where s = "sy_server y"]) (use inv len in \<open>auto simp: system_inv_def set_memory_def\<close>)
  moreover have "sys_inv m" using step_keepsD [OF _ env_memory(2,4)] inv by (simp add: system_inv_def)
  ultimately show ?thesis using env_memory(1) memory_set [OF len] inv by (simp add: system_inv_def set_memory_def)
next
  case (env_other p f)
  have "lease_inv (upd_conn (sy_server y) p f) (queue y) (sy_hello y)"
    by (rule lease_inv_heap [where s = "sy_server y"]) (use inv env_other in \<open>auto simp: system_inv_def lease_frame_def\<close>)
  with env_other inv show ?thesis by (simp add: system_inv_def memory_upd lease_frame_def)
qed

definition initial_server :: "'c server \<Rightarrow> bool" where
  "initial_server s \<longleftrightarrow> sv_connections s = Map.empty \<and> sv_heap s = [] \<and> \<not> sv_closeCh s \<and> sv_totalConnections s = 0 \<and> sv_pendingHandshakes s = 0 \<and>
     sv_bufferBudget s = Some (NewByteBudget (so_MaxBufferedBytes (sv_options s)))"

text \<open>Go's int and int64 fields hold 64-bit values.\<close>

definition machine_options :: "server_options \<Rightarrow> bool" where
  "machine_options opts \<longleftrightarrow> so_MaxConnections opts < 2 ^ 63 \<and> so_MaxPendingHandshakes opts < 2 ^ 63 \<and> so_ReceiveBufferSize opts < 2 ^ 63 \<and>
     so_MaxBufferedBytes opts < 2 ^ 63"

lemma init_inv:
  assumes "initial_server s" and "server_options_ok (sv_options s)" and "machine_options (sv_options s)"
  shows "system_inv \<lparr>sy_server = s, sy_hello = HIdle, sy_threads = [], sy_frames = []\<rparr>"
proof -
  have "sys_inv (memory s [])"
    using sys_inv_init [of "so_MaxBufferedBytes (sv_options s)"] assms
    by (auto simp: memory_def initial_server_def buffer_sys_init_def server_options_ok_def machine_options_def)
  with assms show ?thesis
    by (auto simp: system_inv_def queue_def inv_defs initial_server_def server_options_ok_def machine_options_def)
qed

lemma reachable_inv:
  assumes "reachable closeHandle s y" and "initial_server s" and "server_options_ok (sv_options s)" and "machine_options (sv_options s)"
  shows "system_inv y"
  using assms(1)
  by induction (use init_inv [OF assms(2-4)] thread_step_keeps hello_step_keeps env_step_keeps in blast)+


section \<open>Goroutines finish\<close>

fun is_Closing :: "action \<Rightarrow> bool" where
  "is_Closing (Closing p k w) \<longleftrightarrow> True" | "is_Closing _ \<longleftrightarrow> False"

text \<open>A goroutine inside closeOnce is at the front of its actions, up to the decrement that comes before.\<close>

definition thread_ok :: "action list \<Rightarrow> bool" where
  "thread_ok t \<longleftrightarrow> (\<exists>adds r. t = adds @ r \<and> set adds \<subseteq> {AddPending, AddTotal} \<and> (\<forall>x \<in> set (tl r). \<not> is_Closing x))"

lemma thread_okI: "(\<forall>x \<in> set t. \<not> is_Closing x) \<Longrightarrow> thread_ok t"
  unfolding thread_ok_def by (intro exI [of _ "[]"] exI [of _ t]) (cases t; auto)

lemma exec_shape:
  assumes "exec_action closeHandle s a = Some (s', new)"
  shows "\<exists>adds r. new = adds @ r \<and> set adds \<subseteq> {AddPending, AddTotal} \<and> length r \<le> 1 \<or> (\<forall>x \<in> set new. \<not> is_Closing x)"
proof -
  have i: "set adds \<subseteq> {AddPending, AddTotal} \<Longrightarrow> new = adds @ [x] \<Longrightarrow> ?thesis" for adds x
    by (rule exI [of _ adds], rule exI [of _ "[x]"]) simp
  show ?thesis
    using assms i [of "[]"] i [of "[AddPending]"] i [of "[AddTotal]"]
    by (cases a) (auto simp: closing_step_def Let_def split: once_state.splits if_splits)
qed

lemma thread_ok_exec:
  assumes t: "thread_ok (a # rest)" and e: "exec_action closeHandle s a = Some (s', new)"
  shows "thread_ok (new @ rest)"
proof -
  obtain adds r where r: "a # rest = adds @ r" "set adds \<subseteq> {AddPending, AddTotal}" "\<forall>x \<in> set (tl r). \<not> is_Closing x"
    using t by (auto simp: thread_ok_def)
  show ?thesis
  proof (cases adds)
    case (Cons b adds')
    then have "new = []" using r e by auto
    moreover have "thread_ok rest" using Cons r unfolding thread_ok_def by (intro exI [of _ adds'] exI [of _ r]) auto
    ultimately show ?thesis by simp
  next
    case Nil
    then have rest: "\<forall>x \<in> set rest. \<not> is_Closing x" using r by auto
    from exec_shape [OF e] consider (short) adds' r' where "new = adds' @ r'" "set adds' \<subseteq> {AddPending, AddTotal}" "length r' \<le> 1"
      | (plain) "\<forall>x \<in> set new. \<not> is_Closing x" by blast
    then show ?thesis
    proof cases
      case short
      then show ?thesis
        unfolding thread_ok_def using rest
        by (intro exI [of _ adds'] exI [of _ "r' @ rest"]) (cases r'; cases rest; auto)
    next
      case plain
      with rest show ?thesis by (intro thread_okI) auto
    qed
  qed
qed

lemma reachable_threads: "reachable closeHandle s y \<Longrightarrow> list_all thread_ok (sy_threads y)"
proof (induction rule: reachable.induct)
  case (reach_thread y y')
  from reach_thread.hyps(2) show ?case
  proof cases
    case (thread xs a rest ys s' new)
    with reach_thread.IH thread_ok_exec [OF _ thread(3), of rest] show ?thesis by simp
  qed
next
  case (reach_hello y y')
  from reach_hello.hyps(2) reach_hello.IH show ?case by cases (auto simp: spawn_def intro!: thread_okI)
next
  case (reach_env y y')
  from reach_env.hyps(2) reach_env.IH show ?case by cases (auto simp: spawn_def intro!: thread_okI)
qed simp

fun weight :: "action \<Rightarrow> nat" where
  "weight (MarkClosed p) = 19"
| "weight (CloseOnce p) = 18"
| "weight (Closing p k w) = Suc (2 * (8 - k))"
| "weight (TimerFired p) = 20"
| "weight (CheckEstablish p ag t) = 20"
| "weight (SwapPending p) = 2"
| "weight _ = 1"

definition work :: "'c system \<Rightarrow> nat" where
  "work y = sum_list (map weight (queue y))"

lemma exec_weight: "exec_action closeHandle s a = Some (s', new) \<Longrightarrow> sum_list (map weight new) < weight a"
proof (cases a)
  case (Closing p k w)
  moreover assume "exec_action closeHandle s a = Some (s', new)"
  ultimately show ?thesis by (auto simp: closing_step_def split: if_splits)
qed (auto simp: Let_def split: once_state.splits if_splits)

lemma thread_step_work:
  assumes "thread_step closeHandle y y'"
  shows "work y' < work y"
  using assms
proof cases
  case (thread xs a rest ys s' new)
  with exec_weight [OF thread(3)] show ?thesis by (simp add: work_def queue_def)
qed

lemma exec_blocked:
  assumes "exec_action closeHandle s a = None" and "sys_inv (memory s fs)" and "action_ok s a"
  shows "\<exists>p. a = CloseOnce p \<and> cn_closeOnce (conn_at s p) = OnceRunning"
proof (cases a)
  case (Closing p k w)
  with assms have p: "p < length (sv_heap s)" and n: "closeRecvBuf s p = None" by (auto simp: closing_step_def split: if_splits)
  have "buffer_step (memory s fs) (EvClose p) = None" using n p by (simp add: closeRecvBuf_def memory_def)
  with buffer_step_keeps [OF assms(2), of "EvClose p"] show ?thesis by (simp add: step_keeps_def)
qed (use assms in \<open>auto simp: Let_def split: once_state.splits\<close>)

lemma in_concat_split: "x \<in> set (concat ts) \<Longrightarrow> \<exists>xs t ys. ts = xs @ t # ys \<and> x \<in> set t"
  by (metis UN_E set_concat split_list)

lemma progress:
  assumes inv: "system_inv y" and ok: "list_all thread_ok (sy_threads y)" and "t \<in> set (sy_threads y)" "t \<noteq> []"
  shows "\<exists>y'. thread_step closeHandle y y'"
proof (rule ccontr)
  assume stuck: "\<nexists>y'. thread_step closeHandle y y'"
  have none: "exec_action closeHandle (sy_server y) a = None" if "sy_threads y = xs @ (a # rest) # ys" for xs a rest ys
    using stuck thread_step.thread [OF that, of closeHandle] by (cases "exec_action closeHandle (sy_server y) a") auto
  have head: "\<exists>p. a = CloseOnce p \<and> cn_closeOnce (conn_at (sy_server y) p) = OnceRunning \<and> p < length (sv_heap (sy_server y))"
    if "sy_threads y = xs @ (a # rest) # ys" for xs a rest ys
  proof -
    have a: "action_ok (sy_server y) a" using inv that by (simp add: system_inv_def lease_inv_def queue_def)
    have "sys_inv (memory (sy_server y) (sy_frames y))" using inv by (simp add: system_inv_def)
    from exec_blocked [OF none [OF that] this a] a show ?thesis by auto
  qed
  obtain xs ys where "sy_threads y = xs @ t # ys" using assms(3) by (metis split_list)
  with assms(4) obtain a rest where "sy_threads y = xs @ (a # rest) # ys" by (cases t) auto
  from head [OF this] obtain p where p: "cn_closeOnce (conn_at (sy_server y) p) = OnceRunning" "p < length (sv_heap (sy_server y))" by blast
  then obtain k w where "Closing p k w \<in> set (queue y)" using inv by (auto simp: system_inv_def lease_inv_def conn_ok_def)
  then obtain us t' vs where t': "sy_threads y = us @ t' # vs" "Closing p k w \<in> set t'" unfolding queue_def using in_concat_split by metis
  then obtain b rest' where b: "t' = b # rest'" by (cases t') auto
  from head [of us b rest' vs] t'(1) b obtain q where q: "b = CloseOnce q" by auto
  obtain adds r where "t' = adds @ r" "set adds \<subseteq> {AddPending, AddTotal}" "\<forall>x \<in> set (tl r). \<not> is_Closing x"
    using ok t'(1) by (auto simp: thread_ok_def)
  with b q t'(2) show False by (cases adds; cases r) auto
qed


section \<open>Properties\<close>

lemma NewServer_initial:
  assumes "NewServer L lru_New a (Some opts) = Inr s"
  shows "initial_server s" and "server_options_ok (sv_options s)"
proof -
  obtain opts' where o: "NewServer_options L a (Some opts) = Inr opts'" and s: "sv_options s = opts'"
    and i: "initial_server s"
    using assms by (auto simp: NewServer_def bind_result_Inr_iff initial_server_def)
  show "initial_server s" by (rule i)
  from completed_options_ok [OF o] show "server_options_ok (sv_options s)" by (simp add: s)
qed

section \<open>A sample run\<close>

lemma sample_fresh: "fresh_connection opts ''c'' (sample_connection opts)"
  by (simp add: fresh_connection_def sample_connection_def)

text \<open>One client says hello and is entered into the table.\<close>

lemma sample_run:
  assumes "initial_server s" and "server_options_ok (sv_options s)"
  shows "\<exists>y. reachable closeHandle s y \<and> sy_threads y = [] \<and> sy_hello y = HIdle \<and> \<not> sv_closeCh (sy_server y) \<and>
    sv_connections (sy_server y) = [''c'' \<mapsto> 0] \<and> length (sv_heap (sy_server y)) = 1"
proof -
  let ?c = "sample_connection (sv_options s)"
  let ?y0 = "\<lparr>sy_server = s, sy_hello = HIdle, sy_threads = [], sy_frames = []\<rparr>"
  let ?s1 = "s\<lparr>sv_totalConnections := sv_totalConnections s + 1\<rparr>"
  let ?s2 = "?s1\<lparr>sv_pendingHandshakes := sv_pendingHandshakes ?s1 + 1\<rparr>"
  let ?s3 = "?s2\<lparr>sv_heap := sv_heap ?s2 @ [?c]\<rparr>"
  let ?s4 = "?s3\<lparr>sv_connections := (sv_connections ?s3)(cn_sourceId (conn_at ?s3 0) \<mapsto> 0)\<rparr>"
  have i: "sv_heap s = []" "sv_connections s = Map.empty" "\<not> sv_closeCh s" "sv_totalConnections s = 0" "sv_pendingHandshakes s = 0"
    using assms(1) by (simp_all add: initial_server_def)
  have m: "1 \<le> so_MaxConnections (sv_options s)" "1 \<le> so_MaxPendingHandshakes (sv_options s)"
    using assms(2) by (simp_all add: server_options_ok_def)
  have r0: "reachable closeHandle s ?y0" by (rule reach_init)
  have r1: "reachable closeHandle s (?y0\<lparr>sy_hello := HReserve ''c''\<rparr>)"
    by (rule reach_hello [OF r0], rule hello_new) (simp_all add: i)
  have r2: "reachable closeHandle s (?y0\<lparr>sy_server := ?s1, sy_hello := HPending ''c''\<rparr>)"
    using reach_hello [OF r1 hello_total [OF _ refl]] m i by simp
  have r3: "reachable closeHandle s (?y0\<lparr>sy_server := ?s2, sy_hello := HCreate ''c''\<rparr>)"
    using reach_hello [OF r2 hello_pending [OF _ refl]] m i by simp
  have r4: "reachable closeHandle s (?y0\<lparr>sy_server := ?s3, sy_hello := HSet 0\<rparr>)"
    using reach_hello [OF r3 hello_create [OF _ refl, of _ "''c''" ?c]] sample_fresh [of "sv_options s"] i by simp
  have "setConnection ?s3 (Some 0) = (True, ?s4)" using i by (simp add: setConnection_def sample_connection_def)
  then have r5: "reachable closeHandle s (?y0\<lparr>sy_server := ?s4, sy_hello := HTimer 0\<rparr>)"
    using reach_hello [OF r4 hello_set [of _ 0 ?s4]] by simp
  have r6: "reachable closeHandle s (?y0\<lparr>sy_server := startHandshakeTimer ?s4 0, sy_hello := HSend 0\<rparr>)"
    using reach_hello [OF r5 hello_timer] by simp
  have r7: "reachable closeHandle s (?y0\<lparr>sy_server := startHandshakeTimer ?s4 0, sy_hello := HIdle\<rparr>)"
    using reach_hello [OF r6 hello_sent] by simp
  show ?thesis
    by (rule exI [of _ "?y0\<lparr>sy_server := startHandshakeTimer ?s4 0, sy_hello := HIdle\<rparr>"], intro conjI, rule r7)
      (use i in \<open>simp_all add: startHandshakeTimer_def sample_connection_def\<close>)
qed

lemma sample_server:
  "\<exists>s :: unit server. NewServer symbolic_lib (\<lambda>n. Inr ()) sample_api (Some sample_server_options) = Inr s \<and> machine_options (sv_options s)"
proof -
  obtain opts where o: "NewServer_options symbolic_lib sample_api (Some sample_server_options) = Inr opts" using sample_server_ok by blast
  from NewServer_options_Inr [OF o] obtain ts where "opts = defaultCipher (serverDefaults (sample_server_options\<lparr>so_Transports := ts\<rparr>))" by blast
  then have m: "machine_options opts"
    by (simp add: machine_options_def defaultCipher_def serverDefaults_def orDefault_def sample_server_options_def default_defs)
  from o m show ?thesis
    by (simp add: NewServer_def ServerIDFromPublicKey_def symbolic_lib_def ed25519_PublicKeySize_def)
qed

text \<open>
  C8. The limits hold under every interleaving. Whatever goroutines close connections, time out, finish transports, handle hellos or
  shut the server down, in any order of their atomic actions, totalConnections stays between 0 and MaxConnections and pendingHandshakes
  between 0 and MaxPendingHandshakes, and each counter is exactly the number of leases held by
  connections, plus the decrements already owed, plus the reservation of the hello in progress. The byte budget always equals the unread bytes and the frames in work.
\<close>

theorem lease_counters_exact:
  assumes "NewServer L lru_New a (Some opts) = Inr s0" and "machine_options (sv_options s0)" and "reachable closeHandle s0 y"
  shows "let s = sy_server y in
    0 \<le> sv_totalConnections s \<and> sv_totalConnections s \<le> so_MaxConnections (sv_options s) \<and>
    0 \<le> sv_pendingHandshakes s \<and> sv_pendingHandshakes s \<le> so_MaxPendingHandshakes (sv_options s) \<and>
    sv_totalConnections s = count_if cn_totalLease (sv_heap s) + count_if (\<lambda>x. x = AddTotal) (queue y) + hello_total (sy_hello y) \<and>
    sv_pendingHandshakes s = count_if cn_pendingLease (sv_heap s) + count_if (\<lambda>x. x = AddPending) (queue y) + hello_pends (sy_hello y) \<and>
    ByteBudget_Used (sv_bufferBudget s) = (\<Sum>c \<leftarrow> sv_heap s. rb_len (cn_recvBuf c)) + (\<Sum>n \<leftarrow> sy_frames y. int n)"
proof -
  have inv: "system_inv y" by (rule reachable_inv [OF assms(3) NewServer_initial [OF assms(1)] assms(2)])
  have nn: "0 \<le> hello_total (sy_hello y)" "0 \<le> hello_pends (sy_hello y)" by (cases "sy_hello y"; simp)+
  have m: "ByteBudget_Used (sv_bufferBudget (sy_server y)) = (\<Sum>c \<leftarrow> sv_heap (sy_server y). rb_len (cn_recvBuf c)) + (\<Sum>n \<leftarrow> sy_frames y. int n)"
    using inv by (simp add: system_inv_def sys_inv_def memory_def buffered_def comp_def)
  show ?thesis
    using inv nn m count_if_nonneg [of cn_totalLease "sv_heap (sy_server y)"] count_if_nonneg [of cn_pendingLease "sv_heap (sy_server y)"]
      count_if_nonneg [of "\<lambda>x. x = AddTotal" "queue y"] count_if_nonneg [of "\<lambda>x. x = AddPending" "queue y"]
    by (simp add: system_inv_def lease_inv_def counts_ok_def Let_def)
qed

theorem lease_counters_exact_witness:
  "\<exists>(s0 :: unit server) y. NewServer symbolic_lib (\<lambda>n. Inr ()) sample_api (Some sample_server_options) = Inr s0 \<and> reachable (\<lambda>_. None) s0 y \<and>
     length (sv_heap (sy_server y)) = 1 \<and> 0 \<le> sv_totalConnections (sy_server y) \<and>
     sv_totalConnections (sy_server y) \<le> so_MaxConnections (sv_options (sy_server y))"
proof -
  obtain s0 :: "unit server" where s: "NewServer symbolic_lib (\<lambda>n. Inr ()) sample_api (Some sample_server_options) = Inr s0"
    "machine_options (sv_options s0)" using sample_server by blast
  obtain y where y: "reachable (\<lambda>_. None) s0 y" "length (sv_heap (sy_server y)) = 1" using sample_run [OF NewServer_initial [OF s(1)]] by blast
  from lease_counters_exact [OF s y(1)] s y show ?thesis by (auto simp: Let_def)
qed

lemma leases_card:
  assumes "table_ok s" and "\<And>p. p < length (sv_heap s) \<Longrightarrow> cn_totalLease (conn_at s p) \<Longrightarrow> in_table s p"
  shows "count_if cn_totalLease (sv_heap s) = int (card (dom (sv_connections s)))"
proof -
  let ?P = "{p. p < length (sv_heap s) \<and> cn_totalLease (conn_at s p)}"
  have "bij_betw (\<lambda>p. cn_sourceId (conn_at s p)) ?P (dom (sv_connections s))"
  proof (rule bij_betw_byWitness [where f' = "\<lambda>x. the (sv_connections s x)"])
    show "\<forall>p \<in> ?P. the (sv_connections s (cn_sourceId (conn_at s p))) = p" using assms(2) by (auto simp: in_table_def)
    show "\<forall>x \<in> dom (sv_connections s). cn_sourceId (conn_at s (the (sv_connections s x))) = x" using assms(1) by (auto simp: table_ok_def)
    show "(\<lambda>p. cn_sourceId (conn_at s p)) ` ?P \<subseteq> dom (sv_connections s)" using assms(2) by (auto simp: in_table_def)
    show "(\<lambda>x. the (sv_connections s x)) ` dom (sv_connections s) \<subseteq> ?P" using assms(1) by (auto simp: table_ok_def)
  qed
  then have "card ?P = card (dom (sv_connections s))" by (rule bij_betw_same_card)
  then show ?thesis by (simp add: count_if_def length_filter_conv_card)
qed

text \<open>
  C9. No lease is lost. When no goroutine is at work and the server is open, totalConnections is the number of clients in the table,
  every leased connection is the current one of its client, and no connection outside the table holds a pending handshake;
  in particular, the server accepts new clients again after old ones are gone.
\<close>

theorem no_lease_lost:
  assumes "NewServer L lru_New a (Some opts) = Inr s0" and "machine_options (sv_options s0)" and "reachable closeHandle s0 y"
    and "\<forall>t \<in> set (sy_threads y). t = []" and "sy_hello y = HIdle" and "\<not> sv_closeCh (sy_server y)"
  shows "sv_totalConnections (sy_server y) = int (card (dom (sv_connections (sy_server y)))) \<and>
    (\<forall>p < length (sv_heap (sy_server y)). cn_totalLease (conn_at (sy_server y) p) \<longleftrightarrow>
       sv_connections (sy_server y) (cn_sourceId (conn_at (sy_server y) p)) = Some p) \<and>
    sv_pendingHandshakes (sy_server y) = count_if cn_pendingLease (sv_heap (sy_server y)) \<and>
    sv_pendingHandshakes (sy_server y) \<le> sv_totalConnections (sy_server y)"
proof -
  let ?s = "sy_server y"
  have inv: "lease_inv ?s (queue y) (sy_hello y)"
    using reachable_inv [OF assms(3) NewServer_initial [OF assms(1)] assms(2)] by (simp add: system_inv_def)
  have q: "queue y = []" using assms(4) by (simp add: queue_def)
  have tab: "in_table ?s p" if "p < length (sv_heap ?s)" "cn_totalLease (conn_at ?s p)" for p
    using invD(4) [OF inv assms(6) that] assms(5) q by auto
  have c: "count_if cn_totalLease (sv_heap ?s) = int (card (dom (sv_connections ?s)))"
    by (rule leases_card [OF _ tab]) (use inv in \<open>simp add: lease_inv_def\<close>)
  have "count_if cn_pendingLease (sv_heap ?s) \<le> count_if cn_totalLease (sv_heap ?s)"
    using invD(2) [OF inv] unfolding count_if_def length_filter_conv_card
    by (auto simp: conn_ok_def intro!: card_mono)
  with inv q c tab assms(5) invD(3) [OF inv] show ?thesis by (auto simp: lease_inv_def counts_ok_def in_table_def)
qed

theorem no_lease_lost_witness:
  "\<exists>(s0 :: unit server) y. NewServer symbolic_lib (\<lambda>n. Inr ()) sample_api (Some sample_server_options) = Inr s0 \<and> reachable (\<lambda>_. None) s0 y \<and>
     sv_totalConnections (sy_server y) = 1"
proof -
  obtain s0 :: "unit server" where s: "NewServer symbolic_lib (\<lambda>n. Inr ()) sample_api (Some sample_server_options) = Inr s0"
    "machine_options (sv_options s0)" using sample_server by blast
  obtain y where y: "reachable (\<lambda>_. None) s0 y" "sy_threads y = []" "sy_hello y = HIdle" "\<not> sv_closeCh (sy_server y)"
    "sv_connections (sy_server y) = [''c'' \<mapsto> 0]" using sample_run [OF NewServer_initial [OF s(1)]] by blast
  from no_lease_lost [OF s y(1) _ y(3,4)] s y show ?thesis by auto
qed

text \<open>
  The goroutines never wait for each other in a circle at closeOnce and always finish: while one of them has an action left, one can run,
  and every action brings the work left down. The mutexes are not part of this: an action is a whole critical section.
\<close>

lemma goroutines_finish:
  assumes "NewServer L lru_New a (Some opts) = Inr s0" and "machine_options (sv_options s0)" and "reachable closeHandle s0 y"
  shows "((\<exists>t \<in> set (sy_threads y). t \<noteq> []) \<longrightarrow> (\<exists>y'. thread_step closeHandle y y')) \<and>
    (\<forall>y'. thread_step closeHandle y y' \<longrightarrow> reachable closeHandle s0 y' \<and> work y' < work y)"
  using progress [OF reachable_inv [OF assms(3) NewServer_initial [OF assms(1)] assms(2)] reachable_threads [OF assms(3)]]
    thread_step_work reachable.reach_thread [OF assms(3)] by blast

section \<open>Close alone is the sequence of its actions\<close>

text \<open>One action of a goroutine that runs without interruption.\<close>

inductive solo :: "(nat \<Rightarrow> go_error option) \<Rightarrow> 'c server \<times> action list \<Rightarrow> 'c server \<times> action list \<Rightarrow> bool" for closeHandle where
  solo: "exec_action closeHandle s a = Some (s', new) \<Longrightarrow> solo closeHandle (s, a # rest) (s', new @ rest)"

text \<open>The intermediate mark of closeOnce commutes with every action of its body.\<close>

definition running :: "nat \<Rightarrow> 'c server \<Rightarrow> 'c server" where
  "running p s = upd_conn s p (\<lambda>c. c\<lparr>cn_closeOnce := OnceRunning\<rparr>)"

lemma running_at [simp]:
  "p < length (sv_heap s) \<Longrightarrow> conn_at (running p s) q = (if q = p then (conn_at s p)\<lparr>cn_closeOnce := OnceRunning\<rparr> else conn_at s q)"
  "length (sv_heap (running p s)) = length (sv_heap s)" "sv_connections (running p s) = sv_connections s"
  "sv_bufferBudget (running p s) = sv_bufferBudget s"
  by (simp_all add: running_def)

lemma once_last:
  "c\<lparr>cn_closeOnce := x, cn_established := e\<rparr> = c\<lparr>cn_established := e, cn_closeOnce := x\<rparr>"
  "c\<lparr>cn_closeOnce := x, cn_recvBuf := rb\<rparr> = c\<lparr>cn_recvBuf := rb, cn_closeOnce := x\<rparr>"
  "c\<lparr>cn_closeOnce := x, cn_handshakeTimer := t\<rparr> = c\<lparr>cn_handshakeTimer := t, cn_closeOnce := x\<rparr>"
  "c\<lparr>cn_closeOnce := x, cn_pendingLease := l\<rparr> = c\<lparr>cn_pendingLease := l, cn_closeOnce := x\<rparr>"
  "c\<lparr>cn_closeOnce := x, cn_totalLease := l\<rparr> = c\<lparr>cn_totalLease := l, cn_closeOnce := x\<rparr>"
  "c\<lparr>cn_closeOnce := x, cn_closeErr := er\<rparr> = c\<lparr>cn_closeErr := er, cn_closeOnce := x\<rparr>"
  "c\<lparr>cn_closeOnce := x, cn_transportConn := None, cn_dataChannel := None, cn_iceAgent := None, cn_localAddr := z, cn_remoteAddr := z\<rparr> =
   c\<lparr>cn_transportConn := None, cn_dataChannel := None, cn_iceAgent := None, cn_localAddr := z, cn_remoteAddr := z, cn_closeOnce := x\<rparr>"
  by (simp_all add: connection.equality)

lemma running_upd:
  assumes "p < length (sv_heap s)" and "\<And>c. f (c\<lparr>cn_closeOnce := OnceRunning\<rparr>) = (f c)\<lparr>cn_closeOnce := OnceRunning\<rparr>"
  shows "upd_conn (running p s) p f = running p (upd_conn s p f)"
  using assms by (simp add: running_def upd_conn_twice)

lemma running_commutes:
  assumes p: "p < length (sv_heap s)"
  shows "upd_conn (running p s) p (\<lambda>c. c\<lparr>cn_established := False\<rparr>) = running p (upd_conn s p (\<lambda>c. c\<lparr>cn_established := False\<rparr>))"
    and "closeRecvBuf (running p s) p = map_option (running p) (closeRecvBuf s p)"
    and "removeCurrent (running p s) p = (fst (removeCurrent s p), running p (snd (removeCurrent s p)))"
    and "stopHandshakeTimer (running p s) p = running p (stopHandshakeTimer s p)"
    and "swapPendingLease (running p s) p = (fst (swapPendingLease s p), running p (snd (swapPendingLease s p)))"
    and "swapTotalLease (running p s) p = (fst (swapTotalLease s p), running p (snd (swapTotalLease s p)))"
    and "addPending (running p s) d = running p (addPending s d)" "addTotal (running p s) d = running p (addTotal s d)"
    and "upd_conn (running p s) p (\<lambda>c. c\<lparr>cn_closeOnce := OnceDone\<rparr>) = upd_conn s p (\<lambda>c. c\<lparr>cn_closeOnce := OnceDone\<rparr>)"
proof -
  show "upd_conn (running p s) p (\<lambda>c. c\<lparr>cn_established := False\<rparr>) = running p (upd_conn s p (\<lambda>c. c\<lparr>cn_established := False\<rparr>))"
    by (rule running_upd [OF p]) (rule once_last)
  have "upd_conn (running p s) p (\<lambda>c. c\<lparr>cn_recvBuf := rb\<rparr>) = running p (upd_conn s p (\<lambda>c. c\<lparr>cn_recvBuf := rb\<rparr>))" for rb
    by (rule running_upd [OF p]) (rule once_last)
  then show "closeRecvBuf (running p s) p = map_option (running p) (closeRecvBuf s p)"
    using p by (cases "RecvBuffer_Close (cn_recvBuf (conn_at s p)) (sv_bufferBudget s)") (auto simp: closeRecvBuf_def running_def upd_conn_def)
  show "removeCurrent (running p s) p = (fst (removeCurrent s p), running p (snd (removeCurrent s p)))"
    using p by (simp add: removeCurrent_def running_def upd_conn_def)
  show "stopHandshakeTimer (running p s) p = running p (stopHandshakeTimer s p)"
    unfolding stopHandshakeTimer_def by (rule running_upd [OF p]) (rule once_last)
  show "swapPendingLease (running p s) p = (fst (swapPendingLease s p), running p (snd (swapPendingLease s p)))"
    unfolding swapPendingLease_def fst_conv snd_conv by (subst running_upd [OF p]) (use p in \<open>simp_all add: once_last\<close>)
  show "swapTotalLease (running p s) p = (fst (swapTotalLease s p), running p (snd (swapTotalLease s p)))"
    unfolding swapTotalLease_def fst_conv snd_conv by (subst running_upd [OF p]) (use p in \<open>simp_all add: once_last\<close>)
qed (use p in \<open>simp_all add: addPending_def addTotal_def running_def upd_conn_def\<close>)

lemma running_emit: "emit (running p s) es = running p (emit s es)"
  by (simp add: running_def emit_def upd_conn_def)

lemma running_detach:
  assumes "p < length (sv_heap s)"
  shows "detachTransport closeHandle (running p s) p = running p (detachTransport closeHandle s p)"
  unfolding detachTransport_def Let_def
  by (cases "cn_transportConn (conn_at s p)"; cases "cn_iceAgent (conn_at s p)")
    (use assms in \<open>simp_all add: running_upd running_emit once_last\<close>)

lemma length_ops [simp]:
  "length (sv_heap (snd (removeCurrent s p))) = length (sv_heap s)" "length (sv_heap (stopHandshakeTimer s q)) = length (sv_heap s)"
  "length (sv_heap (snd (swapPendingLease s q))) = length (sv_heap s)" "length (sv_heap (snd (swapTotalLease s q))) = length (sv_heap s)"
  "length (sv_heap (addPending s d)) = length (sv_heap s)" "length (sv_heap (addTotal s d)) = length (sv_heap s)"
  "closeRecvBuf s p = Some s' \<Longrightarrow> length (sv_heap s') = length (sv_heap s)"
  by (auto simp: removeCurrent_def stopHandshakeTimer_def swapPendingLease_def swapTotalLease_def addPending_def addTotal_def closeRecvBuf_def)

lemma detach_length: "p < length (sv_heap s) \<Longrightarrow> p < length (sv_heap (detachTransport closeHandle s p))"
  by (simp add: detachTransport_def Let_def split: option.splits)

text \<open>Swap and the decrement after it, which leads on to the next action of the body.\<close>

lemma solo_pending:
  assumes "p < length (sv_heap s)"
  shows "(solo closeHandle)\<^sup>*\<^sup>* (running p s, [Closing p 4 w])
    (running p (if fst (swapPendingLease s p) then addPending (snd (swapPendingLease s p)) (- 1) else snd (swapPendingLease s p)), [Closing p 5 w])"
proof (cases "fst (swapPendingLease s p)")
  case True
  have "solo closeHandle (running p s, [Closing p 4 w]) (running p (snd (swapPendingLease s p)), [AddPending, Closing p 5 w] @ [])"
    by (rule solo.solo) (use assms True in \<open>simp add: closing_step_def running_commutes\<close>)
  moreover have "solo closeHandle (running p (snd (swapPendingLease s p)), AddPending # [Closing p 5 w])
      (running p (addPending (snd (swapPendingLease s p)) (- 1)), [] @ [Closing p 5 w])"
    by (rule solo.solo) (use assms in \<open>simp add: running_commutes\<close>)
  ultimately show ?thesis using True by simp
next
  case False
  have "solo closeHandle (running p s, [Closing p 4 w]) (running p (snd (swapPendingLease s p)), [Closing p 5 w] @ [])"
    by (rule solo.solo) (use assms False in \<open>simp add: closing_step_def running_commutes\<close>)
  then show ?thesis using False by simp
qed

lemma solo_total:
  assumes "p < length (sv_heap s)"
  shows "(solo closeHandle)\<^sup>*\<^sup>* (running p s, [Closing p 5 w])
    (running p (if fst (swapTotalLease s p) then addTotal (snd (swapTotalLease s p)) (- 1) else snd (swapTotalLease s p)), [Closing p 6 w])"
proof (cases "fst (swapTotalLease s p)")
  case True
  have "solo closeHandle (running p s, [Closing p 5 w]) (running p (snd (swapTotalLease s p)), [AddTotal, Closing p 6 w] @ [])"
    by (rule solo.solo) (use assms True in \<open>simp add: closing_step_def running_commutes\<close>)
  moreover have "solo closeHandle (running p (snd (swapTotalLease s p)), AddTotal # [Closing p 6 w])
      (running p (addTotal (snd (swapTotalLease s p)) (- 1)), [] @ [Closing p 6 w])"
    by (rule solo.solo) (use assms in \<open>simp add: running_commutes\<close>)
  ultimately show ?thesis using True by simp
next
  case False
  have "solo closeHandle (running p s, [Closing p 5 w]) (running p (snd (swapTotalLease s p)), [Closing p 6 w] @ [])"
    by (rule solo.solo) (use assms False in \<open>simp add: closing_step_def running_commutes\<close>)
  then show ?thesis using False by simp
qed

lemma solo_closing:
  "p < length (sv_heap s) \<Longrightarrow> closing_step closeHandle (running p s) p k w = Some (s', [a]) \<Longrightarrow>
     (solo closeHandle)\<^sup>*\<^sup>* (running p s, [Closing p k w]) (s', [a])"
  using solo.solo [of closeHandle "running p s" "Closing p k w" s' "[a]" "[]"] by simp

lemma solo_body:
  assumes p: "p < length (sv_heap s)"
  shows "(solo closeHandle)\<^sup>*\<^sup>* (running p s, [Closing p 2 w])
    (let s = upd_conn (detachTransport closeHandle (releaseLease (snd (removeCurrent s p)) p) p) p (\<lambda>c. c\<lparr>cn_closeOnce := OnceDone\<rparr>)
     in if w then emit s [OnDisconnected p] else s, [])"
proof -
  define t where "t = stopHandshakeTimer (snd (removeCurrent s p)) p"
  define u where "u = (if fst (swapPendingLease t p) then addPending (snd (swapPendingLease t p)) (- 1) else snd (swapPendingLease t p))"
  define v where "v = (if fst (swapTotalLease u p) then addTotal (snd (swapTotalLease u p)) (- 1) else snd (swapTotalLease u p))"
  define d where "d = detachTransport closeHandle v p"
  have v: "v = releaseLease (snd (removeCurrent s p)) p"
    by (simp add: v_def u_def t_def releaseLease_def Let_def split: prod.splits)
  have len: "p < length (sv_heap t)" "p < length (sv_heap u)" "p < length (sv_heap v)" using p by (simp_all add: t_def u_def v_def)
  have ld: "p < length (sv_heap d)" unfolding d_def by (rule detach_length [OF len(3)])
  have "(solo closeHandle)\<^sup>*\<^sup>* (running p s, [Closing p 2 w]) (running p (snd (removeCurrent s p)), [Closing p 3 w])"
    by (rule solo_closing [OF p]) (use p in \<open>simp add: closing_step_def running_commutes\<close>)
  also have "(solo closeHandle)\<^sup>*\<^sup>* (running p (snd (removeCurrent s p)), [Closing p 3 w]) (running p t, [Closing p 4 w])"
    by (rule solo_closing) (use p in \<open>simp_all add: closing_step_def running_commutes t_def\<close>)
  also have "(solo closeHandle)\<^sup>*\<^sup>* (running p t, [Closing p 4 w]) (running p u, [Closing p 5 w])"
    unfolding u_def by (rule solo_pending [OF len(1)])
  also have "(solo closeHandle)\<^sup>*\<^sup>* (running p u, [Closing p 5 w]) (running p v, [Closing p 6 w])"
    unfolding v_def by (rule solo_total [OF len(2)])
  also have "(solo closeHandle)\<^sup>*\<^sup>* (running p v, [Closing p 6 w]) (running p d, [Closing p 7 w])"
    by (rule solo_closing [OF len(3)]) (simp add: closing_step_def running_detach [OF len(3)] d_def)
  also have "solo closeHandle (running p d, [Closing p 7 w])
      ((let s = upd_conn d p (\<lambda>c. c\<lparr>cn_closeOnce := OnceDone\<rparr>) in if w then emit s [OnDisconnected p] else s), [] @ [])"
    by (rule solo.solo) (simp add: closing_step_def running_commutes(9) [OF ld])
  finally show ?thesis by (simp add: d_def v)
qed

text \<open>
  The two models of Close agree: a goroutine that calls Close and is not interrupted leaves the server exactly as
  the sequential reading of Close says, also when the connection was closed before.
\<close>

lemma Close_is_its_actions:
  assumes "p < length (sv_heap s)" and "cn_closeOnce (conn_at s p) \<noteq> OnceRunning" and "Connection_Close closeHandle s p = Some s'"
  shows "(solo closeHandle)\<^sup>*\<^sup>* (s, [MarkClosed p]) (s', [])"
proof -
  let ?s = "upd_conn s p (\<lambda>c. c\<lparr>cn_closed := True\<rparr>)"
  have m: "solo closeHandle (s, [MarkClosed p]) (?s, [CloseOnce p] @ [])" by (rule solo.solo) simp
  show ?thesis
  proof (cases "cn_closeOnce (conn_at s p)")
    case OnceDone
    have "solo closeHandle (?s, [CloseOnce p]) (?s, [] @ [])" by (rule solo.solo) (use assms(1) OnceDone in simp)
    moreover have "s' = ?s" using assms OnceDone by (simp add: Connection_Close_def Let_def)
    ultimately show ?thesis using m by simp
  next
    case OnceFresh
    let ?w = "cn_established (conn_at s p)"
    let ?t = "upd_conn ?s p (\<lambda>c. c\<lparr>cn_established := False\<rparr>)"
    obtain u where u: "closeRecvBuf ?t p = Some u"
      and s': "s' = (let s = upd_conn (detachTransport closeHandle (releaseLease (snd (removeCurrent u p)) p) p) p (\<lambda>c. c\<lparr>cn_closeOnce := OnceDone\<rparr>)
        in if ?w then emit s [OnDisconnected p] else s)"
      using assms OnceFresh by (auto simp: Connection_Close_def Let_def split: option.splits)
    have lt: "p < length (sv_heap ?s)" "p < length (sv_heap ?t)" "p < length (sv_heap u)" using assms(1) u by simp_all
    have "solo closeHandle (?s, [CloseOnce p]) (running p ?s, [Closing p 0 False] @ [])"
      by (rule solo.solo) (use assms(1) OnceFresh in \<open>simp add: running_def\<close>)
    moreover have "(solo closeHandle)\<^sup>*\<^sup>* (running p ?s, [Closing p 0 False]) (running p ?t, [Closing p 1 ?w])"
      by (rule solo_closing [OF lt(1)]) (use assms(1) in \<open>simp add: closing_step_def running_commutes(1) [OF lt(1)]\<close>)
    moreover have "(solo closeHandle)\<^sup>*\<^sup>* (running p ?t, [Closing p 1 ?w]) (running p u, [Closing p 2 ?w])"
      by (rule solo_closing [OF lt(2)]) (simp add: closing_step_def running_commutes(2) [OF lt(2)] u)
    moreover have "(solo closeHandle)\<^sup>*\<^sup>* (running p u, [Closing p 2 ?w]) (s', [])" unfolding s' by (rule solo_body [OF lt(3)])
    ultimately show ?thesis using m unfolding append_Nil2 by (meson converse_rtranclp_into_rtranclp rtranclp_trans)
  qed (use assms(2) in simp)
qed

end
