(* ===== verification/Hello.thy ===== *)
theory Hello
  imports Server_State
begin

text \<open>
  The authenticated handshake: the client's hello and its check of the server's answer
  (peer/client/hello.go), the server's check of a client hello, the nonce cache, the session it
  creates and the signed answer (peer/server/hello.go, security.go), and the hello subscription of
  Listen (peer/server/listen.go), which runs under helloMu, one hello at a time.

  Not of this repository, hence arguments: X25519 and the text form of times (\<open>hello_lib\<close>, with
  the ciphers and gob), golang-lru (\<open>lru_lib\<close>), and what clocks, crypto/rand, the
  policy callback, the rate limiter and the broker answer in one call (\<open>hello_inputs\<close>).
\<close>

section \<open>Parameters\<close>

text \<open>
  \<open>hl_GenerateKey\<close>, \<open>hl_PublicKey\<close>, \<open>hl_NewPublicKey\<close> and \<open>hl_ECDH\<close> are those of
  crypto/ecdh's X25519 on the bytes of keys; \<open>hl_Format\<close> and \<open>hl_Parse\<close> convert a time,
  in nanoseconds, to RFC3339Nano in UTC and back.
\<close>

record hello_lib =
  hl_L :: aead_lib
  hl_G :: gob
  hl_GenerateKey :: "random \<Rightarrow> bytes result"
  hl_PublicKey :: "bytes \<Rightarrow> bytes"
  hl_NewPublicKey :: "bytes \<Rightarrow> bytes result"
  hl_ECDH :: "bytes \<Rightarrow> bytes \<Rightarrow> bytes result"
  hl_Format :: "int \<Rightarrow> bytes"
  hl_Parse :: "bytes \<Rightarrow> int option"

abbreviation hl_C :: "hello_lib \<Rightarrow> crypto_lib" where
  "hl_C W \<equiv> crypto_lib.truncate (hl_L W)"

record 'c lru_lib =
  lru_Get :: "'c \<Rightarrow> bytes \<Rightarrow> int option \<times> 'c"
  lru_Add :: "'c \<Rightarrow> bytes \<Rightarrow> int \<Rightarrow> 'c"

text \<open>
  The clock is read up to three times in one call, for the skew, the age of a nonce and the
  entry in the cache; \<open>hi_random i\<close> is the reader of the \<open>i\<close>-th use of crypto/rand.
\<close>

record hello_inputs =
  hi_allow :: bool
  hi_now :: int
  hi_nonceNow :: int
  hi_cacheNow :: int
  hi_join :: bool
  hi_random :: "nat \<Rightarrow> random"
  hi_closeHandle :: "nat \<Rightarrow> go_error option"
  hi_publish :: "go_error option"

text \<open>Time.Sub saturates at the bounds of a Duration; Time.UnixMilli rounds down.\<close>

definition time_Sub :: "int \<Rightarrow> int \<Rightarrow> int" where
  "time_Sub t u = max (- (2 ^ 63)) (min (2 ^ 63 - 1) (t - u))"

definition time_UnixMilli :: "int \<Rightarrow> int" where
  "time_UnixMilli t = t div 10 ^ 6"

definition millisecond :: int where
  "millisecond = 10 ^ 6"

text \<open>A Codec with no field set, which only reads headers that are not encrypted.\<close>

definition zero_codec :: codec where
  "zero_codec = \<lparr>cd_secret = [], cd_typ = [], cd_encryptionKit = None, cd_additionalData = [], cd_dataAAD = [], cd_headerAAD = []\<rparr>"

section \<open>The client's hello (client/hello.go)\<close>

record client_handshake =
  ch_nonce :: bytes
  ch_privateKey :: bytes
  ch_publicKey :: bytes
  ch_message :: bytes

record server_handshake =
  sh_serverID :: string
  sh_codec :: signaling_channel
  sh_dataChannel :: data_channel
  sh_transports :: "string list"

definition clientHelloMessage :: "hello_lib \<Rightarrow> pre_shared_key \<Rightarrow> string \<Rightarrow> bytes \<Rightarrow> bytes \<Rightarrow> int \<Rightarrow> message" where
  "clientHelloMessage W psk roomId nonce publicKey now =
     \<lparr>msg_Header = Some (zero_header\<lparr>hd_SourceId := psk_ClientID psk, hd_Type := ClientHello, hd_HandshakeNonce := nonce\<rparr>),
      msg_Payload = Some (zero_payload\<lparr>pl_ClientNonce := nonce, pl_ClientEphemeralKey := publicKey,
        pl_HandshakeRoomID := roomId, pl_HandshakeClientID := psk_ClientID psk, pl_Timestamp := hl_Format W now\<rparr>),
      msg_Encrypt = False\<rparr>"

definition buildClientHello ::
  "hello_lib \<Rightarrow> pre_shared_key \<Rightarrow> string \<Rightarrow> client_options \<Rightarrow> (nat \<Rightarrow> random) \<Rightarrow> int \<Rightarrow> client_handshake result" where
  "buildClientHello W psk roomId options rand now =
     bind_result (rand 0 HandshakeNonceSize) (\<lambda>nonce.
     bind_result (hl_GenerateKey W (rand 1)) (\<lambda>privateKey.
     let publicKey = hl_PublicKey W privateKey in
     bind_result (ServerIDFromPublicKey (hl_C W) (psk_ServerPublicKey psk)) (\<lambda>serverID.
     bind_result (DeriveClientHelloKey (hl_C W) (psk_Key psk) roomId (psk_ClientID psk) serverID nonce) (\<lambda>handshakeKey.
     bind_result (NewCodec (hl_L W) (rand 2) (co_EncryptionType options) handshakeKey (co_EncryptionAAD options)) (\<lambda>handshakeCodec.
     bind_result (fst (Codec_EncodeMessage (hl_G W) handshakeCodec (Some (clientHelloMessage W psk roomId nonce publicKey now)))) (\<lambda>dataBytes.
       Inr \<lparr>ch_nonce = nonce, ch_privateKey = privateKey, ch_publicKey = publicKey, ch_message = dataBytes\<rparr>))))))"

text \<open>The context that the checks of the answer and the session key use on the client.\<close>

definition clientHelloContext :: "pre_shared_key \<Rightarrow> string \<Rightarrow> string \<Rightarrow> payload \<Rightarrow> hello_context" where
  "clientHelloContext psk roomId serverID p =
     \<lparr>hc_roomID = roomId, hc_clientID = psk_ClientID psk, hc_serverID = serverID, hc_clientNonce = pl_ClientNonce p,
      hc_serverNonce = pl_ServerNonce p, hc_clientEphemeralKey = pl_ClientEphemeralKey p,
      hc_serverEphemeralKey = pl_ServerEphemeralKey p, hc_sessionSalt = pl_SessionSalt p\<rparr>"

text \<open>The part of handleServerHello up to the verified payload.\<close>

definition verifyServerHello ::
  "hello_lib \<Rightarrow> pre_shared_key \<Rightarrow> string \<Rightarrow> client_options \<Rightarrow> random \<Rightarrow> bytes \<Rightarrow> client_handshake \<Rightarrow> (string \<times> payload) result" where
  "verifyServerHello W psk roomId options rnd data attempt =
     bind_result (Codec_DecodeMessageHeader (hl_G W) zero_codec data) (\<lambda>header.
     bind_result (ServerIDFromPublicKey (hl_C W) (psk_ServerPublicKey psk)) (\<lambda>expectedServerID.
     if hd_SourceId header \<noteq> expectedServerID \<or> hd_TargetId header \<noteq> psk_ClientID psk \<or> hd_Type header \<noteq> ServerHello
     then Inl (Errorf ''unexpected server hello'')
     else if length (hd_HandshakeNonce header) \<noteq> HandshakeNonceSize then Inl (Errorf ''invalid server hello nonce'')
     else bind_result (DeriveServerHelloKey (hl_C W) (psk_Key psk) roomId (psk_ClientID psk) expectedServerID (ch_nonce attempt)
            (hd_HandshakeNonce header)) (\<lambda>handshakeKey.
     bind_result (NewCodec (hl_L W) rnd (co_EncryptionType options) handshakeKey (co_EncryptionAAD options)) (\<lambda>handshakeCodec.
     bind_result (Codec_DecodeMessage (hl_G W) handshakeCodec data) (\<lambda>msg.
     let h = the (msg_Header msg); p = the (msg_Payload msg) in
     if hd_SourceId h = [] \<or> hd_TargetId h \<noteq> psk_ClientID psk \<or> hd_Type h \<noteq> ServerHello
     then Inl (Errorf ''unexpected server hello'')
     else if hd_SourceId h \<noteq> expectedServerID then Inl (Errorf ''server identity does not match pinned public key'')
     else if length (pl_SessionSalt p) \<noteq> HandshakeNonceSize \<or> length (pl_ServerNonce p) \<noteq> HandshakeNonceSize
     then Inl (Errorf ''invalid server handshake values'')
     else if hd_HandshakeNonce h \<noteq> pl_ServerNonce p then Inl (Errorf ''server hello nonce does not match authenticated payload'')
     else if pl_ClientNonce p \<noteq> ch_nonce attempt then Inl (Errorf ''server hello is not bound to the current client hello'')
     else if pl_ClientEphemeralKey p \<noteq> ch_publicKey attempt then Inl (Errorf ''server hello is not bound to the current client key'')
     else if \<not> VerifyServerHello (hl_C W) (psk_ServerPublicKey psk) (clientHelloContext psk roomId (hd_SourceId h) p) (pl_Signature p)
     then Inl (Errorf ''invalid server identity signature'')
     else Inr (hd_SourceId h, p))))))"

definition handleServerHello ::
  "hello_lib \<Rightarrow> pre_shared_key \<Rightarrow> string \<Rightarrow> client_options \<Rightarrow> (nat \<Rightarrow> random) \<Rightarrow> bytes \<Rightarrow> client_handshake \<Rightarrow> server_handshake result" where
  "handleServerHello W psk roomId options rand data attempt =
     bind_result (verifyServerHello W psk roomId options (rand 0) data attempt) (\<lambda>(serverID, p).
     case hl_NewPublicKey W (pl_ServerEphemeralKey p) of
       Inl _ \<Rightarrow> Inl (Errorf ''invalid server X25519 public key'')
     | Inr serverPublicKey \<Rightarrow>
         (case hl_ECDH W (ch_privateKey attempt) serverPublicKey of
            Inl _ \<Rightarrow> Inl (Errorf ''invalid server X25519 public key'')
          | Inr sharedSecret \<Rightarrow>
              bind_result (DeriveSessionKey (hl_C W) (psk_Key psk) sharedSecret
                ((clientHelloContext psk roomId serverID p)\<lparr>hc_clientNonce := ch_nonce attempt, hc_clientEphemeralKey := ch_publicKey attempt\<rparr>)) (\<lambda>sessionKey.
              bind_result (NewSignalingChannel (hl_L W) (rand 1) (rand 2) (co_EncryptionType options) sessionKey (co_EncryptionAAD options) DataRoleClient) (\<lambda>sessionCodec.
              bind_result (NewDataChannel (hl_L W) (rand 3) (rand 4) (co_EncryptionType options) sessionKey (co_EncryptionAAD options) DataRoleClient) (\<lambda>dataChannel.
                Inr \<lparr>sh_serverID = serverID, sh_codec = sessionCodec, sh_dataChannel = dataChannel, sh_transports = pl_Transports p\<rparr>)))))"

section \<open>The nonce cache (security.go)\<close>

definition isNonceAvailable :: "'c lru_lib \<Rightarrow> hello_inputs \<Rightarrow> 'c server \<Rightarrow> bytes \<Rightarrow> bool \<times> 'c server" where
  "isNonceAvailable C inp s nonce =
     (let (t, cache) = lru_Get C (sv_nonceCache s) nonce;
          s = s\<lparr>sv_nonceCache := cache\<rparr>
      in if (case t of None \<Rightarrow> False
             | Some t \<Rightarrow> time_Sub (hi_nonceNow inp) (t * millisecond) < so_ReplayProtection (sv_options s))
         then (False, s)
         else (True, s\<lparr>sv_nonceCache := lru_Add C cache nonce (time_UnixMilli (hi_cacheNow inp))\<rparr>))"

definition createRandomHandshakeValue :: "random \<Rightarrow> bytes result" where
  "createRandomHandshakeValue rnd = rnd HandshakeNonceSize"

definition isClientIdValid :: "string \<Rightarrow> bool" where
  "isClientIdValid clientId \<longleftrightarrow> ValidateClientID clientId = Inr ()"

section \<open>The server's check of a hello (server/hello.go)\<close>

text \<open>The outer None of the handlers is a panic, that of the buffer budget while a connection is closed.\<close>

definition isPending :: "'c server \<Rightarrow> nat \<Rightarrow> bool" where
  "isPending s p \<longleftrightarrow> \<not> cn_closed (conn_at s p) \<and> cn_transportConn (conn_at s p) = None \<and> cn_selectedTransport (conn_at s p) = []"

definition errReplayedClientHello :: go_error where
  "errReplayedClientHello = Errorf ''client hello nonce was replayed''"

definition prepareClientHello ::
  "'c lru_lib \<Rightarrow> hello_inputs \<Rightarrow> 'c server \<Rightarrow> nat option \<Rightarrow> bytes \<Rightarrow> bytes \<Rightarrow> (bool result \<times> 'c server) option" where
  "prepareClientHello C inp s existing nonce clientEphemeralKey =
     (if (case existing of None \<Rightarrow> False
          | Some p \<Rightarrow> isPending s p \<and> cn_clientNonce (conn_at s p) = nonce \<and> cn_clientEphemeralKey (conn_at s p) = clientEphemeralKey)
      then Some (Inr True, s)
      else (let (available, s) = isNonceAvailable C inp s nonce
            in if \<not> available then Some (Inl errReplayedClientHello, s)
               else (case existing of
                       None \<Rightarrow> Some (Inr False, s)
                     | Some p \<Rightarrow> map_option (\<lambda>s. (Inr False, s)) (Connection_Close (hi_closeHandle inp) s p))))"

definition reject :: "'c server \<Rightarrow> string \<Rightarrow> go_error \<Rightarrow> 'a result \<times> 'c server" where
  "reject s clientId err = (Inl err, emit s [OnNewClientReject clientId err])"

text \<open>KeyProvider.Key; NewServer refuses options without a key provider, so nil does not occur here.\<close>

definition serverKey :: "'c server \<Rightarrow> string \<Rightarrow> bytes result" where
  "serverKey s clientId =
     (case so_KeyProvider (sv_options s) of None \<Rightarrow> Inl (Errorf ''nil key provider'') | Some key \<Rightarrow> key clientId)"

text \<open>The proof: the payload opens under the key of this client, room, server and nonce, and names room and client.\<close>

definition openClientHello ::
  "hello_lib \<Rightarrow> random \<Rightarrow> 'c server \<Rightarrow> header \<Rightarrow> bytes \<Rightarrow> bytes \<Rightarrow> (payload \<times> bytes) result" where
  "openClientHello W rnd s header key data =
     bind_result (ValidateClientCredentials (hd_SourceId header) key) (\<lambda>_.
     bind_result (DeriveClientHelloKey (hl_C W) key (api_RoomId (sv_api s)) (hd_SourceId header) (sv_serverId s) (hd_HandshakeNonce header)) (\<lambda>handshakeKey.
     bind_result (NewCodec (hl_L W) rnd (so_EncryptionType (sv_options s)) handshakeKey (so_EncryptionAAD (sv_options s))) (\<lambda>handshakeCodec.
     case Codec_DecodeMessage (hl_G W) handshakeCodec data of
       Inl _ \<Rightarrow> Inl (Errorf ''invalid client proof'')
     | Inr message \<Rightarrow>
         (let p = the (msg_Payload message)
          in if pl_HandshakeRoomID p \<noteq> api_RoomId (sv_api s) \<or> pl_HandshakeClientID p \<noteq> hd_SourceId header
             then Inl (Errorf ''client proof is not bound to room and client identity'')
             else (case hl_NewPublicKey W (pl_ClientEphemeralKey p) of
                     Inl _ \<Rightarrow> Inl (Errorf ''invalid client X25519 public key'')
                   | Inr clientPublicKey \<Rightarrow> Inr (p, clientPublicKey))))))"

definition verifyClientHello ::
  "hello_lib \<Rightarrow> hello_inputs \<Rightarrow> 'c server \<Rightarrow> header \<Rightarrow> bytes \<Rightarrow> (bytes \<times> payload \<times> bytes) result \<times> 'c server" where
  "verifyClientHello W inp s header data =
     (let clientId = hd_SourceId header
      in if length (hd_HandshakeNonce header) \<noteq> HandshakeNonceSize then (Inl (Errorf ''invalid client hello nonce''), s)
         else if \<not> isClientIdValid clientId then reject s clientId (Errorf ''rejected connection due to server restrictions'')
         else (case serverKey s clientId of
                 Inl err \<Rightarrow> reject s clientId err
               | Inr key \<Rightarrow>
                   (case openClientHello W (hi_random inp 0) s header key data of
                      Inl err \<Rightarrow> (Inl err, s)
                    | Inr (p, clientPublicKey) \<Rightarrow>
                        if length (pl_ClientNonce p) \<noteq> HandshakeNonceSize then reject s clientId (Errorf ''received invalid nonce'')
                        else if hd_HandshakeNonce header \<noteq> pl_ClientNonce p
                        then (Inl (Errorf ''client hello nonce does not match authenticated payload''), s)
                        else (case hl_Parse W (pl_Timestamp p) of
                                None \<Rightarrow> (Inl (Errorf ''invalid timestamp''), s)
                              | Some timestamp \<Rightarrow>
                                  (let delta = time_Sub (hi_now inp) timestamp
                                   in if delta > so_ClockSkew (sv_options s) \<or> delta < wrap64 (- so_ClockSkew (sv_options s))
                                      then (Inl (Errorf ''timestamp is outside allowed clock skew''), s)
                                      else (Inr (key, p, clientPublicKey), s))))))"

definition createSession ::
  "hello_lib \<Rightarrow> (nat \<Rightarrow> random) \<Rightarrow> 'c server \<Rightarrow> string \<Rightarrow> bytes \<Rightarrow> payload \<Rightarrow> bytes \<Rightarrow> connection result" where
  "createSession W rand s clientId key p clientPublicKey =
     (let typ = so_EncryptionType (sv_options s); aad = so_EncryptionAAD (sv_options s); room = api_RoomId (sv_api s) in
     bind_result (createRandomHandshakeValue (rand 1)) (\<lambda>sessionSalt.
     bind_result (createRandomHandshakeValue (rand 2)) (\<lambda>serverNonce.
     bind_result (DeriveServerHelloKey (hl_C W) key room clientId (sv_serverId s) (pl_ClientNonce p) serverNonce) (\<lambda>serverHelloKey.
     bind_result (NewCodec (hl_L W) (rand 3) typ serverHelloKey aad) (\<lambda>serverHelloCodec.
     bind_result (hl_GenerateKey W (rand 4)) (\<lambda>serverPrivateKey.
     let serverPublicKey = hl_PublicKey W serverPrivateKey in
     case hl_ECDH W serverPrivateKey clientPublicKey of
       Inl _ \<Rightarrow> Inl (Errorf ''invalid client X25519 public key'')
     | Inr sharedSecret \<Rightarrow>
     bind_result (DeriveSessionKey (hl_C W) key sharedSecret
       \<lparr>hc_roomID = room, hc_clientID = clientId, hc_serverID = sv_serverId s, hc_clientNonce = pl_ClientNonce p,
        hc_serverNonce = serverNonce, hc_clientEphemeralKey = pl_ClientEphemeralKey p,
        hc_serverEphemeralKey = serverPublicKey, hc_sessionSalt = sessionSalt\<rparr>) (\<lambda>sessionKey.
     bind_result (NewSignalingChannel (hl_L W) (rand 5) (rand 6) typ sessionKey aad DataRoleServer) (\<lambda>codec.
     bind_result (NewDataChannel (hl_L W) (rand 7) (rand 8) typ sessionKey aad DataRoleServer) (\<lambda>dataChannel.
       Inr \<lparr>cn_sourceId = clientId, cn_codec = codec, cn_handshakeCodec = serverHelloCodec, cn_sessionSalt = sessionSalt,
            cn_clientNonce = pl_ClientNonce p, cn_serverNonce = serverNonce, cn_clientEphemeralKey = pl_ClientEphemeralKey p,
            cn_serverEphemeralKey = serverPublicKey, cn_transportConn = None, cn_dataChannel = Some dataChannel,
            cn_lastTransportRead = 0, cn_established = False, cn_closed = False, cn_iceAgent = None, cn_localAddr = zero_addr,
            cn_remoteAddr = zero_addr, cn_selectedTransport = [], cn_transportMaxFrameSize = 0, cn_pendingICEOffer = None,
            cn_recvBuf = NewRecvBufferWithLimit (so_ReceiveBufferSize (sv_options s)), cn_signalSend = 0,
            cn_signalRecv = ReplayWindow_zero, cn_serverId = sv_serverId s, cn_roomId = room, cn_writeDeadline = None,
            cn_pendingLease = True, cn_totalLease = True, cn_handshakeTimer = False, cn_closeOnce = OnceFresh, cn_closeErr = None\<rparr>)))))))))"

text \<open>A connection is allocated at the end of the store; a nil connection without error is a message that is no client hello.\<close>

definition handleClientHello ::
  "hello_lib \<Rightarrow> 'c lru_lib \<Rightarrow> hello_inputs \<Rightarrow> 'c server \<Rightarrow> bytes \<Rightarrow> (nat option result \<times> 'c server) option" where
  "handleClientHello W C inp s data =
     (case Codec_DecodeMessageHeader (hl_G W) zero_codec data of
        Inl err \<Rightarrow> Some (Inl err, s)
      | Inr header \<Rightarrow>
          if \<not> (hd_TargetId header = [] \<and> hd_Type header = ClientHello) then Some (Inr None, s)
          else (let clientId = hd_SourceId header; existing = sv_connections s clientId
                in (case verifyClientHello W inp s header data of
                      (Inl err, s) \<Rightarrow> Some (Inl err, s)
                    | (Inr (key, p, clientPublicKey), s) \<Rightarrow>
                        (case prepareClientHello C inp s existing (pl_ClientNonce p) (pl_ClientEphemeralKey p) of
                           None \<Rightarrow> None
                         | Some (Inl _, s) \<Rightarrow> Some (Inl (Errorf ''received replayed nonce''), s)
                         | Some (Inr True, s) \<Rightarrow> Some (Inr existing, s)
                         | Some (Inr False, s) \<Rightarrow>
                             if \<not> hi_join inp then Some (reject s clientId (Errorf ''rejected connection due to server policy''))
                             else (case reserveConnection s of
                                     (False, s) \<Rightarrow> Some (reject s clientId (Errorf ''server connection or pending-handshake limit reached''))
                                   | (True, s) \<Rightarrow>
                                       (case createSession W (hi_random inp) s clientId key p clientPublicKey of
                                          Inl err \<Rightarrow> Some (Inl err, addTotal (addPending s (- 1)) (- 1))
                                        | Inr conn \<Rightarrow> Some (Inr (Some (length (sv_heap s))), s\<lparr>sv_heap := sv_heap s @ [conn]\<rparr>)))))))"

section \<open>The signed answer (server/hello.go)\<close>

definition connContext :: "'c server \<Rightarrow> connection \<Rightarrow> hello_context" where
  "connContext s conn =
     \<lparr>hc_roomID = api_RoomId (sv_api s), hc_clientID = cn_sourceId conn, hc_serverID = sv_serverId s,
      hc_clientNonce = cn_clientNonce conn, hc_serverNonce = cn_serverNonce conn,
      hc_clientEphemeralKey = cn_clientEphemeralKey conn, hc_serverEphemeralKey = cn_serverEphemeralKey conn,
      hc_sessionSalt = cn_sessionSalt conn\<rparr>"

definition serverHelloMessage :: "'c server \<Rightarrow> connection \<Rightarrow> bytes \<Rightarrow> message" where
  "serverHelloMessage s conn signature =
     \<lparr>msg_Header = Some (zero_header\<lparr>hd_Type := ServerHello, hd_SourceId := sv_serverId s, hd_TargetId := cn_sourceId conn,
        hd_HandshakeNonce := cn_serverNonce conn\<rparr>),
      msg_Payload = Some (zero_payload\<lparr>pl_SessionSalt := cn_sessionSalt conn, pl_ClientNonce := cn_clientNonce conn,
        pl_ServerNonce := cn_serverNonce conn, pl_ClientEphemeralKey := cn_clientEphemeralKey conn,
        pl_ServerEphemeralKey := cn_serverEphemeralKey conn, pl_Signature := signature,
        pl_Transports := transportNames (so_Transports (sv_options s))\<rparr>),
      msg_Encrypt = False\<rparr>"

text \<open>Publishing is recorded in the log; \<open>hi_publish\<close> is the error that the broker returns.\<close>

definition sendServerHello :: "hello_lib \<Rightarrow> hello_inputs \<Rightarrow> 'c server \<Rightarrow> nat option \<Rightarrow> go_error option \<times> 'c server" where
  "sendServerHello W inp s conn =
     (case conn of
        None \<Rightarrow> (Some (Errorf ''client session is nil''), s)
      | Some p \<Rightarrow>
          (let c = conn_at s p
           in (case SignServerHello (hl_C W) (so_IdentityKey (sv_options s)) (connContext s c) of
                 Inl err \<Rightarrow> (Some err, s)
               | Inr signature \<Rightarrow>
                   (case Codec_EncodeMessage (hl_G W) (cn_handshakeCodec c) (Some (serverHelloMessage s c signature)) of
                      (Inl err, codec) \<Rightarrow> (Some err, upd_conn s p (\<lambda>c. c\<lparr>cn_handshakeCodec := codec\<rparr>))
                    | (Inr dataBytes, codec) \<Rightarrow>
                        (hi_publish inp, emit (upd_conn s p (\<lambda>c. c\<lparr>cn_handshakeCodec := codec\<rparr>)) [Publish MessageHello dataBytes])))))"

section \<open>The hello subscription (listen.go)\<close>

definition onHello :: "hello_lib \<Rightarrow> 'c lru_lib \<Rightarrow> hello_inputs \<Rightarrow> 'c server \<Rightarrow> bytes \<Rightarrow> 'c server option" where
  "onHello W C inp s data =
     (if \<not> hi_allow inp then Some s
      else (case handleClientHello W C inp s data of
              None \<Rightarrow> None
            | Some (Inl _, s) \<Rightarrow> Some s
            | Some (Inr None, s) \<Rightarrow> Some s
            | Some (Inr (Some p), s) \<Rightarrow>
                (case setConnection s (Some p) of
                   (False, s) \<Rightarrow> Connection_Close (hi_closeHandle inp) s p
                 | (True, s) \<Rightarrow>
                     (case sendServerHello W inp (startHandshakeTimer s p) (Some p) of
                        (None, s) \<Rightarrow> Some s
                      | (Some _, s) \<Rightarrow> Connection_Close (hi_closeHandle inp) s p))))"

section \<open>What the operations leave alone\<close>

text \<open>The parts of a server that no hello and no closing connection changes.\<close>

definition same_setup :: "'c server \<Rightarrow> 'c server \<Rightarrow> bool" where
  "same_setup s s' \<longleftrightarrow> sv_options s' = sv_options s \<and> sv_api s' = sv_api s \<and> sv_serverId s' = sv_serverId s"

lemma same_setup_refl [simp]: "same_setup s s"
  by (simp add: same_setup_def)

lemma same_setup_trans [trans]: "same_setup s s' \<Longrightarrow> same_setup s' s'' \<Longrightarrow> same_setup s s''"
  by (simp add: same_setup_def)

lemma emit_setup [simp]: "same_setup s (emit s es)" "sv_nonceCache (emit s es) = sv_nonceCache s"
  by (simp_all add: same_setup_def emit_def)

lemma upd_conn_setup [simp]: "same_setup s (upd_conn s p f)"
  by (simp add: same_setup_def)

lemma Close_parts:
  "same_setup s (detachTransport h s p) \<and> sv_nonceCache (detachTransport h s p) = sv_nonceCache s \<and>
     length (sv_heap (detachTransport h s p)) = length (sv_heap s)"
  "same_setup s (releaseLease s p) \<and> sv_nonceCache (releaseLease s p) = sv_nonceCache s \<and> length (sv_heap (releaseLease s p)) = length (sv_heap s)"
  "same_setup s (snd (removeCurrent s p)) \<and> sv_nonceCache (snd (removeCurrent s p)) = sv_nonceCache s \<and>
     sv_heap (snd (removeCurrent s p)) = sv_heap s"
  by (auto simp: detachTransport_def releaseLease_def removeCurrent_def stopHandshakeTimer_def swapPendingLease_def swapTotalLease_def
      addPending_def addTotal_def Let_def same_setup_def emit_def split: option.splits)

lemma closeRecvBuf_frame:
  "closeRecvBuf s p = Some s' \<Longrightarrow> same_setup s s' \<and> sv_nonceCache s' = sv_nonceCache s \<and> length (sv_heap s') = length (sv_heap s)"
  by (auto simp: closeRecvBuf_def same_setup_def upd_conn_def)

lemma Connection_Close_frame:
  assumes "Connection_Close h s p = Some s'"
  shows "same_setup s s' \<and> sv_nonceCache s' = sv_nonceCache s \<and> length (sv_heap s') = length (sv_heap s)"
proof -
  let ?s1 = "upd_conn (upd_conn s p (\<lambda>c. c\<lparr>cn_closed := True\<rparr>)) p (\<lambda>c. c\<lparr>cn_established := False\<rparr>)"
  let ?t = "\<lambda>s2. detachTransport h (releaseLease (snd (removeCurrent s2 p)) p) p"
  have frame: "same_setup s2 (?t s2) \<and> sv_nonceCache (?t s2) = sv_nonceCache s2 \<and> length (sv_heap (?t s2)) = length (sv_heap s2)" for s2
    using Close_parts(1) [of "releaseLease (snd (removeCurrent s2 p)) p" h p] Close_parts(2) [of "snd (removeCurrent s2 p)" p]
      Close_parts(3) [of s2 p] by (auto simp: same_setup_def)
  consider "s' = upd_conn s p (\<lambda>c. c\<lparr>cn_closed := True\<rparr>)"
    | s2 es where "closeRecvBuf ?s1 p = Some s2" "s' = emit (upd_conn (?t s2) p (\<lambda>c. c\<lparr>cn_closeOnce := OnceDone\<rparr>)) es"
    | s2 where "closeRecvBuf ?s1 p = Some s2" "s' = upd_conn (?t s2) p (\<lambda>c. c\<lparr>cn_closeOnce := OnceDone\<rparr>)"
    using assms by (auto simp: Connection_Close_def Let_def split: if_splits option.splits)
  then show ?thesis
  proof cases
    case 1
    then show ?thesis by simp
  next
    case 2
    with frame [of s2] closeRecvBuf_frame [OF 2(1)] show ?thesis by (simp add: same_setup_def emit_def)
  next
    case 3
    with frame [of s2] closeRecvBuf_frame [OF 3(1)] show ?thesis by (simp add: same_setup_def)
  qed
qed

lemma isNonceAvailable_frame:
  "isNonceAvailable C inp s n = (b, s') \<Longrightarrow> \<exists>cache. s' = s\<lparr>sv_nonceCache := cache\<rparr>"
  by (auto simp: isNonceAvailable_def Let_def split: prod.splits if_splits)

lemma verifyClientHello_frame:
  assumes "verifyClientHello W inp s header data = (r, s')"
  shows "(\<exists>err es. r = Inl err \<and> s' = emit s es) \<or> (\<exists>err. r = Inl err \<and> s' = s) \<or> (\<exists>x. r = Inr x \<and> s' = s)"
  using assms by (auto simp: verifyClientHello_def reject_def Let_def split: if_splits sum.splits option.splits prod.splits)

lemma prepareClientHello_frame:
  assumes "prepareClientHello C inp s existing n k = Some (r, s')"
  shows "same_setup s s' \<and> length (sv_heap s') = length (sv_heap s)"
  using assms by (auto simp: prepareClientHello_def Let_def same_setup_def split: if_splits prod.splits option.splits
      dest!: isNonceAvailable_frame Connection_Close_frame)

lemma reserveConnection_frame:
  "reserveConnection s = (b, s') \<Longrightarrow> same_setup s s' \<and> sv_heap s' = sv_heap s \<and> sv_nonceCache s' = sv_nonceCache s"
  by (auto simp: reserveConnection_def same_setup_def split: if_splits)

lemma createSession_setup:
  assumes "same_setup s s'"
  shows "createSession W rand s' = createSession W rand s"
proof -
  have e: "sv_options s' = sv_options s" "sv_api s' = sv_api s" "sv_serverId s' = sv_serverId s"
    using assms by (simp_all add: same_setup_def)
  show ?thesis unfolding fun_eq_iff createSession_def e by blast
qed

section \<open>New sessions\<close>

text \<open>The table of connections points into the store.\<close>

definition table_in_store :: "'c server \<Rightarrow> bool" where
  "table_in_store s \<longleftrightarrow> (\<forall>clientId p. sv_connections s clientId = Some p \<longrightarrow> p < length (sv_heap s))"

text \<open>What handleClientHello went through when it allocated a connection.\<close>

lemma handleClientHello_new:
  assumes h: "handleClientHello W C inp s data = Some (Inr (Some (length (sv_heap s))), s')" and t: "table_in_store s"
  obtains header key pl pub s1 conn where
    "Codec_DecodeMessageHeader (hl_G W) zero_codec data = Inr header" "hd_TargetId header = []" "hd_Type header = ClientHello"
    "verifyClientHello W inp s header data = (Inr (key, pl, pub), s)"
    "prepareClientHello C inp s (sv_connections s (hd_SourceId header)) (pl_ClientNonce pl) (pl_ClientEphemeralKey pl) = Some (Inr False, s1)"
    "createSession W (hi_random inp) s (hd_SourceId header) key pl pub = Inr conn"
    "conn_at s' (length (sv_heap s)) = conn" "same_setup s s'" "sv_nonceCache s' = sv_nonceCache s1" "length (sv_heap s') = Suc (length (sv_heap s))"
proof -
  obtain header where d: "Codec_DecodeMessageHeader (hl_G W) zero_codec data = Inr header" "hd_TargetId header = []" "hd_Type header = ClientHello"
    using h by (auto simp: handleClientHello_def split: sum.splits if_splits)
  let ?ex = "sv_connections s (hd_SourceId header)"
  obtain key pl pub s0 where v: "verifyClientHello W inp s header data = (Inr (key, pl, pub), s0)"
    using h d by (cases "verifyClientHello W inp s header data"; cases "fst (verifyClientHello W inp s header data)")
      (auto simp: handleClientHello_def Let_def)
  have s0: "s0 = s" using verifyClientHello_frame [OF v] by simp
  note body = h [unfolded handleClientHello_def d(1) sum.case, simplified d(2,3) v s0 Let_def prod.case sum.case simp_thms if_False if_True, simplified]
  obtain b s1 where p: "prepareClientHello C inp s ?ex (pl_ClientNonce pl) (pl_ClientEphemeralKey pl) = Some (Inr b, s1)"
    using body by (auto split: option.splits prod.splits sum.splits)
  have "?ex \<noteq> Some (length (sv_heap s))" using t unfolding table_in_store_def by (metis less_irrefl)
  with body p have b: "\<not> b" by auto
  obtain s2 conn where r: "reserveConnection s1 = (True, s2)" and c: "createSession W (hi_random inp) s2 (hd_SourceId header) key pl pub = Inr conn"
    and s': "s' = s2\<lparr>sv_heap := sv_heap s2 @ [conn]\<rparr>"
    using body p b by (auto simp: reject_def split: if_splits prod.splits bool.splits sum.splits)
  have f: "same_setup s s2" "length (sv_heap s2) = length (sv_heap s)" "sv_nonceCache s2 = sv_nonceCache s1"
    using prepareClientHello_frame [OF p] reserveConnection_frame [OF r] by (auto simp: same_setup_def)
  from c have c': "createSession W (hi_random inp) s (hd_SourceId header) key pl pub = Inr conn"
    by (simp add: createSession_setup [OF f(1)])
  show thesis
    by (rule that [OF d v [unfolded s0] p [simplified b] c'])
      (use s' f in \<open>simp_all add: same_setup_def nth_append\<close>)
qed

end
