(* ===== verification/Listening.thy ===== *)
theory Listening
  imports Hello
begin

text \<open>
  Listening and the setup of a transport on the server (peer/server/listen.go, factory.go): the lease of a room, the subscription for
  offers, and handleICEOffer with its ICE agent (transports/ice.go), up to the connection that Accept returns.

  Not of this repository, hence arguments: the agent of pion/ice and the broker. A setup runs in a goroutine of its own, so what the other
  goroutines do to the server between two of its accesses is an argument as well, \<open>oi_env\<close>.
\<close>

section \<open>Rooms (listen.go, close.go)\<close>

text \<open>
  The servers of a process, a pointer being an index, and the map roomOwners. The name of a lease is that of the adapter,
  its SignalingID or its type and address, and the room.
\<close>

record 'c process =
  pr_servers :: "'c server list"
  pr_roomOwners :: "string \<rightharpoonup> nat"

definition upd_server :: "'c process \<Rightarrow> nat \<Rightarrow> ('c server \<Rightarrow> 'c server) \<Rightarrow> 'c process" where
  "upd_server w i f = w\<lparr>pr_servers := (pr_servers w)[i := f (pr_servers w ! i)]\<rparr>"

definition leaseKey :: "api \<Rightarrow> string" where
  "leaseKey a = the (api_Signaling a) @ '':'' @ api_RoomId a"

text \<open>The deferred function of Listen, which runs when it fails.\<close>

definition Listen_undo :: "'c process \<Rightarrow> nat \<Rightarrow> string \<Rightarrow> 'c process" where
  "Listen_undo w i key =
     (upd_server w i (\<lambda>s. s\<lparr>sv_onHandshake := False, sv_onOffer := False, sv_roomLeaseKey := []\<rparr>))
       \<lparr>pr_roomOwners := (pr_roomOwners w)(key := None)\<rparr>"

text \<open>\<open>subscribe\<close> gives the errors of the two subscriptions.\<close>

definition Server_Listen :: "(string \<Rightarrow> go_error option) \<Rightarrow> 'c process \<Rightarrow> nat \<Rightarrow> go_error option \<times> 'c process" where
  "Server_Listen subscribe w i =
     (let s = pr_servers w ! i; key = leaseKey (sv_api s)
      in if sv_closeCh s then (Some ErrNetClosed, w)
         else if sv_onHandshake s \<or> sv_onOffer s then (Some (Errorf ''server is already listening''), w)
         else if pr_roomOwners w key \<noteq> None then (Some (Errorf ''room already has a server''), w)
         else (let w = upd_server (w\<lparr>pr_roomOwners := (pr_roomOwners w)(key \<mapsto> i)\<rparr>) i (\<lambda>s. s\<lparr>sv_roomLeaseKey := key\<rparr>)
               in (case subscribe MessageHello of
                     Some err \<Rightarrow> (Some err, Listen_undo w i key)
                   | None \<Rightarrow>
                       (let w = upd_server w i (\<lambda>s. s\<lparr>sv_onHandshake := True\<rparr>)
                        in (case subscribe MessageOffer of
                              Some err \<Rightarrow> (Some err, Listen_undo w i key)
                            | None \<Rightarrow> (None, upd_server w i (\<lambda>s. s\<lparr>sv_onOffer := True\<rparr>)))))))"

text \<open>
  Server.Close with the room lease. \<open>ps\<close> are the connections in the order of the iterator of the table; None is a panic of the buffer budget.
\<close>

definition Server_Close_room :: "(nat \<Rightarrow> go_error option) \<Rightarrow> 'c process \<Rightarrow> nat \<Rightarrow> nat list \<Rightarrow> 'c process option" where
  "Server_Close_room closeHandle w i ps =
     map_option (\<lambda>s.
         let w = upd_server w i (\<lambda>_. s); key = sv_roomLeaseKey s
         in if key = [] then w
            else upd_server (if pr_roomOwners w key = Some i then w\<lparr>pr_roomOwners := (pr_roomOwners w)(key := None)\<rparr> else w) i
                   (\<lambda>s. s\<lparr>sv_roomLeaseKey := []\<rparr>))
       (Server_Close closeHandle (pr_servers w ! i) ps)"

text \<open>The zero value of Options.\<close>

definition zero_server_options :: server_options where
  "zero_server_options =
     \<lparr>so_KeyProvider = None, so_IdentityKey = [], so_Transport = None, so_Transports = [], so_LRUSize = 0, so_ReplayProtection = 0, so_ClockSkew = 0,
      so_EncryptionType = [], so_EncryptionAAD = [], so_MaxFrameSize = 0, so_ReceiveBufferSize = 0, so_MaxBufferedBytes = 0, so_MaxPendingICE = 0,
      so_MaxPendingICEBytes = 0, so_MaxConnections = 0, so_MaxPendingHandshakes = 0, so_HandshakeTimeout = 0, so_HeartbeatInterval = 0,
      so_HeartbeatTimeout = 0, so_HelloRateLimit = Finite 0, so_HelloRateBurst = 0\<rparr>"

text \<open>
  NewListener: the API object, the server and its subscriptions; a server that cannot listen is closed, which has no connections yet.
  The new server is the last of the process.
\<close>

definition NewListener ::
  "crypto_lib \<Rightarrow> (int \<Rightarrow> 'c result) \<Rightarrow> (string \<Rightarrow> go_error option) \<Rightarrow> (nat \<Rightarrow> go_error option) \<Rightarrow> 'c process \<Rightarrow> string \<Rightarrow> string option \<Rightarrow>
     (string \<Rightarrow> bytes result) option \<Rightarrow> server_options option \<Rightarrow> api_option list \<Rightarrow> (nat result \<times> 'c process) option" where
  "NewListener L lru_New subscribe closeHandle w roomID adapter keys options apiOptions =
     (case NewAPI roomID adapter apiOptions of
        Inl err \<Rightarrow> Some (Inl err, w)
      | Inr a \<Rightarrow>
          (case NewServer L lru_New a (Some ((case options of None \<Rightarrow> zero_server_options | Some options \<Rightarrow> options)\<lparr>so_KeyProvider := keys\<rparr>)) of
             Inl err \<Rightarrow> Some (Inl err, w)
           | Inr s \<Rightarrow>
               (let i = length (pr_servers w); w = w\<lparr>pr_servers := pr_servers w @ [s]\<rparr>
                in (case Server_Listen subscribe w i of
                      (Some err, w) \<Rightarrow> map_option (\<lambda>w. (Inl err, w)) (Server_Close_room closeHandle w i [])
                    | (None, w) \<Rightarrow> Some (Inr i, w)))))"

section \<open>The agent (transports/ice.go)\<close>

text \<open>
  An agent of pion/ice: a handle, and what its methods return. Candidates are their text; gathering gives those that the callback
  was called with before it was called with nil.
\<close>

record ice_agent =
  ia_handle :: nat
  ia_OnCandidate :: "go_error option"
  ia_GatherCandidates :: "string list result"
  ia_LocalCredentials :: "(string \<times> string) result"
  ia_SetRemoteCredentials :: "string \<Rightarrow> string \<Rightarrow> go_error option"
  ia_UnmarshalCandidate :: "string \<Rightarrow> string result"
  ia_AddRemoteCandidate :: "string \<Rightarrow> go_error option"
  ia_Accept :: "string \<Rightarrow> string \<Rightarrow> (net_addr option \<times> net_addr option) result"

definition GatherICEWithCallback :: "ice_agent option \<Rightarrow> go_error option \<Rightarrow> ice_description result" where
  "GatherICEWithCallback agent beforeGather =
     (case agent of
        None \<Rightarrow> Inl (Errorf ''ICE agent is nil'')
      | Some agent \<Rightarrow>
          (case ia_OnCandidate agent of
             Some err \<Rightarrow> Inl err
           | None \<Rightarrow>
               (case beforeGather of
                  Some err \<Rightarrow> Inl err
                | None \<Rightarrow>
                    bind_result (ia_GatherCandidates agent) (\<lambda>candidates.
                    bind_result (ia_LocalCredentials agent) (\<lambda>(ufrag, password).
                      Inr \<lparr>UsernameFragment = ufrag, Password = password, Candidates = candidates\<rparr>)))))"

fun addCandidates :: "ice_agent \<Rightarrow> string list \<Rightarrow> unit result" where
  "addCandidates agent [] = Inr ()"
| "addCandidates agent (raw # rest) =
     (case ia_UnmarshalCandidate agent raw of
        Inl _ \<Rightarrow> Inl (Errorf ''parse ICE candidate'')
      | Inr candidate \<Rightarrow>
          (case ia_AddRemoteCandidate agent candidate of
             Some err \<Rightarrow> Inl err
           | None \<Rightarrow> addCandidates agent rest))"

definition AddRemoteCandidates :: "ice_agent option \<Rightarrow> ice_description \<Rightarrow> unit result" where
  "AddRemoteCandidates agent description =
     (case agent of
        None \<Rightarrow> Inl (Errorf ''ICE agent is nil'')
      | Some agent \<Rightarrow>
          (case ia_SetRemoteCredentials agent (UsernameFragment description) (Password description) of
             Some err \<Rightarrow> Inl err
           | None \<Rightarrow> addCandidates agent (Candidates description)))"

definition AcceptICE :: "ice_agent \<Rightarrow> ice_description \<Rightarrow> (net_addr option \<times> net_addr option) result" where
  "AcceptICE agent remote =
     bind_result (AddRemoteCandidates (Some agent) remote) (\<lambda>_. ia_Accept agent (UsernameFragment remote) (Password remote))"

section \<open>The setup of a transport (listen.go)\<close>

text \<open>
  What the calls of one setup return, and \<open>oi_env k\<close>, what the other goroutines do to the server in the \<open>k\<close>-th gap.
  \<open>oi_allocate\<close> is the error of allocating a relay candidate for a user name and adding it to the agent, \<open>oi_accept\<close> accepts a
  transport, by its name, on an endpoint with two addresses and a key. \<open>oi_pickClosed\<close> decides a select of which both cases are ready.
\<close>

record 'c offer_inputs =
  oi_agent :: "ice_agent result"
  oi_allocate :: "string \<Rightarrow> go_error option"
  oi_publish :: "go_error option"
  oi_accept :: "string \<Rightarrow> addr \<Rightarrow> addr \<Rightarrow> bytes \<Rightarrow> nat result"
  oi_now :: int
  oi_pickClosed :: bool
  oi_closeHandle :: "nat \<Rightarrow> go_error option"
  oi_env :: "nat \<Rightarrow> 'c server \<Rightarrow> 'c server"

text \<open>
  What a setup has created when it returns, whether it put the connection into the queue of Accept, and whether it started the goroutines
  that read the transport and monitor it.
\<close>

record setup_state =
  st_agent :: "nat option"
  st_transport :: "nat option"
  st_started :: bool
  st_accepted :: bool

definition answerMessage :: "'c server \<Rightarrow> connection \<Rightarrow> ice_description \<Rightarrow> message" where
  "answerMessage s c description =
     \<lparr>msg_Header = Some (zero_header\<lparr>hd_SourceId := sv_serverId s, hd_TargetId := cn_sourceId c, hd_Type := ICEAnswer,
        hd_Sequence := cn_signalSend c\<rparr>),
      msg_Payload = Some (zero_payload\<lparr>pl_ICEUsername := UsernameFragment description, pl_ICEPassword := Password description,
        pl_ICECandidates := Candidates description\<rparr>),
      msg_Encrypt = False\<rparr>"

definition sendICEAnswer :: "hello_lib \<Rightarrow> 'c offer_inputs \<Rightarrow> 'c server \<Rightarrow> nat \<Rightarrow> ice_description \<Rightarrow> go_error option \<times> 'c server" where
  "sendICEAnswer W inp s p description =
     (case ValidateICEDescriptionLimits description (so_MaxPendingICE (sv_options s)) (so_MaxPendingICEBytes (sv_options s)) of
        Inl err \<Rightarrow> (Some err, s)
      | Inr _ \<Rightarrow>
          (let s = upd_conn s p (\<lambda>c. c\<lparr>cn_signalSend := cn_signalSend c + 1\<rparr>)
           in (case SignalingChannel_EncodeMessage (hl_G W) (cn_codec (conn_at s p)) (Some (answerMessage s (conn_at s p) description)) of
                 (Inl err, codec) \<Rightarrow> (Some err, upd_conn s p (\<lambda>c. c\<lparr>cn_codec := codec\<rparr>))
               | (Inr data, codec) \<Rightarrow>
                   (oi_publish inp, emit (upd_conn s p (\<lambda>c. c\<lparr>cn_codec := codec\<rparr>)) [Publish MessageAnswer data]))))"

definition failSetup :: "'c offer_inputs \<Rightarrow> 'c server \<Rightarrow> nat \<Rightarrow> setup_state \<Rightarrow> ('c server \<times> setup_state) option" where
  "failSetup inp s p su = map_option (\<lambda>s. (s, su)) (Connection_Close (oi_closeHandle inp) s p)"

text \<open>The function that runs before the candidates are gathered.\<close>

definition beforeGather :: "'c offer_inputs \<Rightarrow> 'c server \<Rightarrow> nat \<Rightarrow> ice_agent \<Rightarrow> provider_config option \<Rightarrow> go_error option" where
  "beforeGather inp s p agent relayProvider =
     (if \<not> ownsICEAgent s p (ia_handle agent) then Some ErrNetClosed
      else (case relayProvider of
              None \<Rightarrow> None
            | Some _ \<Rightarrow> (case ia_LocalCredentials agent of Inl err \<Rightarrow> Some err | Inr (ufrag, _) \<Rightarrow> oi_allocate inp ufrag)))"

text \<open>The last part of handleICEOffer: the established connection is offered to Accept.\<close>

definition handleICEOffer_announce ::
  "'c offer_inputs \<Rightarrow> 'c server \<Rightarrow> nat \<Rightarrow> nat \<Rightarrow> bool \<Rightarrow> setup_state \<Rightarrow> ('c server \<times> setup_state) option" where
  "handleICEOffer_announce inp s p t hasChannel su =
     (if \<not> isCurrentTransport s p (Some t) hasChannel then failSetup inp s p su
      else (let s = oi_env inp 7 s
            in if int (length (sv_acceptCh s)) < so_MaxConnections (sv_options s) \<and> \<not> (sv_closeCh s \<and> oi_pickClosed inp)
               then (let s = oi_env inp 8 (s\<lparr>sv_acceptCh := sv_acceptCh s @ [p]\<rparr>)
                     in Some (if isCurrentTransport s p (Some t) hasChannel then emit s [OnConnected p] else s, su\<lparr>st_accepted := True\<rparr>))
               else failSetup inp s p su))"

text \<open>The part of handleICEOffer after the ICE connection with the addresses \<open>local\<close> and \<open>remote\<close>.\<close>

definition handleICEOffer_transport ::
  "'c offer_inputs \<Rightarrow> 'c server \<Rightarrow> nat \<Rightarrow> nat \<Rightarrow> string \<Rightarrow> net_addr option \<Rightarrow> net_addr option \<Rightarrow> setup_state \<Rightarrow> ('c server \<times> setup_state) option" where
  "handleICEOffer_transport inp s p a selectedName local remote su =
     (if \<not> ownsICEAgent s p a then Some (emit s [ICEConnClosed], su)
      else (case findTransport (so_Transports (sv_options s)) selectedName of
              None \<Rightarrow> failSetup inp (emit s [ICEConnClosed]) p su
            | Some selected \<Rightarrow>
                (let c = conn_at s p;
                     endpointLocal = \<lparr>RoomID = cn_roomId c, PeerID = cn_serverId c, IP = [], Port = 0\<rparr>;
                     endpointRemote = \<lparr>RoomID = cn_roomId c, PeerID = cn_sourceId c, IP = [], Port = 0\<rparr>;
                     transportKey = SignalingChannel_SessionKey (cn_codec c);
                     s = oi_env inp 4 s
                 in (case oi_accept inp (tr_Name selected) endpointLocal endpointRemote transportKey of
                       Inl _ \<Rightarrow> failSetup inp (emit s [ICEConnClosed]) p su
                     | Inr t \<Rightarrow>
                         (let su = su\<lparr>st_transport := Some t\<rparr>
                          in (case installTransport s p a (Some t) (transportMaxFrameSize selected) local remote of
                                (False, s) \<Rightarrow> Some (emit s [ICEConnClosed], su)
                              | (True, s) \<Rightarrow>
                                  (let s = upd_conn (oi_env inp 5 s) p (\<lambda>c. c\<lparr>cn_lastTransportRead := oi_now inp\<rparr>);
                                       hasChannel = (snd (transportState s p) \<noteq> None)
                                   in (case markEstablished s p (Some a) (Some t) of
                                         (False, s) \<Rightarrow> failSetup inp s p su
                                       | (True, s) \<Rightarrow>
                                           handleICEOffer_announce inp (oi_env inp 6 s) p t hasChannel (su\<lparr>st_started := True\<rparr>)))))))))"

text \<open>The part of handleICEOffer after the agent was installed and the relay provider made.\<close>

definition handleICEOffer_answer ::
  "hello_lib \<Rightarrow> 'c offer_inputs \<Rightarrow> 'c server \<Rightarrow> nat \<Rightarrow> ice_agent \<Rightarrow> string \<Rightarrow> provider_config option \<Rightarrow> ice_description \<Rightarrow> setup_state \<Rightarrow>
     ('c server \<times> setup_state) option" where
  "handleICEOffer_answer W inp s p agent selectedName relayProvider remote su =
     (let a = ia_handle agent; gathered = GatherICEWithCallback (Some agent) (beforeGather inp s p agent relayProvider); s = oi_env inp 1 s
      in (case gathered of
            Inl _ \<Rightarrow> if ownsICEAgent s p a then failSetup inp s p su else Some (emit s [AgentClosed a], su)
          | Inr description \<Rightarrow>
              if \<not> ownsICEAgent s p a then Some (emit s [AgentClosed a], su)
              else (case ValidateICEDescriptionLimits description (so_MaxPendingICE (sv_options s)) (so_MaxPendingICEBytes (sv_options s)) of
                      Inl _ \<Rightarrow> failSetup inp s p su
                    | Inr _ \<Rightarrow>
                        (let s = oi_env inp 2 (emit s [OnICEAnswer p description])
                         in if \<not> ownsICEAgent s p a then Some (s, su)
                            else (case sendICEAnswer W inp s p description of
                                    (Some _, s) \<Rightarrow> failSetup inp s p su
                                  | (None, s) \<Rightarrow>
                                      (let s = oi_env inp 3 s
                                       in (case AcceptICE agent remote of
                                             Inl _ \<Rightarrow> failSetup inp s p su
                                           | Inr (local, remote) \<Rightarrow>
                                               handleICEOffer_transport inp s p a selectedName local remote su)))))))"

definition handleICEOffer ::
  "hello_lib \<Rightarrow> 'c offer_inputs \<Rightarrow> 'c server \<Rightarrow> nat \<Rightarrow> ice_description \<Rightarrow> ('c server \<times> setup_state) option" where
  "handleICEOffer W inp s p remote =
     (let su = \<lparr>st_agent = None, st_transport = None, st_started = False, st_accepted = False\<rparr>
      in (case selectedTransportForSetup s p of
            (_, False) \<Rightarrow> Some (s, su)
          | (selectedName, True) \<Rightarrow>
              (case oi_agent inp of
                 Inl _ \<Rightarrow> failSetup inp (oi_env inp 0 s) p su
               | Inr agent \<Rightarrow>
                   (let su = su\<lparr>st_agent := Some (ia_handle agent)\<rparr>
                    in (case installICEAgent (oi_env inp 0 s) p (Some (ia_handle agent)) of
                          (False, s) \<Rightarrow> Some (s, su)
                        | (True, s) \<Rightarrow>
                            (case WebSocketRelayProvider (Some (sv_api s)) (sv_serverId s) (cn_sourceId (conn_at s p)) of
                               Inl _ \<Rightarrow> failSetup inp s p su
                             | Inr relayProvider \<Rightarrow> handleICEOffer_answer W inp s p agent selectedName relayProvider remote su))))))"

section \<open>Monitoring (listen.go)\<close>

text \<open>One tick of monitorTransport: whether the loop goes on. \<open>send\<close> is the write of the transport.\<close>

definition monitorTick ::
  "(nat \<Rightarrow> go_error option) \<Rightarrow> (bytes \<Rightarrow> nat \<times> go_error option) \<Rightarrow> int \<Rightarrow> 'c server \<Rightarrow> nat \<Rightarrow> nat \<Rightarrow> bool \<Rightarrow> (bool \<times> 'c server) option" where
  "monitorTick closeHandle send now s p t hasChannel =
     (if \<not> isCurrentTransport s p (Some t) hasChannel then Some (False, s)
      else if time_Sub now (cn_lastTransportRead (conn_at s p)) \<ge> so_HeartbeatTimeout (sv_options s)
      then map_option (Pair False) (Connection_Close closeHandle s p)
      else (let c = conn_at s p
            in (case sendHeartbeat \<lparr>ws_transport = cn_transportConn c \<noteq> None, ws_channel = cn_dataChannel c, ws_open = \<not> cn_closed c, ws_timedOut = False\<rparr>
                       (cn_transportConn c = Some t \<and> (cn_dataChannel c \<noteq> None) = hasChannel) send of
                  (err, ws, _) \<Rightarrow>
                    (let s = upd_conn s p (\<lambda>c. c\<lparr>cn_dataChannel := ws_channel ws\<rparr>)
                     in (case err of
                           Some _ \<Rightarrow> map_option (Pair False) (Connection_Close closeHandle s p)
                         | None \<Rightarrow> Some (True, s))))))"

section \<open>The subscription for offers (listen.go)\<close>

text \<open>
  One message of the subscription: None is a panic of the buffer budget, otherwise the setup that is started, for a connection and an offer, and
  the server. The store of the pending offer and the choice of the transport are the two critical sections.
\<close>

definition selectTransport :: "'c server \<Rightarrow> nat \<Rightarrow> string \<Rightarrow> (nat \<times> ice_description) option \<times> 'c server" where
  "selectTransport s p name =
     (let s = (if \<not> cn_closed (conn_at s p) \<and> cn_selectedTransport (conn_at s p) = [] then upd_conn s p (\<lambda>c. c\<lparr>cn_selectedTransport := name\<rparr>) else s)
      in (case cn_pendingICEOffer (conn_at s p) of
            None \<Rightarrow> (None, s)
          | Some offer \<Rightarrow>
              if cn_closed (conn_at s p) then (None, s)
              else (Some (p, offer), upd_conn s p (\<lambda>c. c\<lparr>cn_pendingICEOffer := None\<rparr>))))"

definition receiveOffer :: "'c server \<Rightarrow> nat \<Rightarrow> ice_description \<Rightarrow> (nat \<times> ice_description) option \<times> 'c server" where
  "receiveOffer s p offer =
     (let s = (if isCurrent s p then emit s [OnICEOffer p offer] else s);
          selected = (\<not> cn_closed (conn_at s p) \<and> cn_selectedTransport (conn_at s p) \<noteq> []);
          s = (if \<not> cn_closed (conn_at s p) \<and> \<not> selected then upd_conn s p (\<lambda>c. c\<lparr>cn_pendingICEOffer := Some offer\<rparr>) else s)
      in (if selected then Some (p, offer) else None, s))"

definition dispatchOffer ::
  "(nat \<Rightarrow> go_error option) \<Rightarrow> 'c server \<Rightarrow> nat \<Rightarrow> message_type \<Rightarrow> payload \<Rightarrow> ((nat \<times> ice_description) option \<times> 'c server) option" where
  "dispatchOffer closeHandle s p ty pl =
     (if ty = Disconnect then map_option (Pair None) (Connection_Close closeHandle s p)
      else if ty = TransportSelect
      then Some (if containsTransport (so_Transports (sv_options s)) (pl_Transport pl) then selectTransport s p (pl_Transport pl) else (None, s))
      else if ty = ICEOffer
      then (let offer = \<lparr>UsernameFragment = pl_ICEUsername pl, Password = pl_ICEPassword pl, Candidates = pl_ICECandidates pl\<rparr>
            in Some (if pl_ICEUsername pl = [] \<or> pl_ICEPassword pl = [] \<or> pl_ICECandidates pl = [] then (None, s)
                     else (case ValidateICEDescriptionLimits offer (so_MaxPendingICE (sv_options s)) (so_MaxPendingICEBytes (sv_options s)) of
                             Inl _ \<Rightarrow> (None, s)
                           | Inr _ \<Rightarrow> receiveOffer s p offer)))
      else Some (None, s))"

definition onOffer ::
  "hello_lib \<Rightarrow> (nat \<Rightarrow> go_error option) \<Rightarrow> 'c server \<Rightarrow> bytes \<Rightarrow> ((nat \<times> ice_description) option \<times> 'c server) option" where
  "onOffer W closeHandle s data =
     (case Codec_DecodeMessageHeader (hl_G W) zero_codec data of
        Inl _ \<Rightarrow> Some (None, s)
      | Inr header \<Rightarrow>
          if hd_TargetId header \<noteq> sv_serverId s then Some (None, s)
          else (case sv_connections s (hd_SourceId header) of
                  None \<Rightarrow> Some (None, s)
                | Some p \<Rightarrow>
                    (case SignalingChannel_DecodeMessage (hl_G W) (cn_codec (conn_at s p)) data of
                       Inl _ \<Rightarrow> Some (None, s)
                     | Inr msg \<Rightarrow>
                         (case ReplayWindow_Accept (cn_signalRecv (conn_at s p)) (hd_Sequence (the (msg_Header msg))) of
                            (accepted, w) \<Rightarrow>
                              (let s = upd_conn s p (\<lambda>c. c\<lparr>cn_signalRecv := w\<rparr>)
                               in if \<not> accepted then Some (None, s)
                                  else (case msg_Payload msg of
                                          None \<Rightarrow> Some (None, s)
                                        | Some pl \<Rightarrow>
                                            if \<not> isCurrent s p then Some (None, s)
                                            else dispatchOffer closeHandle s p (hd_Type (the (msg_Header msg))) pl))))))"

end
