(* ===== verification/Room_Leases.thy ===== *)
theory Room_Leases
  imports Listening
begin

text \<open>
  A room has one server. The map roomOwners of a process names, for every room of every adapter, exactly the server that
  listens there, whatever servers are created, started and closed, and whether their subscriptions succeed or not.
\<close>

section \<open>Processes\<close>

text \<open>The fields of a server that the leases depend on, which only Listen and Close of the server write.\<close>

definition same_room :: "'c server \<Rightarrow> 'c server \<Rightarrow> bool" where
  "same_room s s' \<longleftrightarrow> sv_api s' = sv_api s \<and> sv_roomLeaseKey s' = sv_roomLeaseKey s \<and> sv_onHandshake s' = sv_onHandshake s \<and>
     sv_onOffer s' = sv_onOffer s"

inductive rooms_reach :: "'c process \<Rightarrow> bool" where
  rooms_start: "rooms_reach \<lparr>pr_servers = [], pr_roomOwners = Map.empty\<rparr>"
| rooms_new: "\<lbrakk> rooms_reach w; NewServer L lru_New a options = Inr s \<rbrakk> \<Longrightarrow> rooms_reach (w\<lparr>pr_servers := pr_servers w @ [s]\<rparr>)"
| rooms_listen: "\<lbrakk> rooms_reach w; i < length (pr_servers w) \<rbrakk> \<Longrightarrow> rooms_reach (snd (Server_Listen subscribe w i))"
| rooms_close: "\<lbrakk> rooms_reach w; i < length (pr_servers w); Server_Close_room closeHandle w i ps = Some w' \<rbrakk> \<Longrightarrow> rooms_reach w'"
| rooms_other: "\<lbrakk> rooms_reach w; i < length (pr_servers w); same_room (pr_servers w ! i) s' \<rbrakk> \<Longrightarrow> rooms_reach (upd_server w i (\<lambda>_. s'))"

lemma NewListener_reach:
  assumes w: "rooms_reach w" and n: "NewListener L lru_New subscribe closeHandle w roomID adapter keys options apiOptions = Some (r, w')"
  shows "rooms_reach w'"
proof -
  let ?w = "\<lambda>s. w\<lparr>pr_servers := pr_servers w @ [s]\<rparr>" and ?i = "length (pr_servers w)"
  define opts where "opts = (case options of None \<Rightarrow> zero_server_options | Some options \<Rightarrow> options)\<lparr>so_KeyProvider := keys\<rparr>"
  consider "w' = w"
    | a s where "NewServer L lru_New a (Some opts) = Inr s"
        "Server_Close_room closeHandle (snd (Server_Listen subscribe (?w s) ?i)) ?i [] = Some w'"
    | a s where "NewServer L lru_New a (Some opts) = Inr s" "w' = snd (Server_Listen subscribe (?w s) ?i)"
    using n unfolding NewListener_def Let_def opts_def [symmetric] by (auto split: sum.splits prod.splits option.splits)
  moreover have "length (pr_servers (snd (Server_Listen subscribe w i))) = length (pr_servers w)" for w :: "'a process" and i
    by (auto simp: Server_Listen_def Listen_undo_def upd_server_def Let_def split: option.splits)
  moreover have "rooms_reach (snd (Server_Listen subscribe (?w s) ?i))" if "NewServer L lru_New a (Some opts) = Inr s" for a s
    by (rule rooms_listen [OF rooms_new [OF w that]]) simp
  ultimately show ?thesis using w
    by cases (auto elim!: rooms_close [rotated 2])
qed

section \<open>Closing leaves the lease to Close\<close>

lemma same_room_refl [simp]: "same_room s s"
  by (simp add: same_room_def)

lemma same_room_trans [trans]: "same_room s s' \<Longrightarrow> same_room s' s'' \<Longrightarrow> same_room s s''"
  by (simp add: same_room_def)

lemma same_room_steps [simp]:
  "same_room s (upd_conn s p f)" "same_room s (emit s es)" "same_room s (detachTransport h s p)" "same_room s (releaseLease s p)"
  "same_room s (snd (removeCurrent s p))"
  by (auto simp: same_room_def upd_conn_def emit_def detachTransport_def releaseLease_def removeCurrent_def stopHandshakeTimer_def
      swapPendingLease_def swapTotalLease_def addPending_def addTotal_def Let_def split: option.splits)

lemma closeRecvBuf_room: "closeRecvBuf s p = Some s' \<Longrightarrow> same_room s s'"
  by (auto simp: closeRecvBuf_def same_room_def upd_conn_def)

lemma Connection_Close_room:
  assumes "Connection_Close h s p = Some s'"
  shows "same_room s s'"
proof -
  let ?s1 = "upd_conn s p (\<lambda>c. c\<lparr>cn_closed := True\<rparr>)"
  let ?s2 = "upd_conn ?s1 p (\<lambda>c. c\<lparr>cn_established := False\<rparr>)"
  let ?t = "\<lambda>s. upd_conn (detachTransport h (releaseLease (snd (removeCurrent s p)) p) p) p (\<lambda>c. c\<lparr>cn_closeOnce := OnceDone\<rparr>)"
  have t: "same_room s3 (?t s3)" for s3
    by (meson same_room_steps same_room_trans)
  have s2: "same_room s ?s2" by (meson same_room_steps same_room_trans)
  consider "s' = ?s1" | s3 where "closeRecvBuf ?s2 p = Some s3" "s' = ?t s3 \<or> s' = emit (?t s3) [OnDisconnected p]"
    using assms by (auto simp: Connection_Close_def Let_def split: if_splits option.splits)
  then show ?thesis
  proof cases
    case (2 s3)
    have "same_room s (?t s3)" by (rule same_room_trans [OF s2 same_room_trans [OF closeRecvBuf_room [OF 2(1)] t]])
    then show ?thesis using 2(2) by (auto intro: same_room_trans [OF _ same_room_steps(2)])
  qed simp
qed

lemma closeAll_room: "closeAll h s ps = Some s' \<Longrightarrow> same_room s s'"
  by (induction h s ps rule: closeAll.induct) (auto split: option.splits dest: Connection_Close_room intro: same_room_trans)

lemma Server_Close_fields:
  assumes "Server_Close h s ps = Some s'"
  shows "sv_api s' = sv_api s" "sv_roomLeaseKey s' = sv_roomLeaseKey s" "\<not> sv_onHandshake s'" "\<not> sv_onOffer s'"
  using assms by (auto simp: Server_Close_def Let_def same_room_def dest!: closeAll_room)

section \<open>The invariant\<close>

definition listening :: "'c server \<Rightarrow> bool" where
  "listening s \<longleftrightarrow> sv_onHandshake s \<and> sv_onOffer s"

definition server_room_ok :: "'c server \<Rightarrow> bool" where
  "server_room_ok s \<longleftrightarrow> sv_onHandshake s = sv_onOffer s \<and> sv_roomLeaseKey s = (if listening s then leaseKey (sv_api s) else [])"

definition owners_ok :: "'c process \<Rightarrow> bool" where
  "owners_ok w \<longleftrightarrow> (\<forall>s \<in> set (pr_servers w). server_room_ok s) \<and>
     (\<forall>key i. pr_roomOwners w key = Some i \<longleftrightarrow> i < length (pr_servers w) \<and> listening (pr_servers w ! i) \<and> leaseKey (sv_api (pr_servers w ! i)) = key)"

lemma leaseKey_nonempty [simp]: "leaseKey a \<noteq> []"
  by (simp add: leaseKey_def)

lemma server_room_ok_at: "owners_ok w \<Longrightarrow> i < length (pr_servers w) \<Longrightarrow> server_room_ok (pr_servers w ! i)"
  by (simp add: owners_ok_def)

text \<open>One server changes, and the map with it.\<close>

lemma owners_ok_change:
  assumes w: "owners_ok w" and i: "i < length (pr_servers w)" and s: "server_room_ok s"
    and m: "\<And>key j. owners key = Some j \<longleftrightarrow> (if j = i then listening s \<and> leaseKey (sv_api s) = key else pr_roomOwners w key = Some j)"
  shows "owners_ok \<lparr>pr_servers = (pr_servers w)[i := s], pr_roomOwners = owners\<rparr>"
proof -
  have "server_room_ok s'" if "s' \<in> set ((pr_servers w)[i := s])" for s'
    using that s w set_update_subset_insert [of "pr_servers w" i s] by (auto simp: owners_ok_def)
  then show ?thesis using w i by (auto simp: owners_ok_def m nth_list_update)
qed

lemma listen_keeps:
  assumes w: "owners_ok w" and i: "i < length (pr_servers w)"
  shows "owners_ok (snd (Server_Listen subscribe w i))"
proof (cases "snd (Server_Listen subscribe w i) = w")
  case False
  let ?s = "pr_servers w ! i" and ?w = "snd (Server_Listen subscribe w i)"
  let ?key = "leaseKey (sv_api ?s)"
  from False have c: "\<not> sv_closeCh ?s" "\<not> sv_onHandshake ?s" "\<not> sv_onOffer ?s" "pr_roomOwners w ?key = None"
    by (auto simp: Server_Listen_def Let_def split: if_splits)
  have key: "sv_roomLeaseKey ?s = []"
    using server_room_ok_at [OF w i] c by (simp add: server_room_ok_def listening_def)
  have free: "pr_roomOwners w k \<noteq> Some i" for k
    using w c(2) by (auto simp: owners_ok_def listening_def)
  show ?thesis
  proof (cases "subscribe MessageHello = None \<and> subscribe MessageOffer = None")
    case True
    let ?s' = "?s\<lparr>sv_roomLeaseKey := ?key, sv_onHandshake := True, sv_onOffer := True\<rparr>"
    have "?w = \<lparr>pr_servers = (pr_servers w)[i := ?s'], pr_roomOwners = (pr_roomOwners w)(?key \<mapsto> i)\<rparr>"
      using True c i by (simp add: Server_Listen_def upd_server_def Let_def)
    moreover have "server_room_ok ?s'" by (simp add: server_room_ok_def listening_def)
    ultimately show ?thesis
      using owners_ok_change [OF w i, of ?s' "(pr_roomOwners w)(?key \<mapsto> i)"] c(4) free by (auto simp: listening_def)
  next
    case False
    let ?s' = "?s\<lparr>sv_onHandshake := False, sv_onOffer := False, sv_roomLeaseKey := []\<rparr>"
    have "?w = \<lparr>pr_servers = (pr_servers w)[i := ?s'], pr_roomOwners = (pr_roomOwners w)(?key := None)\<rparr>"
      using False c i by (auto simp: Server_Listen_def Listen_undo_def upd_server_def Let_def fun_upd_idem_iff split: option.splits)
    moreover have "server_room_ok ?s'" by (simp add: server_room_ok_def listening_def)
    ultimately show ?thesis
      using owners_ok_change [OF w i, of ?s' "(pr_roomOwners w)(?key := None)"] c(4) free by (auto simp: listening_def)
  qed
qed (use w in simp)

lemma close_keeps:
  assumes w: "owners_ok w" and i: "i < length (pr_servers w)" and c: "Server_Close_room closeHandle w i ps = Some w'"
  shows "owners_ok w'"
proof -
  let ?s = "pr_servers w ! i"
  obtain s where s: "Server_Close closeHandle ?s ps = Some s" using c by (auto simp: Server_Close_room_def)
  note f = Server_Close_fields [OF s]
  let ?s' = "s\<lparr>sv_roomLeaseKey := []\<rparr>"
  let ?owners = "if sv_roomLeaseKey ?s \<noteq> [] \<and> pr_roomOwners w (sv_roomLeaseKey ?s) = Some i
    then (pr_roomOwners w)(sv_roomLeaseKey ?s := None) else pr_roomOwners w"
  have "w' = \<lparr>pr_servers = (pr_servers w)[i := ?s'], pr_roomOwners = ?owners\<rparr>"
  proof (cases "sv_roomLeaseKey ?s = []")
    case True
    then have "?s' = s" using f(2) by (intro server.equality) simp_all
    moreover have "w' = w\<lparr>pr_servers := (pr_servers w)[i := s]\<rparr>"
      using True c s i f(2) by (simp add: Server_Close_room_def upd_server_def Let_def)
    ultimately show ?thesis using True by simp
  qed (use c s i f(2) in \<open>auto simp: Server_Close_room_def upd_server_def Let_def\<close>)
  moreover have "server_room_ok ?s'" using f by (simp add: server_room_ok_def listening_def)
  moreover have "?owners key = Some j \<longleftrightarrow> (if j = i then False else pr_roomOwners w key = Some j)" for key j
  proof -
    have "pr_roomOwners w key = Some i \<longleftrightarrow> sv_roomLeaseKey ?s \<noteq> [] \<and> key = sv_roomLeaseKey ?s"
      using w i server_room_ok_at [OF w i] by (auto simp: owners_ok_def server_room_ok_def)
    then show ?thesis by auto
  qed
  ultimately show ?thesis using owners_ok_change [OF w i, of ?s' ?owners] f(3) by (simp add: listening_def)
qed

lemma rooms_reach_ok: "rooms_reach w \<Longrightarrow> owners_ok w"
proof (induction rule: rooms_reach.induct)
  case rooms_start
  then show ?case by (simp add: owners_ok_def)
next
  case (rooms_new w L lru_New a options s)
  then have "server_room_ok s" "\<not> listening s"
    by (auto simp: NewServer_def bind_result_Inr_iff server_room_ok_def listening_def)
  with rooms_new.IH show ?case by (auto simp: owners_ok_def nth_append less_Suc_eq)
next
  case (rooms_other w i s')
  let ?s = "pr_servers w ! i"
  from rooms_other have e: "listening s' = listening ?s" "sv_api s' = sv_api ?s" "server_room_ok s'"
    using server_room_ok_at [of w i] by (auto simp: same_room_def server_room_ok_def listening_def)
  have "owners_ok \<lparr>pr_servers = (pr_servers w)[i := s'], pr_roomOwners = pr_roomOwners w\<rparr>"
    using rooms_other e by (intro owners_ok_change) (auto simp: owners_ok_def)
  then show ?case by (cases w) (simp add: upd_server_def)
qed (simp_all add: listen_keeps close_keeps)

text \<open>
  C17. A room has one server, and exactly while it listens. In every process that servers are created in, started, closed and used,
  roomOwners maps a room of an adapter to a server if and only if that server has both subscriptions of the room; so two servers never listen
  in one room, a failed Listen leaves no lease behind, and closing a server frees its room. Listen and Close of a server are single steps here.
\<close>

theorem room_owner_exact:
  assumes "rooms_reach w"
  shows "pr_roomOwners w key = Some i \<longleftrightarrow>
     i < length (pr_servers w) \<and> sv_onHandshake (pr_servers w ! i) \<and> sv_onOffer (pr_servers w ! i) \<and> leaseKey (sv_api (pr_servers w ! i)) = key"
  using rooms_reach_ok [OF assms] by (auto simp: owners_ok_def listening_def)

text \<open>Two servers for one room: the second cannot listen until the first is closed.\<close>

definition two_servers :: "unit server \<Rightarrow> unit process" where
  "two_servers s = snd (Server_Listen (\<lambda>_. None) (snd (Server_Listen (\<lambda>_. None) \<lparr>pr_servers = [s, s], pr_roomOwners = Map.empty\<rparr> 0)) 1)"

theorem room_owner_exact_witness:
  "\<exists>s. NewServer symbolic_lib (\<lambda>_. Inr ()) sample_api (Some sample_server_options) = Inr s \<and>
     pr_roomOwners (two_servers s) ''s:room'' = Some 0 \<and> sv_onOffer (pr_servers (two_servers s) ! 0) \<and> \<not> sv_onOffer (pr_servers (two_servers s) ! 1)"
proof -
  obtain opts where o: "NewServer_options symbolic_lib sample_api (Some sample_server_options) = Inr opts" using sample_server_ok by blast
  have "\<exists>s. NewServer symbolic_lib (\<lambda>_. Inr ()) sample_api (Some sample_server_options) = Inr s"
    using o by (simp add: NewServer_def ServerIDFromPublicKey_def symbolic_lib_def ed25519_PublicKeySize_def)
  then obtain s :: "unit server" where s: "NewServer symbolic_lib (\<lambda>_. Inr ()) sample_api (Some sample_server_options) = Inr s" by blast
  then have f: "sv_api s = sample_api" "\<not> sv_closeCh s" "\<not> sv_onHandshake s" "\<not> sv_onOffer s"
    by (auto simp: NewServer_def bind_result_Inr_iff)
  have "rooms_reach \<lparr>pr_servers = [s, s], pr_roomOwners = Map.empty\<rparr>"
    using rooms_new [OF rooms_new [OF rooms_start s] s] by simp
  then have "rooms_reach (snd (Server_Listen (\<lambda>_. None) \<lparr>pr_servers = [s, s], pr_roomOwners = Map.empty\<rparr> 0))"
    by (rule rooms_listen) simp
  then have r: "rooms_reach (two_servers s)"
    unfolding two_servers_def by (rule rooms_listen) (simp add: Server_Listen_def upd_server_def Let_def f)
  have k: "leaseKey sample_api = ''s:room''" by (simp add: leaseKey_def sample_api_def)
  have o: "pr_roomOwners (two_servers s) ''s:room'' = Some 0" "\<not> sv_onOffer (pr_servers (two_servers s) ! 1)"
    by (simp_all add: two_servers_def Server_Listen_def upd_server_def Let_def f k)
  with s room_owner_exact [OF r, of "''s:room''" 0] show ?thesis by blast
qed

end
