(* ===== verification/Key_Agreement.thy ===== *)
theory Key_Agreement
  imports Hello
begin

text \<open>
  The two sides of the handshake put together: an answer that a server publishes for a hello is
  accepted by the client that sent it, and both then hold the same keys, so that the data channel delivers; and
  what each side may conclude when it accepts a message, whoever sent it.
\<close>

section \<open>Assumptions\<close>

text \<open>
  What the exchange relies on: the ciphers' contract, the commutativity of X25519, that a generated public
  key is accepted by NewPublicKey, and that Ed25519 verifies what it signed.
\<close>

definition hello_lib_ok :: "hello_lib \<Rightarrow> bool" where
  "hello_lib_ok W \<longleftrightarrow> lib_ok (hl_L W) \<and>
     (\<forall>a. hl_NewPublicKey W (hl_PublicKey W a) = Inr (hl_PublicKey W a)) \<and>
     (\<forall>a b. hl_ECDH W a (hl_PublicKey W b) = hl_ECDH W b (hl_PublicKey W a)) \<and>
     (\<forall>k m. length k = ed25519_PrivateKeySize \<longrightarrow> keyFromSeed (hl_L W) (take ed25519_SeedSize k) = k \<longrightarrow>
        length (ed25519_Sign (hl_L W) k m) = ed25519_SignatureSize \<and>
        ed25519_Verify (hl_L W) (publicOf (hl_L W) k) m (ed25519_Sign (hl_L W) k m))"

definition random_ok :: "random \<Rightarrow> bool" where
  "random_ok rnd \<longleftrightarrow> (\<forall>n. \<exists>b. rnd n = Inr b \<and> length b = n)"

text \<open>The client pins the server's key, shares its own with the server, and both use one room, cipher and user data.\<close>

definition configured_alike :: "hello_lib \<Rightarrow> pre_shared_key \<Rightarrow> string \<Rightarrow> client_options \<Rightarrow> 'c server \<Rightarrow> bool" where
  "configured_alike W psk roomId options s \<longleftrightarrow>
     psk_ServerPublicKey psk = publicOf (hl_L W) (so_IdentityKey (sv_options s)) \<and>
     ServerIDFromPublicKey (hl_C W) (psk_ServerPublicKey psk) = Inr (sv_serverId s) \<and>
     serverKey s (psk_ClientID psk) = Inr (psk_Key psk) \<and> api_RoomId (sv_api s) = roomId \<and>
     co_EncryptionType options = so_EncryptionType (sv_options s) \<and> co_EncryptionAAD options = so_EncryptionAAD (sv_options s)"

definition gob_carries :: "hello_lib \<Rightarrow> message \<Rightarrow> bool" where
  "gob_carries W m \<longleftrightarrow> gob_ok (hl_G W) (the (msg_Header m)) (the (msg_Payload m))"

lemma case_error_Inr_iff: "(case r of Inl _ \<Rightarrow> Inl e | Inr x \<Rightarrow> f x) = Inr y \<longleftrightarrow> (\<exists>x. r = Inr x \<and> f x = Inr y)"
  by (cases r) auto

section \<open>Channels from the same key\<close>

lemma newNonceSource_any: "newNonceSource rnd n = Inr ns \<Longrightarrow> random_ok rnd' \<Longrightarrow> \<exists>ns'. newNonceSource rnd' n = Inr ns'"
  by (auto simp: newNonceSource_def random_ok_def bind_result_Inr_iff split: if_splits)

lemma withNonceSource_any: "withNonceSource rnd A = Inr i \<Longrightarrow> random_ok rnd' \<Longrightarrow> \<exists>i'. withNonceSource rnd' A = Inr i'"
  by (auto simp: withNonceSource_def bind_result_Inr_iff dest: newNonceSource_any)

lemma createEncryptKit_any:
  assumes "createEncryptKit L rnd typ key = Inr kit" and r: "random_ok rnd'"
  shows "\<exists>kit'. createEncryptKit L rnd' typ key = Inr kit'"
  using assms(1) withNonceSource_any [OF _ r]
  unfolding createEncryptKit_def NewAES256GCM_def NewAscon128a_def NewCamellia256GCM_def NewChaCha20Poly1305_def NewXChaCha20Poly1305_def Let_def
  by (auto simp: bind_result_Inr_iff split: if_split_asm; blast)

lemma NewCodec_any:
  assumes "NewCodec L rnd typ key aad = Inr c" and "random_ok rnd'"
  shows "\<exists>c'. NewCodec L rnd' typ key aad = Inr c'"
  using assms createEncryptKit_any [OF _ assms(2)] by (fastforce simp: NewCodec_def bind_result_Inr_iff split: if_splits)

definition signaling_linked :: "signaling_channel \<Rightarrow> signaling_channel \<Rightarrow> bool" where
  "signaling_linked c d \<longleftrightarrow> (\<exists>e e'. sc_sendCodec c = Some e \<and> sc_receiveCodec d = Some e' \<and> codec_match e e')"

lemma client_data_channel:
  assumes "NewDataChannel L rnd1 rnd2 typ key aad DataRoleServer = Inr d" and "random_ok rnd3" "random_ok rnd4"
  shows "\<exists>c. NewDataChannel L rnd3 rnd4 typ key aad DataRoleClient = Inr c"
proof -
  obtain k1 k2 e1 e2 where k: "deriveDataKey L key dataServerToClient = Inr k1" "deriveDataKey L key dataClientToServer = Inr k2"
    and e: "NewCodec L rnd1 typ k1 aad = Inr e1" "NewCodec L rnd2 typ k2 aad = Inr e2"
    using assms(1) by (auto simp: NewDataChannel_def bind_result_Inr_iff channel_consts)
  obtain c1 c2 where "NewCodec L rnd3 typ k2 aad = Inr c1" "NewCodec L rnd4 typ k1 aad = Inr c2"
    using NewCodec_any [OF e(2) assms(2)] NewCodec_any [OF e(1) assms(3)] by blast
  with k show ?thesis by (simp add: NewDataChannel_def)
qed

lemma client_signaling_channel:
  assumes L: "lib_ok L" and d: "NewSignalingChannel L rnd1 rnd2 typ key aad DataRoleServer = Inr d" and r: "random_ok rnd3" "random_ok rnd4"
  shows "\<exists>c. NewSignalingChannel L rnd3 rnd4 typ key aad DataRoleClient = Inr c \<and> sc_sessionKey c = sc_sessionKey d \<and>
    signaling_linked c d \<and> signaling_linked d c"
proof -
  obtain k1 k2 e1 e2 where k: "deriveSignalingKey L key signalingServerToClient = Inr k1" "deriveSignalingKey L key signalingClientToServer = Inr k2"
    and e: "NewCodec L rnd1 typ k1 aad = Inr e1" "NewCodec L rnd2 typ k2 aad = Inr e2"
    and d': "d = \<lparr>sc_sendCodec = Some e1, sc_receiveCodec = Some e2, sc_sessionKey = key\<rparr>"
    using d by (auto simp: NewSignalingChannel_def bind_result_Inr_iff channel_consts)
  obtain c1 c2 where c: "NewCodec L rnd3 typ k2 aad = Inr c1" "NewCodec L rnd4 typ k1 aad = Inr c2"
    using NewCodec_any [OF e(2) r(1)] NewCodec_any [OF e(1) r(2)] by blast
  have "NewSignalingChannel L rnd3 rnd4 typ key aad DataRoleClient = Inr \<lparr>sc_sendCodec = Some c1, sc_receiveCodec = Some c2, sc_sessionKey = key\<rparr>"
    using k c by (simp add: NewSignalingChannel_def)
  then show ?thesis
    using NewCodec_match [OF L c(1) e(2)] NewCodec_match [OF L e(1) c(2)] by (simp add: d' signaling_linked_def)
qed

section \<open>The hello as the server reads it\<close>

lemma plain_header:
  assumes d: "Codec_DecodeMessage G r data = Inr m" and e: "\<not> msg_Encrypt m"
  shows "Codec_DecodeMessageHeader G e data = Inr (the (msg_Header m))"
proof -
  obtain chunks hb h p where c: "decodeChunks G data = Inr chunks" "decodeHeaderBytes r chunks = Inr hb" "Header_Unmarshal G hb = Inr h"
    and m: "m = \<lparr>msg_Header = Some h, msg_Payload = Some p, msg_Encrypt = (chunks ! 2 ! 0 = ENCRYPT_GLOBALLY)\<rparr>"
    using d unfolding Codec_DecodeMessage_def bind_result_Inr_iff by blast
  have "decodeHeaderBytes e chunks = Inr hb" using e c(2) by (simp add: m decodeHeaderBytes_def)
  with c show ?thesis by (simp add: Codec_DecodeMessageHeader_def m)
qed

text \<open>A complete message that one codec encoded in the clear is read by every codec of the same key, its header by any codec.\<close>

lemma exchanged:
  assumes "lib_ok (hl_L W)" and "NewCodec (hl_L W) rnd typ key aad = Inr c" and "NewCodec (hl_L W) rnd' typ key aad = Inr c'"
    and e: "fst (Codec_EncodeMessage (hl_G W) c (Some m)) = Inr data"
    and m: "msg_Header m = Some h" "msg_Payload m = Some p" "\<not> msg_Encrypt m" and g: "gob_carries W m"
    and len: "int (length data) \<le> maxSignalingPacketSize"
  shows "Codec_DecodeMessage (hl_G W) c' data = Inr m" and "Codec_DecodeMessageHeader (hl_G W) zero_codec data = Inr h"
proof -
  have f: "filled m = m" using m(1,2) by (simp add: filled_def)
  obtain c2 where e': "Codec_EncodeMessage (hl_G W) c (Some m) = (Inr data, c2)" using e by (metis prod.collapse)
  show d: "Codec_DecodeMessage (hl_G W) c' data = Inr m"
    using DecodeMessage_EncodeMessage(1) [OF NewCodec_match [OF assms(1-3)] e' _ len] g by (simp add: f gob_carries_def)
  from plain_header [OF d m(3)] show "Codec_DecodeMessageHeader (hl_G W) zero_codec data = Inr h" by (simp add: m(1))
qed

lemma attempt_parts:
  assumes "buildClientHello W psk roomId options rand now = Inr attempt"
  obtains serverID k c where "ServerIDFromPublicKey (hl_C W) (psk_ServerPublicKey psk) = Inr serverID"
    "DeriveClientHelloKey (hl_C W) (psk_Key psk) roomId (psk_ClientID psk) serverID (ch_nonce attempt) = Inr k"
    "NewCodec (hl_L W) (rand 2) (co_EncryptionType options) k (co_EncryptionAAD options) = Inr c"
    "fst (Codec_EncodeMessage (hl_G W) c (Some (clientHelloMessage W psk roomId (ch_nonce attempt) (ch_publicKey attempt) now))) = Inr (ch_message attempt)"
    "ch_publicKey attempt = hl_PublicKey W (ch_privateKey attempt)"
  using assms by (auto simp: buildClientHello_def bind_result_Inr_iff Let_def)

lemma openClientHello_Inr:
  assumes "openClientHello W rnd s header key data = Inr (p, pub)"
  obtains k c msg where
    "DeriveClientHelloKey (hl_C W) key (api_RoomId (sv_api s)) (hd_SourceId header) (sv_serverId s) (hd_HandshakeNonce header) = Inr k"
    "NewCodec (hl_L W) rnd (so_EncryptionType (sv_options s)) k (so_EncryptionAAD (sv_options s)) = Inr c"
    "Codec_DecodeMessage (hl_G W) c data = Inr msg" "p = the (msg_Payload msg)"
    "pl_HandshakeRoomID p = api_RoomId (sv_api s)" "pl_HandshakeClientID p = hd_SourceId header"
    "hl_NewPublicKey W (pl_ClientEphemeralKey p) = Inr pub"
  using assms unfolding openClientHello_def Let_def bind_result_Inr_iff case_error_Inr_iff
  by (auto split: if_split_asm simp: case_error_Inr_iff)

lemma verifyClientHello_Inr:
  assumes "verifyClientHello W inp s header data = (Inr (key, p, pub), s')"
  obtains timestamp where "serverKey s (hd_SourceId header) = Inr key"
    "openClientHello W (hi_random inp 0) s header key data = Inr (p, pub)" "hd_HandshakeNonce header = pl_ClientNonce p"
    "length (pl_ClientNonce p) = HandshakeNonceSize" "hl_Parse W (pl_Timestamp p) = Some timestamp"
    "time_Sub (hi_now inp) timestamp \<le> so_ClockSkew (sv_options s)"
    "wrap64 (- so_ClockSkew (sv_options s)) \<le> time_Sub (hi_now inp) timestamp"
  using assms
  by (auto simp: verifyClientHello_def reject_def Let_def not_less split: if_split_asm sum.split_asm option.split_asm)

lemma createSession_Inr:
  assumes "createSession W rand s clientId key p pub = Inr conn"
  obtains k priv secret sessionKey d where
    "DeriveServerHelloKey (hl_C W) key (api_RoomId (sv_api s)) clientId (sv_serverId s) (pl_ClientNonce p) (cn_serverNonce conn) = Inr k"
    "NewCodec (hl_L W) (rand 3) (so_EncryptionType (sv_options s)) k (so_EncryptionAAD (sv_options s)) = Inr (cn_handshakeCodec conn)"
    "cn_serverEphemeralKey conn = hl_PublicKey W priv" "hl_ECDH W priv pub = Inr secret"
    "DeriveSessionKey (hl_C W) key secret (connContext s conn) = Inr sessionKey"
    "NewSignalingChannel (hl_L W) (rand 5) (rand 6) (so_EncryptionType (sv_options s)) sessionKey (so_EncryptionAAD (sv_options s)) DataRoleServer = Inr (cn_codec conn)"
    "NewDataChannel (hl_L W) (rand 7) (rand 8) (so_EncryptionType (sv_options s)) sessionKey (so_EncryptionAAD (sv_options s)) DataRoleServer = Inr d"
    "cn_dataChannel conn = Some d" "cn_sourceId conn = clientId" "cn_clientNonce conn = pl_ClientNonce p"
    "cn_clientEphemeralKey conn = pl_ClientEphemeralKey p"
  using assms unfolding createSession_def Let_def bind_result_Inr_iff case_error_Inr_iff
  by (auto simp: connContext_def)

lemma server_session:
  assumes W: "hello_lib_ok W" and cfg: "configured_alike W psk roomId options s" and t: "table_in_store s"
    and a: "buildClientHello W psk roomId options rand now = Inr attempt"
    and h: "handleClientHello W C inp s (ch_message attempt) = Some (Inr (Some (length (sv_heap s))), s')"
    and g: "gob_carries W (clientHelloMessage W psk roomId (ch_nonce attempt) (ch_publicKey attempt) now)"
    and len: "int (length (ch_message attempt)) \<le> maxSignalingPacketSize"
  obtains p where
    "createSession W (hi_random inp) s (psk_ClientID psk) (psk_Key psk) p (ch_publicKey attempt) = Inr (conn_at s' (length (sv_heap s)))"
    "pl_ClientNonce p = ch_nonce attempt" "pl_ClientEphemeralKey p = ch_publicKey attempt" "same_setup s s'"
proof -
  let ?m = "clientHelloMessage W psk roomId (ch_nonce attempt) (ch_publicKey attempt) now"
  from a obtain serverID k c where ap: "ServerIDFromPublicKey (hl_C W) (psk_ServerPublicKey psk) = Inr serverID"
    "DeriveClientHelloKey (hl_C W) (psk_Key psk) roomId (psk_ClientID psk) serverID (ch_nonce attempt) = Inr k"
    "NewCodec (hl_L W) (rand 2) (co_EncryptionType options) k (co_EncryptionAAD options) = Inr c"
    "fst (Codec_EncodeMessage (hl_G W) c (Some ?m)) = Inr (ch_message attempt)"
    "ch_publicKey attempt = hl_PublicKey W (ch_privateKey attempt)"
    by (rule attempt_parts)
  have L: "lib_ok (hl_L W)" and pub: "hl_NewPublicKey W (ch_publicKey attempt) = Inr (ch_publicKey attempt)"
    using W by (simp_all add: hello_lib_ok_def ap(5))
  have m: "msg_Header ?m = Some (the (msg_Header ?m))" "msg_Payload ?m = Some (the (msg_Payload ?m))" "\<not> msg_Encrypt ?m"
    by (simp_all add: clientHelloMessage_def)
  note x = exchanged [OF L ap(3) _ ap(4) m g len]
  have mf: "hd_SourceId (the (msg_Header ?m)) = psk_ClientID psk" "hd_HandshakeNonce (the (msg_Header ?m)) = ch_nonce attempt"
    "pl_ClientNonce (the (msg_Payload ?m)) = ch_nonce attempt" "pl_ClientEphemeralKey (the (msg_Payload ?m)) = ch_publicKey attempt"
    by (simp_all add: clientHelloMessage_def)
  from h t obtain header key pl pub' s1 conn where n: "Codec_DecodeMessageHeader (hl_G W) zero_codec (ch_message attempt) = Inr header"
    "verifyClientHello W inp s header (ch_message attempt) = (Inr (key, pl, pub'), s)"
    "createSession W (hi_random inp) s (hd_SourceId header) key pl pub' = Inr conn"
    "conn_at s' (length (sv_heap s)) = conn" "same_setup s s'"
    by (rule handleClientHello_new)
  from n(1) x(2) [OF ap(3)] have header: "header = the (msg_Header ?m)" by simp
  from n(2) have "serverKey s (hd_SourceId header) = Inr key" and o: "openClientHello W (hi_random inp 0) s header key (ch_message attempt) = Inr (pl, pub')"
    by (auto elim: verifyClientHello_Inr)
  with cfg have key: "key = psk_Key psk" by (simp add: configured_alike_def header mf)
  from o obtain k' c' msg where k': "DeriveClientHelloKey (hl_C W) key (api_RoomId (sv_api s)) (hd_SourceId header) (sv_serverId s) (hd_HandshakeNonce header) = Inr k'"
    "NewCodec (hl_L W) (hi_random inp 0) (so_EncryptionType (sv_options s)) k' (so_EncryptionAAD (sv_options s)) = Inr c'"
    "Codec_DecodeMessage (hl_G W) c' (ch_message attempt) = Inr msg" "pl = the (msg_Payload msg)"
    "hl_NewPublicKey W (pl_ClientEphemeralKey pl) = Inr pub'"
    by (rule openClientHello_Inr)
  have "k' = k" using k'(1) ap(1,2) cfg by (simp add: configured_alike_def header mf key)
  with k'(2) cfg have "NewCodec (hl_L W) (hi_random inp 0) (co_EncryptionType options) k (co_EncryptionAAD options) = Inr c'"
    by (simp add: configured_alike_def)
  from x(1) [OF this] k'(3,4) have pl: "pl = the (msg_Payload ?m)" by simp
  with k'(5) pub have "pub' = ch_publicKey attempt" by (simp add: mf)
  with n(3,4,5) pl show thesis by (intro that [of pl]) (simp_all add: header mf key)
qed

section \<open>The answer as the client reads it\<close>

lemma published_hello:
  assumes "sendServerHello W inp s (Some q) = (None, s')" and "sv_log s' = sv_log s @ [Publish MessageHello data]"
  obtains signature where "SignServerHello (hl_C W) (so_IdentityKey (sv_options s)) (connContext s (conn_at s q)) = Inr signature"
    "fst (Codec_EncodeMessage (hl_G W) (cn_handshakeCodec (conn_at s q)) (Some (serverHelloMessage s (conn_at s q) signature))) = Inr data"
  using assms by (auto simp: sendServerHello_def Let_def split: sum.split_asm prod.split_asm)

lemma signature_verifies:
  assumes W: "hello_lib_ok W" and s: "SignServerHello (hl_C W) key h = Inr signature" and l: "length (publicOf (hl_L W) key) = ed25519_PublicKeySize"
  shows "VerifyServerHello (hl_C W) (publicOf (hl_L W) key) h signature"
  using assms by (auto simp: SignServerHello_def VerifyServerHello_def hello_lib_ok_def bind_result_Inr_iff crypto_lib.defs split: if_split_asm)

lemma signed_context:
  assumes "SignServerHello L key h = Inr signature"
  shows "hc_serverID h \<noteq> []" "length (hc_serverNonce h) = HandshakeNonceSize" "length (hc_sessionSalt h) = HandshakeNonceSize"
  using assms by (auto simp: SignServerHello_def validateServerHelloTranscript_def bind_result_Inr_iff split: if_split_asm)

lemma client_accepts:
  assumes W: "hello_lib_ok W" and cfg: "configured_alike W psk roomId options s"
    and c: "createSession W rand s (psk_ClientID psk) (psk_Key psk) p pub = Inr conn"
    and p: "pl_ClientNonce p = ch_nonce attempt" "pl_ClientEphemeralKey p = ch_publicKey attempt"
    and sign: "SignServerHello (hl_C W) (so_IdentityKey (sv_options s)) (connContext s conn) = Inr signature"
    and e: "fst (Codec_EncodeMessage (hl_G W) (cn_handshakeCodec conn) (Some (serverHelloMessage s conn signature))) = Inr data"
    and g: "gob_carries W (serverHelloMessage s conn signature)" and len: "int (length data) \<le> maxSignalingPacketSize"
    and r: "random_ok rnd"
  shows "verifyServerHello W psk roomId options rnd data attempt = Inr (sv_serverId s, the (msg_Payload (serverHelloMessage s conn signature)))"
proof -
  let ?m = "serverHelloMessage s conn signature" and ?L = "hl_L W"
  from c obtain k where k:
    "DeriveServerHelloKey (hl_C W) (psk_Key psk) (api_RoomId (sv_api s)) (psk_ClientID psk) (sv_serverId s) (pl_ClientNonce p) (cn_serverNonce conn) = Inr k"
    "NewCodec ?L (rand 3) (so_EncryptionType (sv_options s)) k (so_EncryptionAAD (sv_options s)) = Inr (cn_handshakeCodec conn)"
    and f: "cn_sourceId conn = psk_ClientID psk" "cn_clientNonce conn = pl_ClientNonce p" "cn_clientEphemeralKey conn = pl_ClientEphemeralKey p"
    by (auto elim: createSession_Inr)
  have L: "lib_ok ?L" using W by (simp add: hello_lib_ok_def)
  obtain c' where c': "NewCodec ?L rnd (so_EncryptionType (sv_options s)) k (so_EncryptionAAD (sv_options s)) = Inr c'"
    using NewCodec_any [OF k(2) r] by blast
  have m: "msg_Header ?m = Some (the (msg_Header ?m))" "msg_Payload ?m = Some (the (msg_Payload ?m))" "\<not> msg_Encrypt ?m"
    by (simp_all add: serverHelloMessage_def)
  note x = exchanged [OF L k(2) c' e m g len]
  have id: "ServerIDFromPublicKey (hl_C W) (psk_ServerPublicKey psk) = Inr (sv_serverId s)"
    and pk: "psk_ServerPublicKey psk = publicOf ?L (so_IdentityKey (sv_options s))"
    using cfg unfolding configured_alike_def by blast+
  then have "length (publicOf ?L (so_IdentityKey (sv_options s))) = ed25519_PublicKeySize"
    by (auto simp: ServerIDFromPublicKey_def split: if_split_asm)
  from signature_verifies [OF W sign this] have v: "VerifyServerHello (hl_C W) (psk_ServerPublicKey psk) (connContext s conn) signature"
    by (simp add: pk)
  have ctx: "clientHelloContext psk roomId (sv_serverId s) (the (msg_Payload ?m)) = connContext s conn"
    using cfg by (simp add: clientHelloContext_def connContext_def serverHelloMessage_def f configured_alike_def)
  show ?thesis
    using x k(1) c' id cfg v ctx p signed_context [OF sign] unfolding verifyServerHello_def
    by (simp add: configured_alike_def serverHelloMessage_def f connContext_def)
qed

text \<open>What the two ends of a session have in common after the handshake.\<close>

definition session_shared :: "server_handshake \<Rightarrow> 'c server \<Rightarrow> nat \<Rightarrow> bool" where
  "session_shared hs s q \<longleftrightarrow>
     sh_serverID hs = sv_serverId s \<and> sh_transports hs = transportNames (so_Transports (sv_options s)) \<and>
     sc_sessionKey (sh_codec hs) = sc_sessionKey (cn_codec (conn_at s q)) \<and>
     signaling_linked (sh_codec hs) (cn_codec (conn_at s q)) \<and> signaling_linked (cn_codec (conn_at s q)) (sh_codec hs) \<and>
     (\<exists>d. cn_dataChannel (conn_at s q) = Some d \<and> delivers (sh_dataChannel hs) d \<and> delivers d (sh_dataChannel hs))"

lemma client_session:
  assumes W: "hello_lib_ok W" and cfg: "configured_alike W psk roomId options s" and pub: "ch_publicKey attempt = hl_PublicKey W (ch_privateKey attempt)"
    and c: "createSession W rand s (psk_ClientID psk) (psk_Key psk) pl (ch_publicKey attempt) = Inr conn"
    and pl: "pl_ClientNonce pl = ch_nonce attempt" "pl_ClientEphemeralKey pl = ch_publicKey attempt"
    and v: "verifyServerHello W psk roomId options (rand' 0) data attempt = Inr (sv_serverId s, the (msg_Payload (serverHelloMessage s conn signature)))"
    and r: "\<forall>i. random_ok (rand' i)" and conn: "conn_at s' q = conn" "same_setup s s'"
  shows "\<exists>hs. handleServerHello W psk roomId options rand' data attempt = Inr hs \<and> session_shared hs s' q"
proof -
  let ?L = "hl_L W"
  from c obtain priv secret sessionKey d where d: "cn_serverEphemeralKey conn = hl_PublicKey W priv"
    "hl_ECDH W priv (ch_publicKey attempt) = Inr secret"
    "DeriveSessionKey (hl_C W) (psk_Key psk) secret (connContext s conn) = Inr sessionKey"
    "NewSignalingChannel ?L (rand 5) (rand 6) (so_EncryptionType (sv_options s)) sessionKey (so_EncryptionAAD (sv_options s)) DataRoleServer = Inr (cn_codec conn)"
    "NewDataChannel ?L (rand 7) (rand 8) (so_EncryptionType (sv_options s)) sessionKey (so_EncryptionAAD (sv_options s)) DataRoleServer = Inr d"
    "cn_dataChannel conn = Some d" "cn_sourceId conn = psk_ClientID psk" "cn_clientNonce conn = pl_ClientNonce pl"
    "cn_clientEphemeralKey conn = pl_ClientEphemeralKey pl"
    by (rule createSession_Inr)
  have L: "lib_ok ?L" using W by (simp add: hello_lib_ok_def)
  have secret: "hl_ECDH W (ch_privateKey attempt) (hl_PublicKey W priv) = Inr secret"
    using W d(2) unfolding hello_lib_ok_def pub by metis
  obtain sc where sc: "NewSignalingChannel ?L (rand' 1) (rand' 2) (so_EncryptionType (sv_options s)) sessionKey (so_EncryptionAAD (sv_options s)) DataRoleClient = Inr sc"
    "sc_sessionKey sc = sc_sessionKey (cn_codec conn)" "signaling_linked sc (cn_codec conn)" "signaling_linked (cn_codec conn) sc"
    using client_signaling_channel [OF L d(4), of "rand' 1" "rand' 2"] r by blast
  obtain dc where dc: "NewDataChannel ?L (rand' 3) (rand' 4) (so_EncryptionType (sv_options s)) sessionKey (so_EncryptionAAD (sv_options s)) DataRoleClient = Inr dc"
    using client_data_channel [OF d(5), of "rand' 3" "rand' 4"] r by blast
  have "data_linked dc d" "data_linked d dc"
    by (rule NewDataChannel_match [OF L _ dc d(5)] NewDataChannel_match [OF L _ d(5) dc], simp add: opposite_def)+
  moreover have "hl_NewPublicKey W (hl_PublicKey W priv) = Inr (hl_PublicKey W priv)" using W by (simp add: hello_lib_ok_def)
  ultimately show ?thesis
    using v secret sc dc d pl cfg conn
    by (auto simp: handleServerHello_def serverHelloMessage_def clientHelloContext_def connContext_def configured_alike_def linked_delivers
        session_shared_def same_setup_def)
qed

section \<open>An honest hello is answered\<close>

text \<open>
  The libraries do not fail on proper inputs: HKDF gives 32 bytes, the configured cipher accepts its keys and
  has room for a nonce counter, X25519 generates keys and agrees on a secret of 32 bytes, gob encodes.
\<close>

definition hello_lib_total :: "hello_lib \<Rightarrow> string \<Rightarrow> bool" where
  "hello_lib_total W typ \<longleftrightarrow>
     typ \<in> {AES_256_GCM, ASCON_128A, CAMELLIA_256, CHACHA20_POLY1305, XCHACHA20_POLY1305} \<and>
     (\<forall>key. \<exists>A. aead_for (hl_L W) typ key = Inr A \<and> nonceCounterSize < NonceSize A) \<and>
     (\<forall>ikm salt info. \<exists>k. hkdf256 (hl_L W) ikm salt info 32 = Inr k \<and> length k = 32) \<and>
     (\<forall>rnd. random_ok rnd \<longrightarrow> (\<exists>k. hl_GenerateKey W rnd = Inr k)) \<and> (\<forall>a. length (hl_PublicKey W a) = 32) \<and>
     (\<forall>a b. \<exists>z. hl_ECDH W a (hl_PublicKey W b) = Inr z \<and> length z = 32) \<and>
     (\<forall>p. Payload_Marshal (hl_G W) p \<noteq> []) \<and> (\<forall>cs. \<exists>d. Chunks_Encode (hl_G W) cs = Inr d)"

lemma withNonceSource_total: "nonceCounterSize < NonceSize A \<Longrightarrow> random_ok rnd \<Longrightarrow> \<exists>i. withNonceSource rnd A = Inr i"
  by (auto simp: withNonceSource_def newNonceSource_def random_ok_def bind_result_Inr_iff)

lemma createEncryptKit_total:
  assumes "typ \<in> {AES_256_GCM, ASCON_128A, CAMELLIA_256, CHACHA20_POLY1305, XCHACHA20_POLY1305}"
    and A: "aead_for L typ key = Inr A" and n: "\<exists>i. withNonceSource rnd A = Inr i"
  shows "\<exists>kit. createEncryptKit L rnd typ key = Inr kit"
proof -
  obtain i where i: "withNonceSource rnd A = Inr i" using n by blast
  have "typ = AES_256_GCM \<or> typ = ASCON_128A \<or> typ = CAMELLIA_256 \<or> typ = CHACHA20_POLY1305 \<or> typ = XCHACHA20_POLY1305" using assms(1) by blast
  then show ?thesis
    using A i unfolding createEncryptKit_def aead_for_def NewAES256GCM_def NewAscon128a_def NewCamellia256GCM_def NewChaCha20Poly1305_def
      NewXChaCha20Poly1305_def Let_def
    by (elim disjE) (auto simp: bind_result_Inr_iff split: if_split_asm)
qed

lemma NewCodec_total:
  assumes "hello_lib_total W typ" and "random_ok rnd" and "length aad \<le> 64"
  shows "\<exists>c. NewCodec (hl_L W) rnd typ key aad = Inr c"
proof -
  obtain A where A: "aead_for (hl_L W) typ key = Inr A" "nonceCounterSize < NonceSize A"
    using assms(1) unfolding hello_lib_total_def by blast
  have "\<exists>kit. createEncryptKit (hl_L W) rnd typ key = Inr kit"
    by (rule createEncryptKit_total [OF _ A(1) withNonceSource_total [OF A(2) assms(2)]]) (use assms(1) in \<open>simp add: hello_lib_total_def\<close>)
  with assms(3) show ?thesis by (auto simp: NewCodec_def)
qed

lemma createEncryptKit_nonce:
  assumes "createEncryptKit L rnd typ key = Inr kit"
  shows "\<exists>A. withNonceSource rnd A = Inr (kit_impl kit)"
  using assms unfolding createEncryptKit_def NewAES256GCM_def NewAscon128a_def NewCamellia256GCM_def NewChaCha20Poly1305_def
    NewXChaCha20Poly1305_def Let_def
  by (auto simp: bind_result_Inr_iff split: if_split_asm)

lemma fresh_codec_encodes:
  assumes c: "NewCodec L rnd typ key aad = Inr c" and r: "random_ok rnd"
    and m: "msg_Payload m = Some p" "\<not> msg_Encrypt m" "Payload_Marshal G p \<noteq> []" and g: "\<forall>cs. \<exists>d. Chunks_Encode G cs = Inr d"
  shows "\<exists>data c'. Codec_EncodeMessage G c (Some m) = (Inr data, c')"
proof -
  obtain kit where kit: "createEncryptKit L rnd typ key = Inr kit" "cd_encryptionKit c = Some kit"
    using c by (auto simp: NewCodec_def bind_result_Inr_iff split: if_split_asm)
  obtain A where A: "withNonceSource rnd A = Inr (kit_impl kit)" using createEncryptKit_nonce [OF kit(1)] by blast
  obtain b where b: "rnd (NonceSize A - nonceCounterSize) = Inr b" "length b = NonceSize A - nonceCounterSize" using r unfolding random_ok_def by blast
  from A b(1) have i: "kit_impl kit = \<lparr>impl_aead = A, impl_nonce = \<lparr>ns_prefix = b, ns_counter = 0\<rparr>\<rparr>" "nonceCounterSize < NonceSize A"
    by (auto simp: withNonceSource_def newNonceSource_def bind_result_Inr_iff split: if_split_asm)
  have "\<exists>out c'. encodeWithEncryption c (Payload_Marshal G p) domain ctx = (Inr out, c')" for domain ctx
    using m(3) kit(2) i b(2) by (simp add: encodeWithEncryption_def IEncryption_Encrypt_eq impl_Encrypt_def nonceSource_next_def)
  then obtain out c' where "encodeWithEncryption c (Payload_Marshal G p) aadDomainPayload
      (Header_Marshal G (case msg_Header m of None \<Rightarrow> zero_header | Some h \<Rightarrow> h)) = (Inr out, c')" by blast
  with m(1,2) g show ?thesis by (simp add: Codec_EncodeMessage_def Let_def)
qed

lemma derive_total:
  assumes "hello_lib_total W typ"
  shows "key \<noteq> [] \<Longrightarrow> direction = dataClientToServer \<or> direction = dataServerToClient \<Longrightarrow> \<exists>k. deriveDataKey (hl_L W) key direction = Inr k"
    and "key \<noteq> [] \<Longrightarrow> direction = signalingClientToServer \<or> direction = signalingServerToClient \<Longrightarrow> \<exists>k. deriveSignalingKey (hl_L W) key direction = Inr k"
proof -
  have h: "\<exists>k. hkdf256 (hl_L W) ikm salt info 32 = Inr k" for ikm salt info using assms unfolding hello_lib_total_def by blast
  show "key \<noteq> [] \<Longrightarrow> direction = dataClientToServer \<or> direction = dataServerToClient \<Longrightarrow> \<exists>k. deriveDataKey (hl_L W) key direction = Inr k"
    using h [of key "[]" "dataKeyInfo direction"] by (auto simp: deriveDataKey_def)
  show "key \<noteq> [] \<Longrightarrow> direction = signalingClientToServer \<or> direction = signalingServerToClient \<Longrightarrow> \<exists>k. deriveSignalingKey (hl_L W) key direction = Inr k"
    using h [of key "[]" "signalingKeyInfo direction"] by (auto simp: deriveSignalingKey_def HandshakeKeySize_def)
qed

lemma deriveHandshakeKey_total:
  assumes "hello_lib_total W typ"
  shows "\<exists>k. deriveHandshakeKey (hl_C W) masterKey salt info = Inr k"
proof -
  obtain k where "hkdf256 (hl_L W) masterKey salt info 32 = Inr k" using assms unfolding hello_lib_total_def by blast
  then show ?thesis by (simp add: deriveHandshakeKey_def HandshakeKeySize_def crypto_lib.defs)
qed

lemma channels_total:
  assumes t: "hello_lib_total W typ" and r: "\<forall>i. random_ok (rand i)" and aad: "length aad \<le> 64" and key: "key \<noteq> []"
  shows "\<exists>c. NewSignalingChannel (hl_L W) (rand i) (rand j) typ key aad DataRoleServer = Inr c"
    and "\<exists>c. NewDataChannel (hl_L W) (rand i) (rand j) typ key aad DataRoleServer = Inr c"
proof -
  have n: "\<exists>c. NewCodec (hl_L W) (rand i) typ k aad = Inr c" for i k using NewCodec_total [OF t] r aad by blast
  obtain k1 k2 where "deriveSignalingKey (hl_L W) key signalingServerToClient = Inr k1" "deriveSignalingKey (hl_L W) key signalingClientToServer = Inr k2"
    using derive_total(2) [OF t key] by blast
  then show "\<exists>c. NewSignalingChannel (hl_L W) (rand i) (rand j) typ key aad DataRoleServer = Inr c"
    using n [of i k1] n [of j k2] by (auto simp: NewSignalingChannel_def channel_consts)
  obtain k1 k2 where "deriveDataKey (hl_L W) key dataServerToClient = Inr k1" "deriveDataKey (hl_L W) key dataClientToServer = Inr k2"
    using derive_total(1) [OF t key] by blast
  then show "\<exists>c. NewDataChannel (hl_L W) (rand i) (rand j) typ key aad DataRoleServer = Inr c"
    using n [of i k1] n [of j k2] by (auto simp: NewDataChannel_def channel_consts)
qed

lemma createSession_total:
  assumes t: "hello_lib_total W (so_EncryptionType (sv_options s))" and r: "\<forall>i. random_ok (rand i)" and aad: "length (so_EncryptionAAD (sv_options s)) \<le> 64"
    and v: "validateHandshakeKeyContext key (api_RoomId (sv_api s)) clientId (sv_serverId s) (pl_ClientNonce p) = Inr ()"
    and p: "pl_ClientEphemeralKey p = hl_PublicKey W a"
  shows "\<exists>conn. createSession W rand s clientId key p (hl_PublicKey W a) = Inr conn"
proof -
  let ?L = "hl_L W" and ?ty = "so_EncryptionType (sv_options s)" and ?aad = "so_EncryptionAAD (sv_options s)"
  note total = t [unfolded hello_lib_total_def]
  obtain salt where salt: "createRandomHandshakeValue (rand 1) = Inr salt" "length salt = HandshakeNonceSize"
    using r unfolding createRandomHandshakeValue_def random_ok_def by blast
  obtain nonce where nonce: "createRandomHandshakeValue (rand 2) = Inr nonce" "length nonce = HandshakeNonceSize"
    using r unfolding createRandomHandshakeValue_def random_ok_def by blast
  obtain priv where priv: "hl_GenerateKey W (rand 4) = Inr priv" using total r by blast
  obtain z where z: "hl_ECDH W priv (hl_PublicKey W a) = Inr z" "length z = 32" using total by blast
  have len: "length (hl_PublicKey W x) = 32" for x using total by blast
  have hk: "\<exists>k. hkdf256 ?L ikm salt info 32 = Inr k \<and> length k = 32" for ikm salt info using total by blast
  have vc: "ValidateClientCredentials clientId key = Inr ()" "api_RoomId (sv_api s) \<noteq> []" "sv_serverId s \<noteq> []" "length (pl_ClientNonce p) = HandshakeNonceSize"
    using v by (auto simp: validateHandshakeKeyContext_def bind_result_Inr_iff split: if_split_asm)
  obtain k where k: "DeriveServerHelloKey (hl_C W) key (api_RoomId (sv_api s)) clientId (sv_serverId s) (pl_ClientNonce p) nonce = Inr k"
    using v nonce(2) deriveHandshakeKey_total [OF t] by (force simp: DeriveServerHelloKey_def)
  let ?h = "\<lparr>hc_roomID = api_RoomId (sv_api s), hc_clientID = clientId, hc_serverID = sv_serverId s, hc_clientNonce = pl_ClientNonce p,
        hc_serverNonce = nonce, hc_clientEphemeralKey = pl_ClientEphemeralKey p, hc_serverEphemeralKey = hl_PublicKey W priv, hc_sessionSalt = salt\<rparr>"
  obtain sk where sk: "DeriveSessionKey (hl_C W) key z ?h = Inr sk" "length sk = 32"
    using vc salt nonce z(2) len p hk [of "encodeHandshakeFields [key, z]" salt "sessionKeyInfo ?h"]
    by (auto simp: DeriveSessionKey_def HandshakeKeySize_def crypto_lib.defs)
  then have "sk \<noteq> []" by auto
  with channels_total [OF t r aad, of sk 5 6] channels_total [OF t r aad, of sk 7 8] obtain sc dc where
    "NewSignalingChannel ?L (rand 5) (rand 6) ?ty sk ?aad DataRoleServer = Inr sc" "NewDataChannel ?L (rand 7) (rand 8) ?ty sk ?aad DataRoleServer = Inr dc" by blast
  moreover obtain c where "NewCodec ?L (rand 3) ?ty k ?aad = Inr c" using NewCodec_total [OF t _ aad] r by blast
  ultimately show ?thesis using salt nonce priv z k sk by (simp add: createSession_def Let_def)
qed

text \<open>
  The server is open, knows no session and no nonce of the client yet, has capacity, admits the client
  and reads a clock that differs from the client's by at most the skew; its identity key is a proper one.
\<close>

definition hello_welcome :: "hello_lib \<Rightarrow> 'c lru_lib \<Rightarrow> hello_inputs \<Rightarrow> 'c server \<Rightarrow> string \<Rightarrow> bytes \<Rightarrow> int \<Rightarrow> bool" where
  "hello_welcome W C inp s clientId nonce now \<longleftrightarrow>
     hi_allow inp \<and> hi_join inp \<and> hi_publish inp = None \<and> (\<forall>i. random_ok (hi_random inp i)) \<and> \<not> sv_closeCh s \<and>
     sv_connections s clientId = None \<and> fst (lru_Get C (sv_nonceCache s) nonce) = None \<and>
     sv_totalConnections s < so_MaxConnections (sv_options s) \<and> sv_pendingHandshakes s < so_MaxPendingHandshakes (sv_options s) \<and>
     hl_Parse W (hl_Format W now) = Some now \<and> \<bar>hi_now inp - now\<bar> \<le> so_ClockSkew (sv_options s) \<and> so_ClockSkew (sv_options s) < 2 ^ 63 \<and>
     length (so_IdentityKey (sv_options s)) = ed25519_PrivateKeySize \<and>
     keyFromSeed (hl_L W) (take ed25519_SeedSize (so_IdentityKey (sv_options s))) = so_IdentityKey (sv_options s)"

lemma within_skew:
  assumes "\<bar>a - b\<bar> \<le> skew" "skew < 2 ^ 63"
  shows "\<not> (time_Sub a b > skew \<or> time_Sub a b < wrap64 (- skew))"
proof -
  have "time_Sub a b = a - b" using assms by (auto simp: time_Sub_def)
  moreover have "wrap64 (- skew) = - skew" using assms by (intro wrap64_id) auto
  ultimately show ?thesis using assms by auto
qed

lemma server_opens_hello:
  assumes W: "hello_lib_ok W" and t: "hello_lib_total W (so_EncryptionType (sv_options s))" and cfg: "configured_alike W psk roomId options s"
    and a: "buildClientHello W psk roomId options rand now = Inr attempt" and r: "random_ok rnd"
    and mm: "mm = clientHelloMessage W psk roomId (ch_nonce attempt) (ch_publicKey attempt) now" and g: "gob_carries W mm"
    and len: "int (length (ch_message attempt)) \<le> maxSignalingPacketSize"
  shows "Codec_DecodeMessageHeader (hl_G W) zero_codec (ch_message attempt) = Inr (the (msg_Header mm))"
    and "openClientHello W rnd s (the (msg_Header mm)) (psk_Key psk) (ch_message attempt) = Inr (the (msg_Payload mm), ch_publicKey attempt)"
    and "validateHandshakeKeyContext (psk_Key psk) roomId (psk_ClientID psk) (sv_serverId s) (ch_nonce attempt) = Inr ()"
    and "length (so_EncryptionAAD (sv_options s)) \<le> 64" and "ch_publicKey attempt = hl_PublicKey W (ch_privateKey attempt)"
proof -
  from a [THEN attempt_parts] obtain serverID k c where ap: "ServerIDFromPublicKey (hl_C W) (psk_ServerPublicKey psk) = Inr serverID"
    "DeriveClientHelloKey (hl_C W) (psk_Key psk) roomId (psk_ClientID psk) serverID (ch_nonce attempt) = Inr k"
    "NewCodec (hl_L W) (rand 2) (co_EncryptionType options) k (co_EncryptionAAD options) = Inr c"
    "fst (Codec_EncodeMessage (hl_G W) c (Some mm)) = Inr (ch_message attempt)"
    "ch_publicKey attempt = hl_PublicKey W (ch_privateKey attempt)"
    unfolding mm by blast
  have m: "msg_Header mm = Some (the (msg_Header mm))" "msg_Payload mm = Some (the (msg_Payload mm))" "\<not> msg_Encrypt mm"
    by (simp_all add: mm clientHelloMessage_def)
  have L: "lib_ok (hl_L W)" and pub: "hl_NewPublicKey W (ch_publicKey attempt) = Inr (ch_publicKey attempt)"
    using W by (simp_all add: hello_lib_ok_def ap(5))
  have eq: "co_EncryptionType options = so_EncryptionType (sv_options s)" "co_EncryptionAAD options = so_EncryptionAAD (sv_options s)"
    "api_RoomId (sv_api s) = roomId" and sid: "serverID = sv_serverId s"
    using cfg ap(1) by (auto simp: configured_alike_def)
  show aad: "length (so_EncryptionAAD (sv_options s)) \<le> 64" using ap(3) by (auto simp: NewCodec_def eq split: if_split_asm)
  obtain c' where c': "NewCodec (hl_L W) rnd (co_EncryptionType options) k (co_EncryptionAAD options) = Inr c'"
    using NewCodec_total [OF t r aad] by (auto simp: eq)
  note x = exchanged [OF L ap(3) c' ap(4) m g len]
  show "Codec_DecodeMessageHeader (hl_G W) zero_codec (ch_message attempt) = Inr (the (msg_Header mm))" by (rule x(2))
  show v: "validateHandshakeKeyContext (psk_Key psk) roomId (psk_ClientID psk) (sv_serverId s) (ch_nonce attempt) = Inr ()"
    using ap(2) by (auto simp: DeriveClientHelloKey_def bind_result_Inr_iff sid)
  then have "ValidateClientCredentials (psk_ClientID psk) (psk_Key psk) = Inr ()" by (auto simp: validateHandshakeKeyContext_def bind_result_Inr_iff)
  with ap(2) c' x(1) pub show "openClientHello W rnd s (the (msg_Header mm)) (psk_Key psk) (ch_message attempt) = Inr (the (msg_Payload mm), ch_publicKey attempt)"
    by (simp add: openClientHello_def eq sid) (simp add: mm clientHelloMessage_def sid [symmetric] eq)
  show "ch_publicKey attempt = hl_PublicKey W (ch_privateKey attempt)" by (rule ap(5))
qed

lemma honest_hello_accepted:
  assumes W: "hello_lib_ok W" and t: "hello_lib_total W (so_EncryptionType (sv_options s))" and cfg: "configured_alike W psk roomId options s"
    and a: "buildClientHello W psk roomId options rand now = Inr attempt"
    and mm: "mm = clientHelloMessage W psk roomId (ch_nonce attempt) (ch_publicKey attempt) now" and g: "gob_carries W mm"
    and len: "int (length (ch_message attempt)) \<le> maxSignalingPacketSize"
    and w: "hello_welcome W C inp s (psk_ClientID psk) (ch_nonce attempt) now"
  obtains s' where "handleClientHello W C inp s (ch_message attempt) = Some (Inr (Some (length (sv_heap s))), s')"
    "createSession W (hi_random inp) s (psk_ClientID psk) (psk_Key psk) (the (msg_Payload mm)) (ch_publicKey attempt) = Inr (conn_at s' (length (sv_heap s)))"
    "same_setup s s'" "\<not> sv_closeCh s'" "\<not> cn_closed (conn_at s' (length (sv_heap s)))" "\<not> cn_handshakeTimer (conn_at s' (length (sv_heap s)))" "length (sv_heap s') = Suc (length (sv_heap s))"
    "sv_log s' = sv_log s" "sv_connections s' = sv_connections s"
proof -
  let ?h = "the (msg_Header mm)" and ?p = "the (msg_Payload mm)" and ?q = "length (sv_heap s)"
  have r: "\<forall>i. random_ok (hi_random inp i)" using w by (simp add: hello_welcome_def)
  note o = server_opens_hello [OF W t cfg a r [rule_format, of 0] mm g len]
  have mf: "hd_SourceId ?h = psk_ClientID psk" "hd_TargetId ?h = []" "hd_Type ?h = ClientHello" "hd_HandshakeNonce ?h = ch_nonce attempt"
    "pl_ClientNonce ?p = ch_nonce attempt" "pl_ClientEphemeralKey ?p = ch_publicKey attempt" "pl_Timestamp ?p = hl_Format W now"
    by (simp_all add: mm clientHelloMessage_def zero_header_def)
  have vc: "isClientIdValid (psk_ClientID psk)" "length (ch_nonce attempt) = HandshakeNonceSize"
    using o(3) by (auto simp: validateHandshakeKeyContext_def ValidateClientCredentials_def bind_result_Inr_iff isClientIdValid_def split: if_split_asm)
  have cf: "serverKey s (psk_ClientID psk) = Inr (psk_Key psk)" "api_RoomId (sv_api s) = roomId" using cfg by (simp_all add: configured_alike_def)
  have v: "verifyClientHello W inp s ?h (ch_message attempt) = (Inr (psk_Key psk, ?p, ch_publicKey attempt), s)"
    using vc cf o(2) w within_skew [of "hi_now inp" now "so_ClockSkew (sv_options s)"]
    by (simp add: verifyClientHello_def mf hello_welcome_def Let_def)
  obtain cache where n: "isNonceAvailable C inp s (ch_nonce attempt) = (True, s\<lparr>sv_nonceCache := cache\<rparr>)"
    using w by (cases "lru_Get C (sv_nonceCache s) (ch_nonce attempt)") (auto simp: isNonceAvailable_def hello_welcome_def Let_def)
  let ?s2 = "s\<lparr>sv_nonceCache := cache, sv_totalConnections := sv_totalConnections s + 1, sv_pendingHandshakes := sv_pendingHandshakes s + 1\<rparr>"
  have res: "reserveConnection (s\<lparr>sv_nonceCache := cache\<rparr>) = (True, ?s2)" using w by (simp add: reserveConnection_def hello_welcome_def)
  have ss: "same_setup s ?s2" by (simp add: same_setup_def)
  have key: "validateHandshakeKeyContext (psk_Key psk) (api_RoomId (sv_api s)) (psk_ClientID psk) (sv_serverId s) (pl_ClientNonce ?p) = Inr ()"
    using o(3) by (simp add: mf cf)
  obtain conn where c: "createSession W (hi_random inp) s (psk_ClientID psk) (psk_Key psk) ?p (ch_publicKey attempt) = Inr conn"
    using createSession_total [OF t r o(4) key] o(5) mf(6) by metis
  have closed: "\<not> cn_closed conn" "\<not> cn_handshakeTimer conn"
    using c unfolding createSession_def Let_def bind_result_Inr_iff case_error_Inr_iff by auto
  have "handleClientHello W C inp s (ch_message attempt) = Some (Inr (Some ?q), ?s2\<lparr>sv_heap := sv_heap s @ [conn]\<rparr>)"
    using o(1) v n res c w createSession_setup [OF ss, of W "hi_random inp"]
    by (simp add: handleClientHello_def mf prepareClientHello_def hello_welcome_def)
  then show thesis
    by (rule that) (use c closed w in \<open>simp_all add: same_setup_def hello_welcome_def\<close>)
qed

lemma sendServerHello_total:
  assumes t: "hello_lib_total W (so_EncryptionType (sv_options s))" and w: "hello_welcome W C inp s0 clientId nonce now" and o: "sv_options s = sv_options s0"
    and k: "NewCodec (hl_L W) rnd typ key aad = Inr (cn_handshakeCodec (conn_at s q))" and r: "random_ok rnd"
    and v: "validateServerHelloTranscript (connContext s (conn_at s q)) = Inr ()"
  obtains signature data c' where
    "SignServerHello (hl_C W) (so_IdentityKey (sv_options s)) (connContext s (conn_at s q)) = Inr signature"
    "Codec_EncodeMessage (hl_G W) (cn_handshakeCodec (conn_at s q)) (Some (serverHelloMessage s (conn_at s q) signature)) = (Inr data, c')"
    "sendServerHello W inp s (Some q) = (None, emit (upd_conn s q (\<lambda>c. c\<lparr>cn_handshakeCodec := c'\<rparr>)) [Publish MessageHello data])"
proof -
  obtain signature where s: "SignServerHello (hl_C W) (so_IdentityKey (sv_options s)) (connContext s (conn_at s q)) = Inr signature"
    using w v by (simp add: SignServerHello_def hello_welcome_def o crypto_lib.defs)
  let ?m = "serverHelloMessage s (conn_at s q) signature"
  have "msg_Payload ?m = Some (the (msg_Payload ?m))" "\<not> msg_Encrypt ?m" by (simp_all add: serverHelloMessage_def)
  from fresh_codec_encodes [OF k r this, where G = "hl_G W"] t obtain data c' where
    "Codec_EncodeMessage (hl_G W) (cn_handshakeCodec (conn_at s q)) (Some ?m) = (Inr data, c')"
    unfolding hello_lib_total_def by blast
  with s w show thesis by (intro that) (simp_all add: sendServerHello_def hello_welcome_def)
qed

lemma session_transcript_valid:
  assumes c: "createSession W rand s clientId key p pub = Inr conn"
  shows "validateServerHelloTranscript (connContext s conn) = Inr ()"
proof -
  obtain secret sessionKey where "DeriveSessionKey (hl_C W) key secret (connContext s conn) = Inr sessionKey"
    using c by (auto elim: createSession_Inr)
  then show ?thesis
    by (auto simp: DeriveSessionKey_def validateServerHelloTranscript_def ValidateClientCredentials_def ValidateClientID_def bind_result_Inr_iff split: if_split_asm)
qed

text \<open>The subscription registers the new session, starts its timer and publishes the answer.\<close>

lemma hello_answered:
  assumes t: "hello_lib_total W (so_EncryptionType (sv_options s))" and w: "hello_welcome W C inp s clientId nonce now"
    and h: "handleClientHello W C inp s data = Some (Inr (Some q), s1)"
    and c: "createSession W (hi_random inp) s clientId key p pub = Inr (conn_at s1 q)"
    and s1: "same_setup s s1" "\<not> sv_closeCh s1" "\<not> cn_closed (conn_at s1 q)" "\<not> cn_handshakeTimer (conn_at s1 q)" "q < length (sv_heap s1)"
  obtains s' signature answer c' where "onHello W C inp s data = Some s'" "sv_connections s' = (sv_connections s1)(clientId \<mapsto> q)"
    "sv_log s' = sv_log s1 @ [Publish MessageHello answer]" "same_setup s s'"
    "conn_at s' q = (conn_at s1 q)\<lparr>cn_handshakeTimer := True, cn_handshakeCodec := c'\<rparr>"
    "SignServerHello (hl_C W) (so_IdentityKey (sv_options s)) (connContext s (conn_at s1 q)) = Inr signature"
    "Codec_EncodeMessage (hl_G W) (cn_handshakeCodec (conn_at s1 q)) (Some (serverHelloMessage s (conn_at s1 q) signature)) = (Inr answer, c')"
proof -
  from c obtain k where k: "NewCodec (hl_L W) (hi_random inp 3) (so_EncryptionType (sv_options s)) k (so_EncryptionAAD (sv_options s)) = Inr (cn_handshakeCodec (conn_at s1 q))"
    and src: "cn_sourceId (conn_at s1 q) = clientId" by (auto elim: createSession_Inr)
  let ?s2 = "s1\<lparr>sv_connections := (sv_connections s1)(clientId \<mapsto> q)\<rparr>"
  let ?s3 = "upd_conn ?s2 q (\<lambda>c. c\<lparr>cn_handshakeTimer := True\<rparr>)"
  have set: "setConnection s1 (Some q) = (True, ?s2)" using s1 by (simp add: setConnection_def src)
  have s3: "startHandshakeTimer ?s2 q = ?s3" "conn_at ?s3 q = (conn_at s1 q)\<lparr>cn_handshakeTimer := True\<rparr>"
    using s1 by (simp_all add: startHandshakeTimer_def)
  have o: "sv_options ?s3 = sv_options s" using s1(1) by (simp add: same_setup_def)
  have ctx: "connContext ?s3 (conn_at ?s3 q) = connContext s (conn_at s1 q)"
    "serverHelloMessage ?s3 (conn_at ?s3 q) = serverHelloMessage s (conn_at s1 q)"
    using s1(1) by (auto simp: s3(2) connContext_def serverHelloMessage_def same_setup_def)
  have v: "validateServerHelloTranscript (connContext ?s3 (conn_at ?s3 q)) = Inr ()"
    unfolding ctx by (rule session_transcript_valid [OF c])
  have r: "random_ok (hi_random inp 3)" using w by (simp add: hello_welcome_def)
  have k3: "NewCodec (hl_L W) (hi_random inp 3) (so_EncryptionType (sv_options s)) k (so_EncryptionAAD (sv_options s)) = Inr (cn_handshakeCodec (conn_at ?s3 q))"
    unfolding s3(2) using k by simp
  obtain signature answer c' where
    sg: "SignServerHello (hl_C W) (so_IdentityKey (sv_options ?s3)) (connContext ?s3 (conn_at ?s3 q)) = Inr signature"
    and e: "Codec_EncodeMessage (hl_G W) (cn_handshakeCodec (conn_at ?s3 q)) (Some (serverHelloMessage ?s3 (conn_at ?s3 q) signature)) = (Inr answer, c')"
    and p: "sendServerHello W inp ?s3 (Some q) = (None, emit (upd_conn ?s3 q (\<lambda>c. c\<lparr>cn_handshakeCodec := c'\<rparr>)) [Publish MessageHello answer])"
    using sendServerHello_total [OF t [folded o] w o k3 r v] by blast
  show thesis
  proof (rule that)
    show "onHello W C inp s data = Some (emit (upd_conn ?s3 q (\<lambda>c. c\<lparr>cn_handshakeCodec := c'\<rparr>)) [Publish MessageHello answer])"
      using h set p w by (simp add: onHello_def hello_welcome_def s3(1))
    show "SignServerHello (hl_C W) (so_IdentityKey (sv_options s)) (connContext s (conn_at s1 q)) = Inr signature"
      using sg unfolding ctx o .
    show "Codec_EncodeMessage (hl_G W) (cn_handshakeCodec (conn_at s1 q)) (Some (serverHelloMessage s (conn_at s1 q) signature)) = (Inr answer, c')"
      using e unfolding ctx unfolding s3(2) by simp
  qed (use s1 in \<open>simp_all add: same_setup_def emit_def\<close>)
qed

end
