(* ===== verification/Hello_Samples.thy ===== *)
theory Hello_Samples
  imports Key_Agreement
begin

text \<open>
  Concrete instances of the parameters of the handshake, used by the witnesses: an LRU cache as a
  list, a gob that carries hellos, an X25519 with one key pair, and a server in room ''room'' with one
  transport.
\<close>

section \<open>A cache as a list, most recently used first\<close>

definition list_lru :: "nat \<Rightarrow> (bytes \<times> int) list lru_lib" where
  "list_lru n =
     \<lparr>lru_Get = (\<lambda>c k. case map_of c k of None \<Rightarrow> (None, c) | Some v \<Rightarrow> (Some v, (k, v) # filter (\<lambda>e. fst e \<noteq> k) c)),
      lru_Add = (\<lambda>c k v. take n ((k, v) # filter (\<lambda>e. fst e \<noteq> k) c))\<rparr>"

section \<open>A self-delimiting encoding of lists of byte strings\<close>

fun enc_chunks :: "bytes list \<Rightarrow> bytes" where
  "enc_chunks [] = [9]"
| "enc_chunks (c # cs) = concat (map (\<lambda>b. [1, b]) c) @ 0 # enc_chunks cs"

fun dec_chunks :: "bytes \<Rightarrow> bytes \<Rightarrow> bytes list" where
  "dec_chunks acc (x # b # r) = (if x = 1 then dec_chunks (acc @ [b]) r else if x = 0 then acc # dec_chunks [] (b # r) else [])"
| "dec_chunks acc [x] = (if x = 0 then [acc] else [])"
| "dec_chunks acc [] = []"

lemma dec_chunk: "dec_chunks acc (concat (map (\<lambda>b. [1, b]) c) @ 0 # r) = (acc @ c) # dec_chunks [] r"
  by (induction c arbitrary: acc) (cases r; simp)+

lemma dec_enc [simp]: "dec_chunks [] (enc_chunks cs) = cs"
  by (induction cs) (auto simp: dec_chunk)

lemma length_pairs [simp]: "length (concat (map (\<lambda>b. [x, b]) c)) = 2 * length c"
  by (induction c) auto

lemma length_enc_chunks: "length (enc_chunks cs) = Suc (sum_list (map (\<lambda>c. 2 * length c + 1) cs))"
  by (induction cs) auto

lemma enc_chunks_nonempty [simp]: "enc_chunks cs \<noteq> []"
  by (cases cs) auto

lemma enc_chunks_chunk_le: "c \<in> set cs \<Longrightarrow> length c \<le> length (enc_chunks cs)"
  by (induction cs) auto

declare enc_chunks.simps [simp del]

section \<open>A gob for hellos\<close>

definition string_of :: "bytes \<Rightarrow> string" where
  "string_of bs = map (\<lambda>b. char_of (unat b)) bs"

lemma unat_of_char: "unat (of_char c :: byte) = of_char c"
proof -
  have "unat (of_nat (of_char c) :: byte) = of_char c" by (simp add: unat_of_nat take_bit_eq_mod)
  then show ?thesis by (simp only: of_nat_of_char)
qed

lemma string_of_bytes_of [simp]: "string_of (bytes_of s) = s"
  by (simp add: string_of_def bytes_of_def unat_of_char comp_def)

definition hello_gob :: gob where
  "hello_gob =
     \<lparr>Header_Marshal = (\<lambda>h. enc_chunks [[if hd_Type h = ClientHello then 1 else 2], bytes_of (hd_SourceId h), bytes_of (hd_TargetId h), hd_HandshakeNonce h]),
      Header_Unmarshal = (\<lambda>b. let cs = dec_chunks [] b in Inr (zero_header\<lparr>hd_Type := if cs ! 0 = [1] then ClientHello else ServerHello,
        hd_SourceId := string_of (cs ! 1), hd_TargetId := string_of (cs ! 2), hd_HandshakeNonce := cs ! 3\<rparr>)),
      Payload_Marshal = (\<lambda>p. enc_chunks ([pl_SessionSalt p, pl_ClientNonce p, pl_ServerNonce p, pl_ClientEphemeralKey p, pl_ServerEphemeralKey p,
        pl_Signature p, bytes_of (pl_HandshakeRoomID p), bytes_of (pl_HandshakeClientID p), pl_Timestamp p] @ map bytes_of (pl_Transports p))),
      Payload_Unmarshal = (\<lambda>b. let cs = dec_chunks [] b in Inr (zero_payload\<lparr>pl_SessionSalt := cs ! 0, pl_ClientNonce := cs ! 1, pl_ServerNonce := cs ! 2,
        pl_ClientEphemeralKey := cs ! 3, pl_ServerEphemeralKey := cs ! 4, pl_Signature := cs ! 5, pl_HandshakeRoomID := string_of (cs ! 6),
        pl_HandshakeClientID := string_of (cs ! 7), pl_Timestamp := cs ! 8, pl_Transports := map string_of (drop 9 cs)\<rparr>)),
      Chunks_Encode = (\<lambda>cs. Inr (enc_chunks cs)), Chunks_Decode = (\<lambda>d. Inr (dec_chunks [] d))\<rparr>"

section \<open>The libraries\<close>

definition meeting_lib :: hello_lib where
  "meeting_lib =
     \<lparr>hl_L = sum_lib\<lparr>hkdf256 := (\<lambda>_ _ _ n. Inr (replicate n 5)), ed25519_Verify := (\<lambda>_ _ sig. sig = replicate 64 2)\<rparr>,
      hl_G = hello_gob, hl_GenerateKey = (\<lambda>rnd. rnd 32), hl_PublicKey = (\<lambda>_. replicate 32 9), hl_NewPublicKey = Inr,
      hl_ECDH = (\<lambda>_ _. Inr (replicate 32 7)), hl_Format = (\<lambda>_. []), hl_Parse = (\<lambda>_. Some 0)\<rparr>"

lemma meeting_gob: "hl_G meeting_lib = hello_gob"
  by (simp add: meeting_lib_def)

lemma meeting_carries:
  "gob_carries meeting_lib (clientHelloMessage W psk room nonce key now)"
  "gob_carries meeting_lib (serverHelloMessage s c signature)"
  by (auto simp: gob_carries_def gob_ok_def meeting_gob hello_gob_def clientHelloMessage_def serverHelloMessage_def zero_header_def zero_payload_def
      comp_def numeral_eq_Suc enc_chunks_chunk_le Let_def)

lemma meeting_lib_ok: "hello_lib_ok meeting_lib"
proof -
  have "lib_ok (hl_L meeting_lib)" using sum_lib_ok by (simp add: meeting_lib_def lib_ok_def)
  then show ?thesis
    by (auto simp: hello_lib_ok_def meeting_lib_def sum_lib_def symbolic_lib_def crypto_lib.defs ed25519_SignatureSize_def)
qed

lemma meeting_lib_total: "hello_lib_total meeting_lib CHACHA20_POLY1305"
  by (auto simp: hello_lib_total_def meeting_lib_def sum_lib_def crypto_lib.defs aead_for_def sum_aead_def nonceCounterSize_def random_ok_def
      AES_256_GCM_def ASCON_128A_def CAMELLIA_256_def CHACHA20_POLY1305_def hello_gob_def)

section \<open>The parties\<close>

definition steady_random :: "byte \<Rightarrow> nat \<Rightarrow> random" where
  "steady_random b i n = Inr (replicate n b)"

lemma steady_random_ok [simp]: "random_ok (steady_random b i)"
  by (simp add: random_ok_def steady_random_def)

definition meeting_inputs :: "int \<Rightarrow> hello_inputs" where
  "meeting_inputs now = \<lparr>hi_allow = True, hi_now = now, hi_nonceNow = now, hi_cacheNow = now, hi_join = True, hi_random = steady_random 4,
     hi_closeHandle = (\<lambda>_. None), hi_publish = None\<rparr>"

definition meeting_psk :: pre_shared_key where
  "meeting_psk = \<lparr>psk_ClientID = ''c'', psk_Key = replicate 32 8, psk_ServerPublicKey = replicate 32 1\<rparr>"

definition meeting_client :: client_options where
  "meeting_client = zero_client_options\<lparr>co_EncryptionType := CHACHA20_POLY1305, co_EncryptionAAD := [7]\<rparr>"

definition meeting_server :: "(bytes \<times> int) list server" where
  "meeting_server =
     \<lparr>sv_serverId = replicate 64 (CHR ''0''), sv_api = sample_api,
      sv_options = sample_server_options\<lparr>so_EncryptionType := CHACHA20_POLY1305, so_EncryptionAAD := [7], so_ClockSkew := 30 * second,
        so_ReplayProtection := 300 * second, so_MaxConnections := 2, so_MaxPendingHandshakes := 1, so_Transports := [Some quic_transport]\<rparr>,
      sv_nonceCache = [], sv_onOffer = True, sv_onHandshake = True, sv_connections = Map.empty, sv_heap = [], sv_acceptCh = [], sv_closeCh = False,
      sv_roomLeaseKey = [], sv_bufferBudget = Some (NewByteBudget 1000), sv_totalConnections = 0, sv_pendingHandshakes = 0, sv_log = []\<rparr>"

lemma hex_zeros: "hex_EncodeToString (replicate n 0) = replicate (2 * n) (CHR ''0'')"
  by (induction n) (simp_all add: hex_EncodeToString_def hex_digit_def)

lemma meeting_id: "hex_EncodeToString (replicate 32 0) = replicate 64 (CHR ''0'')"
  using hex_zeros [of 32] by simp

lemma meeting_server_id: "sv_serverId meeting_server = replicate 64 (CHR ''0'')"
  by (simp add: meeting_server_def)

lemma meeting_keys: "hl_GenerateKey meeting_lib rnd = rnd 32" "hl_PublicKey meeting_lib a = replicate 32 9"
  by (simp_all add: meeting_lib_def)

lemma meeting_alike: "configured_alike meeting_lib meeting_psk ''room'' meeting_client meeting_server"
  by (simp add: configured_alike_def meeting_lib_def meeting_psk_def meeting_client_def meeting_server_def sum_lib_def symbolic_lib_def crypto_lib.defs
      ServerIDFromPublicKey_def ed25519_PublicKeySize_def serverKey_def sample_server_options_def sample_api_def meeting_id)

section \<open>The packets\<close>

text \<open>The size of a message in the clear, encrypted with the sample ciphers: a nonce of 12 bytes and a tag of 16.\<close>

lemma meeting_packet_length:
  assumes c: "NewCodec (hl_L meeting_lib) rnd CHACHA20_POLY1305 key aad = Inr c"
    and e: "fst (Codec_EncodeMessage hello_gob c (Some m)) = Inr data" and m: "msg_Header m = Some h" "msg_Payload m = Some p" "\<not> msg_Encrypt m"
  shows "length data = 2 * length (Header_Marshal hello_gob h) + 2 * length (Payload_Marshal hello_gob p) + 62"
proof -
  obtain kit where kit: "cd_encryptionKit c = Some kit" "aead_for (hl_L meeting_lib) CHACHA20_POLY1305 key = Inr (kit_aead kit)"
    using c by (auto elim: NewCodec_Inr)
  from kit(2) have "sum_aead (take 32 (key @ replicate 32 0)) = kit_aead kit"
    by (simp add: aead_for_def meeting_lib_def sum_lib_def crypto_lib.defs AES_256_GCM_def ASCON_128A_def CAMELLIA_256_def CHACHA20_POLY1305_def)
  then obtain k where k: "kit_aead kit = sum_aead k" by metis
  from e m obtain out c' where o: "encodeWithEncryption c (Payload_Marshal hello_gob p) aadDomainPayload (Header_Marshal hello_gob h) = (Inr out, c')"
    and d: "data = enc_chunks [Header_Marshal hello_gob h, out, [ENCRYPT_PARTIALY]]"
    by (auto simp: Codec_EncodeMessage_def Let_def hello_gob_def split: prod.split_asm sum.split_asm)
  from o kit(1) obtain kit' a where "IEncryption_Encrypt kit (Payload_Marshal hello_gob p) a = Inr (out, kit')"
    by (auto simp: encodeWithEncryption_def split: if_split_asm sum.split_asm)
  then obtain nonce where "out = nonce @ Seal (kit_aead kit) nonce (Payload_Marshal hello_gob p) a" "length nonce = NonceSize (kit_aead kit)"
    by (rule Encrypt_Inr)
  then have "length out = length (Payload_Marshal hello_gob p) + 28" by (simp add: k sum_aead_def sum_tag_def)
  then show ?thesis by (simp add: d length_enc_chunks)
qed

lemma meeting_attempt:
  obtains attempt where "buildClientHello meeting_lib meeting_psk ''room'' meeting_client (steady_random 3) 0 = Inr attempt"
    "ch_nonce attempt = replicate 32 3" "ch_publicKey attempt = replicate 32 9" "int (length (ch_message attempt)) \<le> maxSignalingPacketSize"
proof -
  let ?W = meeting_lib and ?m = "clientHelloMessage meeting_lib meeting_psk ''room'' (replicate 32 3) (replicate 32 9) 0"
  have v: "validateHandshakeKeyContext (psk_Key meeting_psk) ''room'' ''c'' (replicate 64 (CHR ''0'')) (replicate 32 3) = Inr ()"
    by (simp add: validateHandshakeKeyContext_def meeting_psk_def ValidateClientCredentials_def ValidateClientID_def clientIDPattern_def clientIDChar_def
        MinPreSharedKeySize_def MaxClientIDLength_def HandshakeNonceSize_def)
  obtain k where k: "DeriveClientHelloKey (hl_C ?W) (psk_Key meeting_psk) ''room'' ''c'' (replicate 64 (CHR ''0'')) (replicate 32 3) = Inr k"
    using deriveHandshakeKey_total [OF meeting_lib_total] v unfolding DeriveClientHelloKey_def bind_result_Inr_iff by metis
  obtain c where c: "NewCodec (hl_L ?W) (steady_random 3 2) CHACHA20_POLY1305 k [7] = Inr c"
    using NewCodec_total [OF meeting_lib_total, of "steady_random 3 2" "[7]"] by auto
  have m: "msg_Header ?m = Some (the (msg_Header ?m))" "msg_Payload ?m = Some (the (msg_Payload ?m))" "\<not> msg_Encrypt ?m"
    by (simp_all add: clientHelloMessage_def)
  obtain data c' where d: "Codec_EncodeMessage (hl_G ?W) c (Some ?m) = (Inr data, c')"
    using fresh_codec_encodes [OF c _ m(2,3), of "hl_G ?W"] meeting_lib_total by (auto simp: hello_lib_total_def)
  have "length data \<le> 1000"
    using meeting_packet_length [OF c _ m, of data] d
    by (simp add: meeting_gob hello_gob_def length_enc_chunks clientHelloMessage_def meeting_psk_def meeting_lib_def zero_header_def zero_payload_def)
  moreover have "ServerIDFromPublicKey (hl_C ?W) (psk_ServerPublicKey meeting_psk) = Inr (replicate 64 (CHR ''0''))"
    using meeting_alike unfolding configured_alike_def meeting_server_id by blast
  moreover have "psk_ClientID meeting_psk = ''c''" "co_EncryptionType meeting_client = CHACHA20_POLY1305" "co_EncryptionAAD meeting_client = [7]"
    by (simp_all add: meeting_psk_def meeting_client_def)
  ultimately show thesis
    using k c d by (intro that [of "\<lparr>ch_nonce = replicate 32 3, ch_privateKey = replicate 32 3, ch_publicKey = replicate 32 9, ch_message = data\<rparr>"])
      (simp_all add: buildClientHello_def meeting_keys maxSignalingPacketSize_def steady_random_def HandshakeNonceSize_def)
qed

lemma meeting_welcome: "hello_welcome meeting_lib (list_lru 10) (meeting_inputs second) meeting_server ''c'' (replicate 32 3) 0"
  by (simp add: hello_welcome_def meeting_inputs_def meeting_server_def list_lru_def meeting_lib_def sample_server_options_def second_def
      ed25519_PrivateKeySize_def ed25519_SeedSize_def sum_lib_def symbolic_lib_def crypto_lib.defs)

lemma meeting_setup:
  "psk_ClientID meeting_psk = ''c''" "sv_heap meeting_server = []" "sv_connections meeting_server = Map.empty" "sv_log meeting_server = []"
  "so_EncryptionType (sv_options meeting_server) = CHACHA20_POLY1305"
  by (simp_all add: meeting_psk_def meeting_server_def)

lemmas meeting_total = meeting_lib_total [folded meeting_setup(5)]

end
