(* ===== verification/Transport_Setup.thy ===== *)
theory Transport_Setup
  imports Listening Hello_Samples
begin

text \<open>
  What a transport setup of the server leaves behind. With other goroutines at work in its gaps, everything it created is closed or
  held by its connection, and a connection that is still current without having been offered to Accept holds nothing of it.
\<close>

section \<open>Handles are kept or closed\<close>

text \<open>
  What every operation of a server respects for connection \<open>p\<close>: the log and the store grow, and an agent or transport
  leaves the connection only by being closed. It is also what is asked of the other goroutines.
\<close>

definition kept :: "nat \<Rightarrow> 'c server \<Rightarrow> 'c server \<Rightarrow> bool" where
  "kept p s s' \<longleftrightarrow> length (sv_heap s) \<le> length (sv_heap s') \<and> set (sv_log s) \<subseteq> set (sv_log s') \<and>
     (\<forall>a. cn_iceAgent (conn_at s p) = Some a \<longrightarrow> cn_iceAgent (conn_at s' p) = Some a \<or> AgentClosed a \<in> set (sv_log s')) \<and>
     (\<forall>t. cn_transportConn (conn_at s p) = Some t \<longrightarrow> cn_transportConn (conn_at s' p) = Some t \<or> TransportClosed t \<in> set (sv_log s'))"



lemma kept_refl [simp]: "kept p s s"
  by (simp add: kept_def)

lemma kept_trans [trans]: "kept p s s' \<Longrightarrow> kept p s' s'' \<Longrightarrow> kept p s s''"
  unfolding kept_def by (meson order_trans subsetD)



lemma kept_emit [simp]: "kept p s (emit s es)"
  by (auto simp: kept_def)











section \<open>Setups among other goroutines\<close>

text \<open>
  Close takes the data channel only of a connection that it has marked closed. The other goroutines respect that, close what they take out of
  the connection, and neither install the agent of this setup nor a transport beside it: only the setup that owns an agent does.
\<close>

definition channel_ok :: "nat \<Rightarrow> 'c server \<Rightarrow> bool" where
  "channel_ok p s \<longleftrightarrow> (cn_dataChannel (conn_at s p) = None \<longrightarrow> cn_closed (conn_at s p))"

definition others :: "nat \<Rightarrow> nat \<Rightarrow> 'c server \<Rightarrow> 'c server \<Rightarrow> bool" where
  "others p a s s' \<longleftrightarrow> kept p s s' \<and> (channel_ok p s \<longrightarrow> channel_ok p s') \<and>
     (cn_iceAgent (conn_at s' p) = Some a \<longrightarrow> cn_iceAgent (conn_at s p) = Some a \<and> cn_transportConn (conn_at s' p) = cn_transportConn (conn_at s p))"


lemma others_refl [simp]: "others p a s s"
  by (simp add: others_def)





























end
