(* ===== verification/Hello_Exchange.thy ===== *)
theory Hello_Exchange
  imports Hello_Samples
begin

text \<open>
  The properties of the handshake as a whole: an honest exchange succeeds and gives both ends one session, what
  each side may conclude from accepting a message, and that a hello is not accepted twice.
\<close>

section \<open>The exchange\<close>

lemma exchange_succeeds:
  assumes W: "hello_lib_ok W" and t: "hello_lib_total W (so_EncryptionType (sv_options s))" and cfg: "configured_alike W psk roomId options s"
    and a: "buildClientHello W psk roomId options rand now = Inr attempt"
    and g: "gob_carries W (clientHelloMessage W psk roomId (ch_nonce attempt) (ch_publicKey attempt) now)"
    and len: "int (length (ch_message attempt)) \<le> maxSignalingPacketSize"
    and w: "hello_welcome W C inp s (psk_ClientID psk) (ch_nonce attempt) now" and r: "\<forall>i. random_ok (rand' i)" and q: "q = length (sv_heap s)"
  shows "\<exists>s' data. onHello W C inp s (ch_message attempt) = Some s' \<and> sv_connections s' = (sv_connections s)(psk_ClientID psk \<mapsto> q) \<and>
    sv_log s' = sv_log s @ [Publish MessageHello data] \<and>
    ((\<forall>signature. gob_carries W (serverHelloMessage s' (conn_at s' q) signature)) \<and> int (length data) \<le> maxSignalingPacketSize \<longrightarrow>
     (\<exists>hs. handleServerHello W psk roomId options rand' data attempt = Inr hs \<and> session_shared hs s' q))"
proof -
  let ?p = "the (msg_Payload (clientHelloMessage W psk roomId (ch_nonce attempt) (ch_publicKey attempt) now))"
  obtain s1 where h: "handleClientHello W C inp s (ch_message attempt) = Some (Inr (Some q), s1)"
    and c: "createSession W (hi_random inp) s (psk_ClientID psk) (psk_Key psk) ?p (ch_publicKey attempt) = Inr (conn_at s1 q)"
    and s1: "same_setup s s1" "\<not> sv_closeCh s1" "\<not> cn_closed (conn_at s1 q)" "\<not> cn_handshakeTimer (conn_at s1 q)" "q < length (sv_heap s1)"
      "sv_log s1 = sv_log s" "sv_connections s1 = sv_connections s"
    using honest_hello_accepted [OF W t cfg a refl g len w] unfolding q by (metis lessI)
  obtain s' signature data c' where on: "onHello W C inp s (ch_message attempt) = Some s'"
    and s': "sv_connections s' = (sv_connections s1)(psk_ClientID psk \<mapsto> q)" "sv_log s' = sv_log s1 @ [Publish MessageHello data]" "same_setup s s'"
      "conn_at s' q = (conn_at s1 q)\<lparr>cn_handshakeTimer := True, cn_handshakeCodec := c'\<rparr>"
    and sg: "SignServerHello (hl_C W) (so_IdentityKey (sv_options s)) (connContext s (conn_at s1 q)) = Inr signature"
    and e: "Codec_EncodeMessage (hl_G W) (cn_handshakeCodec (conn_at s1 q)) (Some (serverHelloMessage s (conn_at s1 q) signature)) = (Inr data, c')"
    by (rule hello_answered [OF t w h c s1(1-5)])
  have m: "serverHelloMessage s' (conn_at s' q) sig = serverHelloMessage s (conn_at s1 q) sig" for sig
    using s'(3) by (simp add: s'(4) serverHelloMessage_def same_setup_def)
  have pl: "pl_ClientNonce ?p = ch_nonce attempt" "pl_ClientEphemeralKey ?p = ch_publicKey attempt" by (simp_all add: clientHelloMessage_def)
  have pub: "ch_publicKey attempt = hl_PublicKey W (ch_privateKey attempt)" using attempt_parts [OF a] by blast
  have "\<exists>hs. handleServerHello W psk roomId options rand' data attempt = Inr hs \<and> session_shared hs s' q"
    if gob: "\<forall>signature. gob_carries W (serverHelloMessage s' (conn_at s' q) signature)" and l: "int (length data) \<le> maxSignalingPacketSize"
  proof -
    have "fst (Codec_EncodeMessage (hl_G W) (cn_handshakeCodec (conn_at s1 q)) (Some (serverHelloMessage s (conn_at s1 q) signature))) = Inr data"
      using e by simp
    from client_accepts [OF W cfg c pl sg this gob [rule_format, unfolded m] l r [rule_format]]
    have "verifyServerHello W psk roomId options (rand' 0) data attempt = Inr (sv_serverId s, the (msg_Payload (serverHelloMessage s (conn_at s1 q) signature)))" .
    from client_session [OF W cfg pub c pl this r refl s1(1)] show ?thesis
      using s'(3,4) s1(1) by (auto simp: session_shared_def same_setup_def)
  qed
  with on s' s1(6,7) show ?thesis by auto
qed

text \<open>
  C1. An honest handshake succeeds and both ends share the session. A client makes a hello; the server is
  configured for this client, open, below its limits and has a clock within the skew. Then the hello subscription of
  the server registers a session for the client and publishes an answer. The client accepts this answer, whatever
  nonces and keys were drawn, learns the server's transports, and holds the session key of the server:
  signaling messages of each end can be read by the other, and the data channels deliver in both
  directions.
\<close>

theorem hello_exchange:
  assumes W: "hello_lib_ok W" and t: "hello_lib_total W (so_EncryptionType (sv_options s))" and cfg: "configured_alike W psk roomId options s"
    and a: "buildClientHello W psk roomId options rand now = Inr attempt"
    and g: "gob_carries W (clientHelloMessage W psk roomId (ch_nonce attempt) (ch_publicKey attempt) now)"
    and len: "int (length (ch_message attempt)) \<le> maxSignalingPacketSize"
    and w: "hello_welcome W C inp s (psk_ClientID psk) (ch_nonce attempt) now" and r: "\<forall>i. random_ok (rand' i)" and q: "q = length (sv_heap s)"
  shows "\<exists>s' data. onHello W C inp s (ch_message attempt) = Some s' \<and> sv_connections s' = (sv_connections s)(psk_ClientID psk \<mapsto> q) \<and>
    sv_log s' = sv_log s @ [Publish MessageHello data] \<and>
    ((\<forall>signature. gob_carries W (serverHelloMessage s' (conn_at s' q) signature)) \<and> int (length data) \<le> maxSignalingPacketSize \<longrightarrow>
     (\<exists>hs. handleServerHello W psk roomId options rand' data attempt = Inr hs \<and> session_shared hs s' q))"
  by (rule exchange_succeeds [OF assms])

lemma meeting_answer_length:
  assumes c: "createSession meeting_lib rand meeting_server ''c'' key p pub = Inr conn"
    and sg: "SignServerHello (hl_C meeting_lib) idKey (connContext meeting_server conn) = Inr signature"
    and e: "fst (Codec_EncodeMessage (hl_G meeting_lib) (cn_handshakeCodec conn) (Some (serverHelloMessage meeting_server conn signature))) = Inr data"
  shows "int (length data) \<le> maxSignalingPacketSize"
proof -
  let ?m = "serverHelloMessage meeting_server conn signature"
  obtain k where k: "NewCodec (hl_L meeting_lib) (rand 3) CHACHA20_POLY1305 k [7] = Inr (cn_handshakeCodec conn)" and src: "cn_sourceId conn = ''c''"
    using c by (auto elim: createSession_Inr simp: meeting_server_def)
  have m: "msg_Header ?m = Some (the (msg_Header ?m))" "msg_Payload ?m = Some (the (msg_Payload ?m))" "\<not> msg_Encrypt ?m"
    by (simp_all add: serverHelloMessage_def)
  have l: "length (cn_clientNonce conn) = 32" "length (cn_serverNonce conn) = 32" "length (cn_clientEphemeralKey conn) = 32"
    "length (cn_serverEphemeralKey conn) = 32" "length (cn_sessionSalt conn) = 32"
    using session_transcript_valid [OF c]
    by (auto simp: validateServerHelloTranscript_def connContext_def HandshakeNonceSize_def HandshakeKeySize_def split: if_split_asm)
  have sl: "length signature = 64"
    using sg by (auto simp: SignServerHello_def bind_result_Inr_iff meeting_lib_def sum_lib_def symbolic_lib_def crypto_lib.defs split: if_split_asm)
  have "length data \<le> 2000"
    using meeting_packet_length [OF k e [unfolded meeting_gob] m] l sl src
    by (simp add: hello_gob_def length_enc_chunks serverHelloMessage_def meeting_server_def zero_header_def zero_payload_def transportNames_def quic_transport_def)
  then show ?thesis by (simp add: maxSignalingPacketSize_def)
qed

lemma meeting_answer_fits:
  assumes a: "buildClientHello meeting_lib meeting_psk ''room'' meeting_client (steady_random 3) 0 = Inr attempt"
    "ch_nonce attempt = replicate 32 3" "int (length (ch_message attempt)) \<le> maxSignalingPacketSize"
    and on: "onHello meeting_lib (list_lru 10) (meeting_inputs second) meeting_server (ch_message attempt) = Some s'" "sv_log s' = [Publish MessageHello data]"
  shows "int (length data) \<le> maxSignalingPacketSize"
proof -
  let ?W = meeting_lib and ?s = meeting_server and ?C = "list_lru 10" and ?inp = "meeting_inputs second"
  have w: "hello_welcome ?W ?C ?inp ?s (psk_ClientID meeting_psk) (ch_nonce attempt) 0" using meeting_welcome by (simp add: a(2) meeting_setup)
  obtain s1 where s1: "handleClientHello ?W ?C ?inp ?s (ch_message attempt) = Some (Inr (Some 0), s1)"
    "createSession ?W (hi_random ?inp) ?s ''c'' (psk_Key meeting_psk)
      (the (msg_Payload (clientHelloMessage ?W meeting_psk ''room'' (ch_nonce attempt) (ch_publicKey attempt) 0))) (ch_publicKey attempt) = Inr (conn_at s1 0)"
    "same_setup ?s s1" "\<not> sv_closeCh s1" "\<not> cn_closed (conn_at s1 0)" "\<not> cn_handshakeTimer (conn_at s1 0)" "0 < length (sv_heap s1)" "sv_log s1 = []"
    using honest_hello_accepted [OF meeting_lib_ok meeting_total meeting_alike a(1) refl meeting_carries(1) a(3) w] unfolding meeting_setup
    by (metis list.size(3) zero_less_Suc)
  obtain s2 signature answer c' where "onHello ?W ?C ?inp ?s (ch_message attempt) = Some s2" "sv_log s2 = sv_log s1 @ [Publish MessageHello answer]"
    and e: "SignServerHello (hl_C ?W) (so_IdentityKey (sv_options ?s)) (connContext ?s (conn_at s1 0)) = Inr signature"
      "Codec_EncodeMessage (hl_G ?W) (cn_handshakeCodec (conn_at s1 0)) (Some (serverHelloMessage ?s (conn_at s1 0) signature)) = (Inr answer, c')"
    by (rule hello_answered [OF meeting_total w [unfolded meeting_setup] s1(1-7)])
  with on s1(8) have "answer = data" by simp
  with meeting_answer_length [OF s1(2) e(1)] e(2) show ?thesis by simp
qed

theorem hello_exchange_witness:
  "\<exists>attempt s' data hs. buildClientHello meeting_lib meeting_psk ''room'' meeting_client (steady_random 3) 0 = Inr attempt \<and>
     onHello meeting_lib (list_lru 10) (meeting_inputs second) meeting_server (ch_message attempt) = Some s' \<and>
     sv_connections s' = [''c'' \<mapsto> 0] \<and> sv_log s' = [Publish MessageHello data] \<and>
     handleServerHello meeting_lib meeting_psk ''room'' meeting_client (steady_random 6) data attempt = Inr hs \<and> session_shared hs s' 0"
proof -
  obtain attempt where a: "buildClientHello meeting_lib meeting_psk ''room'' meeting_client (steady_random 3) 0 = Inr attempt"
    "ch_nonce attempt = replicate 32 3" "int (length (ch_message attempt)) \<le> maxSignalingPacketSize"
    by (rule meeting_attempt)
  have w: "hello_welcome meeting_lib (list_lru 10) (meeting_inputs second) meeting_server (psk_ClientID meeting_psk) (ch_nonce attempt) 0"
    using meeting_welcome by (simp add: a(2) meeting_setup)
  from hello_exchange [OF meeting_lib_ok meeting_total meeting_alike a(1) meeting_carries(1) a(3) w, of "steady_random 6" 0]
    meeting_answer_fits [OF a] meeting_carries(2) a(1)
  show ?thesis by (fastforce simp: meeting_setup)
qed

lemma meeting_exchanged:
  obtains attempt data hs where "buildClientHello meeting_lib meeting_psk ''room'' meeting_client (steady_random 3) 0 = Inr attempt"
    "handleServerHello meeting_lib meeting_psk ''room'' meeting_client (steady_random 6) data attempt = Inr hs"
proof -
  obtain attempt where a: "buildClientHello meeting_lib meeting_psk ''room'' meeting_client (steady_random 3) 0 = Inr attempt"
    "ch_nonce attempt = replicate 32 3" "int (length (ch_message attempt)) \<le> maxSignalingPacketSize"
    by (rule meeting_attempt)
  have w: "hello_welcome meeting_lib (list_lru 10) (meeting_inputs second) meeting_server (psk_ClientID meeting_psk) (ch_nonce attempt) 0"
    using meeting_welcome by (simp add: a(2) meeting_setup)
  from exchange_succeeds [OF meeting_lib_ok meeting_total meeting_alike a(1) meeting_carries(1) a(3) w, of "steady_random 6" 0]
    meeting_answer_fits [OF a] meeting_carries(2) a(1) that
  show thesis by (fastforce simp: meeting_setup)
qed

section \<open>What acceptance proves\<close>

lemma length_hex: "length (hex_EncodeToString bs) = 2 * length bs"
  by (induction bs) (simp_all add: hex_EncodeToString_def)

lemma verifyServerHello_Inr:
  assumes "verifyServerHello W psk roomId options rnd data attempt = Inr (serverID, p)"
  obtains "ServerIDFromPublicKey (hl_C W) (psk_ServerPublicKey psk) = Inr serverID" "ValidateClientID (psk_ClientID psk) = Inr ()"
    "pl_ClientNonce p = ch_nonce attempt" "pl_ClientEphemeralKey p = ch_publicKey attempt"
    "VerifyServerHello (hl_C W) (psk_ServerPublicKey psk) (clientHelloContext psk roomId serverID p) (pl_Signature p)"
  using assms unfolding verifyServerHello_def Let_def bind_result_Inr_iff
  by (auto simp: bind_result_Inr_iff DeriveServerHelloKey_def validateHandshakeKeyContext_def ValidateClientCredentials_def split: if_split_asm)

lemma handleServerHello_Inr:
  assumes "handleServerHello W psk roomId options rand data attempt = Inr hs"
  obtains p pub secret where "verifyServerHello W psk roomId options (rand 0) data attempt = Inr (sh_serverID hs, p)"
    "hl_NewPublicKey W (pl_ServerEphemeralKey p) = Inr pub" "hl_ECDH W (ch_privateKey attempt) pub = Inr secret"
    "DeriveSessionKey (hl_C W) (psk_Key psk) secret ((clientHelloContext psk roomId (sh_serverID hs) p)
       \<lparr>hc_clientNonce := ch_nonce attempt, hc_clientEphemeralKey := ch_publicKey attempt\<rparr>) = Inr (sc_sessionKey (sh_codec hs))"
  using assms unfolding handleServerHello_def bind_result_Inr_iff
  by (auto simp: bind_result_Inr_iff case_error_Inr_iff NewSignalingChannel_def split: if_split_asm)

text \<open>
  C2. The client talks to the pinned server. Suppose that the signature in the answer is not a forgery: if the pair of message and
  signature that the client checks verifies under the pinned key, then the holder of the key signed that message, for one
  of the contexts in \<open>issued\<close>. If the client accepts the answer to its hello, then the
  holder of the key signed a context with exactly this room, client, client nonce and client key, so
  it answered this very hello; and the client's session key is derived from that context and nothing else.
\<close>

theorem ServerHello_authentic:
  assumes h: "handleServerHello W psk roomId options rand data attempt = Inr hs"
    and unforged: "\<forall>serverID p. verifyServerHello W psk roomId options (rand 0) data attempt = Inr (serverID, p) \<longrightarrow>
      ed25519_Verify (hl_L W) (psk_ServerPublicKey psk) (serverHelloTranscript (clientHelloContext psk roomId serverID p)) (pl_Signature p) \<longrightarrow>
      serverHelloTranscript (clientHelloContext psk roomId serverID p) \<in> serverHelloTranscript ` issued"
    and issued: "\<forall>c \<in> issued. short_context c \<and> validateServerHelloTranscript c = Inr ()"
    and short: "length roomId < 2 ^ 32" "length (sha256 (hl_L W) (psk_ServerPublicKey psk)) = 32"
  shows "\<exists>c \<in> issued. hc_roomID c = roomId \<and> hc_clientID c = psk_ClientID psk \<and> hc_serverID c = sh_serverID hs \<and>
    hc_clientNonce c = ch_nonce attempt \<and> hc_clientEphemeralKey c = ch_publicKey attempt \<and>
    (\<exists>pub secret. hl_NewPublicKey W (hc_serverEphemeralKey c) = Inr pub \<and> hl_ECDH W (ch_privateKey attempt) pub = Inr secret \<and>
       DeriveSessionKey (hl_C W) (psk_Key psk) secret c = Inr (sc_sessionKey (sh_codec hs)))"
proof -
  obtain p pub secret where v: "verifyServerHello W psk roomId options (rand 0) data attempt = Inr (sh_serverID hs, p)"
    and e: "hl_NewPublicKey W (pl_ServerEphemeralKey p) = Inr pub" "hl_ECDH W (ch_privateKey attempt) pub = Inr secret"
    and d: "DeriveSessionKey (hl_C W) (psk_Key psk) secret ((clientHelloContext psk roomId (sh_serverID hs) p)
       \<lparr>hc_clientNonce := ch_nonce attempt, hc_clientEphemeralKey := ch_publicKey attempt\<rparr>) = Inr (sc_sessionKey (sh_codec hs))"
    using h by (rule handleServerHello_Inr)
  let ?c = "clientHelloContext psk roomId (sh_serverID hs) p"
  from v have n: "ServerIDFromPublicKey (hl_C W) (psk_ServerPublicKey psk) = Inr (sh_serverID hs)" "ValidateClientID (psk_ClientID psk) = Inr ()"
    and p: "pl_ClientNonce p = ch_nonce attempt" "pl_ClientEphemeralKey p = ch_publicKey attempt"
    and sig: "VerifyServerHello (hl_C W) (psk_ServerPublicKey psk) ?c (pl_Signature p)"
    by (auto elim: verifyServerHello_Inr)
  have valid: "validateServerHelloTranscript ?c = Inr ()" and ver: "ed25519_Verify (hl_L W) (psk_ServerPublicKey psk) (serverHelloTranscript ?c) (pl_Signature p)"
    using sig by (auto simp: VerifyServerHello_def crypto_lib.defs split: if_split_asm sum.split_asm)
  have "length (sh_serverID hs) = 64"
    using n(1) short(2) length_hex [of "sha256 (hl_L W) (psk_ServerPublicKey psk)"]
    by (auto simp: ServerIDFromPublicKey_def crypto_lib.defs split: if_split_asm)
  then have "short_context ?c"
    using n(2) short(1) by (auto simp: short_context_def clientHelloContext_def ValidateClientID_def MaxClientIDLength_def split: if_split_asm)
  moreover obtain c where c: "c \<in> issued" "serverHelloTranscript ?c = serverHelloTranscript c" using unforged v ver by blast
  ultimately have "?c = c" using transcript_inj [OF _ _ valid] issued by blast
  moreover have "?c\<lparr>hc_clientNonce := ch_nonce attempt, hc_clientEphemeralKey := ch_publicKey attempt\<rparr> = ?c" by (simp add: clientHelloContext_def p)
  ultimately show ?thesis using c(1) d e p by (intro bexI [of _ ?c]) (auto simp: clientHelloContext_def)
qed

text \<open>The answer of the sample server: its holder signed the one context that the client checks.\<close>

theorem ServerHello_authentic_witness:
  "\<exists>attempt data hs (c :: hello_context). hello_lib_ok meeting_lib \<and>
     handleServerHello meeting_lib meeting_psk ''room'' meeting_client (steady_random 6) data attempt = Inr hs \<and>
     hc_roomID c = ''room'' \<and> hc_clientID c = ''c'' \<and> hc_clientNonce c = ch_nonce attempt \<and> hc_clientEphemeralKey c = ch_publicKey attempt"
proof -
  obtain attempt data hs where h: "handleServerHello meeting_lib meeting_psk ''room'' meeting_client (steady_random 6) data attempt = Inr hs"
    by (rule meeting_exchanged)
  obtain p where p: "verifyServerHello meeting_lib meeting_psk ''room'' meeting_client (steady_random 6 0) data attempt = Inr (sh_serverID hs, p)"
    using h by (rule handleServerHello_Inr)
  let ?c = "clientHelloContext meeting_psk ''room'' (sh_serverID hs) p"
  have sid: "sh_serverID hs = replicate 64 (CHR ''0'')"
    using h by (auto elim!: handleServerHello_Inr verifyServerHello_Inr
        simp: ServerIDFromPublicKey_def meeting_lib_def sum_lib_def symbolic_lib_def crypto_lib.defs meeting_id split: if_split_asm)
  have "short_context ?c" by (simp add: short_context_def clientHelloContext_def meeting_psk_def sid)
  moreover have "validateServerHelloTranscript ?c = Inr ()"
    using p by (auto elim!: verifyServerHello_Inr simp: VerifyServerHello_def split: if_split_asm sum.split_asm)
  ultimately have "\<exists>c \<in> {?c}. hc_roomID c = ''room'' \<and> hc_clientID c = psk_ClientID meeting_psk \<and> hc_serverID c = sh_serverID hs \<and>
    hc_clientNonce c = ch_nonce attempt \<and> hc_clientEphemeralKey c = ch_publicKey attempt \<and>
    (\<exists>pub secret. hl_NewPublicKey meeting_lib (hc_serverEphemeralKey c) = Inr pub \<and> hl_ECDH meeting_lib (ch_privateKey attempt) pub = Inr secret \<and>
       DeriveSessionKey (hl_C meeting_lib) (psk_Key meeting_psk) secret c = Inr (sc_sessionKey (sh_codec hs)))"
    using p by (intro ServerHello_authentic [OF h]) (simp_all add: meeting_lib_def sum_lib_def symbolic_lib_def crypto_lib.defs)
  moreover have "psk_ClientID meeting_psk = ''c''" by (simp add: meeting_psk_def)
  ultimately have "hc_roomID ?c = ''room'' \<and> hc_clientID ?c = ''c'' \<and> hc_clientNonce ?c = ch_nonce attempt \<and> hc_clientEphemeralKey ?c = ch_publicKey attempt"
    by simp
  with h meeting_lib_ok show ?thesis by blast
qed

end
