(* ===== verification/Hello_Replay.thy ===== *)
theory Hello_Replay
  imports Hello_Samples
begin

text \<open>
  What the server's checks of a client hello achieve: a new session was asked for by the holder of the
  client's key, a hello whose nonce is remembered changes nothing, and within the limits of the nonce cache
  no hello is accepted twice.
\<close>

section \<open>The proof of the client\<close>

text \<open>
  C4. A session is only created for a client that knows its key. If handleClientHello allocates a
  connection, the packet holds a payload that was sealed under the hello key which is derived from the key
  registered for this client, from the room, the client, the server and the nonce, with the header as additional data. That payload
  names the room and the client, and the nonce and ephemeral key of the connection are the ones in it.
\<close>

theorem ClientHello_authentic:
  assumes L: "lib_ok (hl_L W)" and t: "table_in_store s"
    and h: "handleClientHello W C inp s data = Some (Inr (Some q), s')" and q: "q = length (sv_heap s)"
  shows "\<exists>key k A chunks headerBytes payloadBytes p nonce. serverKey s (cn_sourceId (conn_at s' q)) = Inr key \<and>
    DeriveClientHelloKey (hl_C W) key (api_RoomId (sv_api s)) (cn_sourceId (conn_at s' q)) (sv_serverId s) (cn_clientNonce (conn_at s' q)) = Inr k \<and>
    aead_for (hl_L W) (so_EncryptionType (sv_options s)) k = Inr A \<and>
    Chunks_Decode (hl_G W) data = Inr chunks \<and> Payload_Unmarshal (hl_G W) payloadBytes = Inr p \<and>
    chunks ! 1 = nonce @ Seal A nonce payloadBytes (buildAdditionalData (so_EncryptionAAD (sv_options s)) aadDomainPayload headerBytes) \<and>
    pl_HandshakeRoomID p = api_RoomId (sv_api s) \<and> pl_HandshakeClientID p = cn_sourceId (conn_at s' q) \<and>
    pl_ClientNonce p = cn_clientNonce (conn_at s' q) \<and> pl_ClientEphemeralKey p = cn_clientEphemeralKey (conn_at s' q)"
proof -
  obtain header key pl pub where v: "verifyClientHello W inp s header data = (Inr (key, pl, pub), s)"
    and c: "createSession W (hi_random inp) s (hd_SourceId header) key pl pub = Inr (conn_at s' q)"
    using handleClientHello_new [OF h [unfolded q] t] unfolding q by metis
  from v have key: "serverKey s (hd_SourceId header) = Inr key" and o: "openClientHello W (hi_random inp 0) s header key data = Inr (pl, pub)"
    and n: "hd_HandshakeNonce header = pl_ClientNonce pl" by (auto elim: verifyClientHello_Inr)
  from o obtain k cd msg where k: "DeriveClientHelloKey (hl_C W) key (api_RoomId (sv_api s)) (hd_SourceId header) (sv_serverId s) (hd_HandshakeNonce header) = Inr k"
    "NewCodec (hl_L W) (hi_random inp 0) (so_EncryptionType (sv_options s)) k (so_EncryptionAAD (sv_options s)) = Inr cd"
    "Codec_DecodeMessage (hl_G W) cd data = Inr msg" "pl = the (msg_Payload msg)"
    "pl_HandshakeRoomID pl = api_RoomId (sv_api s)" "pl_HandshakeClientID pl = hd_SourceId header"
    by (rule openClientHello_Inr)
  obtain kit where A: "aead_for (hl_L W) (so_EncryptionType (sv_options s)) k = Inr (kit_aead kit)" using k(2) by (rule NewCodec_Inr)
  from c have f: "cn_sourceId (conn_at s' q) = hd_SourceId header" "cn_clientNonce (conn_at s' q) = pl_ClientNonce pl"
    "cn_clientEphemeralKey (conn_at s' q) = pl_ClientEphemeralKey pl" by (auto elim: createSession_Inr)
  from DecodeMessage_sealed [OF L k(2) A k(3)] obtain chunks headerBytes payloadBytes nonce where
    "Chunks_Decode (hl_G W) data = Inr chunks" "Payload_Unmarshal (hl_G W) payloadBytes = Inr pl"
    "chunks ! 1 = nonce @ Seal (kit_aead kit) nonce payloadBytes (buildAdditionalData (so_EncryptionAAD (sv_options s)) aadDomainPayload headerBytes)"
    unfolding k(4) by blast
  with key k A f n show ?thesis by metis
qed

section \<open>A remembered nonce\<close>

definition nonce_known :: "'c lru_lib \<Rightarrow> hello_inputs \<Rightarrow> 'c server \<Rightarrow> bytes \<Rightarrow> bool" where
  "nonce_known C inp s nonce \<longleftrightarrow>
     (case fst (lru_Get C (sv_nonceCache s) nonce) of None \<Rightarrow> False
      | Some t \<Rightarrow> time_Sub (hi_nonceNow inp) (t * millisecond) < so_ReplayProtection (sv_options s))"

lemma isNonceAvailable_known:
  "isNonceAvailable C inp s nonce =
     (if nonce_known C inp s nonce then (False, s\<lparr>sv_nonceCache := snd (lru_Get C (sv_nonceCache s) nonce)\<rparr>)
      else (True, s\<lparr>sv_nonceCache := lru_Add C (snd (lru_Get C (sv_nonceCache s) nonce)) nonce (time_UnixMilli (hi_cacheNow inp))\<rparr>))"
  by (cases "lru_Get C (sv_nonceCache s) nonce") (auto simp: isNonceAvailable_def nonce_known_def Let_def split: option.splits)

lemma known_nonce_harmless:
  assumes "Codec_DecodeMessageHeader (hl_G W) zero_codec data = Inr header" and "nonce_known C inp s (hd_HandshakeNonce header)"
  shows "\<exists>r s'. handleClientHello W C inp s data = Some (r, s') \<and> sv_heap s' = sv_heap s \<and> sv_connections s' = sv_connections s \<and>
    sv_totalConnections s' = sv_totalConnections s \<and> sv_pendingHandshakes s' = sv_pendingHandshakes s \<and> sv_acceptCh s' = sv_acceptCh s \<and>
    (\<forall>q. r = Inr (Some q) \<longrightarrow> sv_connections s (hd_SourceId header) = Some q \<and> isPending s q)"
proof (cases "hd_TargetId header = [] \<and> hd_Type header = ClientHello")
  case False
  with assms(1) show ?thesis by (auto simp: handleClientHello_def)
next
  case True
  obtain r s1 where v: "verifyClientHello W inp s header data = (r, s1)" by fastforce
  show ?thesis
  proof (cases r)
    case (Inl err)
    with v verifyClientHello_frame [OF v] have "\<exists>es. s1 = emit s es \<or> s1 = s" by auto
    then show ?thesis using assms(1) True v Inl by (auto simp: handleClientHello_def emit_def)
  next
    case (Inr x)
    obtain key p pub where x: "x = (key, p, pub)" by (cases x)
    with v Inr have s1: "s1 = s" and n: "hd_HandshakeNonce header = pl_ClientNonce p"
      using verifyClientHello_frame [OF v] by (auto elim: verifyClientHello_Inr)
    let ?e = "sv_connections s (hd_SourceId header)"
    let ?s2 = "s\<lparr>sv_nonceCache := snd (lru_Get C (sv_nonceCache s) (pl_ClientNonce p))\<rparr>"
    have "prepareClientHello C inp s ?e (pl_ClientNonce p) (pl_ClientEphemeralKey p) = Some (Inr True, s) \<and> (\<exists>q. ?e = Some q \<and> isPending s q) \<or>
        prepareClientHello C inp s ?e (pl_ClientNonce p) (pl_ClientEphemeralKey p) = Some (Inl errReplayedClientHello, ?s2)"
      using assms(2) by (auto simp: prepareClientHello_def isNonceAvailable_known n Let_def split: option.splits)
    then show ?thesis using assms(1) True v Inr x s1 by (auto simp: handleClientHello_def)
  qed
qed

text \<open>
  C19. A replayed hello is harmless. If the nonce that a packet claims is in the cache and younger than the
  protection time, handling the packet, whatever it holds, does not panic, creates and closes no connection and leaves the table,
  the counters and the accept queue as they are. It gives no connection, or the one
  that is still waiting for its transport under this client's name.
\<close>

theorem replayed_hello_harmless:
  assumes "Codec_DecodeMessageHeader (hl_G W) zero_codec data = Inr header" and "nonce_known C inp s (hd_HandshakeNonce header)"
  shows "\<exists>r s'. handleClientHello W C inp s data = Some (r, s') \<and> sv_heap s' = sv_heap s \<and> sv_connections s' = sv_connections s \<and>
    sv_totalConnections s' = sv_totalConnections s \<and> sv_pendingHandshakes s' = sv_pendingHandshakes s \<and> sv_acceptCh s' = sv_acceptCh s \<and>
    (\<forall>q. r = Inr (Some q) \<longrightarrow> sv_connections s (hd_SourceId header) = Some q \<and> isPending s q)"
  by (rule known_nonce_harmless [OF assms])

section \<open>The cache over time\<close>

text \<open>What the operations do to the nonce cache and to the setup of the server.\<close>

definition cache_step :: "'c lru_lib \<Rightarrow> hello_inputs \<Rightarrow> 'c server \<Rightarrow> 'c server \<Rightarrow> bool" where
  "cache_step C inp s s' \<longleftrightarrow> same_setup s s' \<and>
     (sv_nonceCache s' = sv_nonceCache s \<or> (\<exists>n. sv_nonceCache s' = sv_nonceCache (snd (isNonceAvailable C inp s n))))"

lemma cache_step_then:
  "cache_step C inp s s' \<Longrightarrow> same_setup s' s'' \<Longrightarrow> sv_nonceCache s'' = sv_nonceCache s' \<Longrightarrow> cache_step C inp s s''"
  by (auto simp: cache_step_def same_setup_def)

lemma prepareClientHello_cache:
  assumes "prepareClientHello C inp s existing n k = Some (r, s')"
  shows "cache_step C inp s s'"
proof -
  obtain b s1 where i: "isNonceAvailable C inp s n = (b, s1)" by fastforce
  have "cache_step C inp s s1" using isNonceAvailable_frame [OF i] i by (auto simp: cache_step_def same_setup_def intro!: exI [of _ n])
  moreover have "cache_step C inp s s" by (simp add: cache_step_def)
  ultimately show ?thesis
    using assms i by (auto simp: prepareClientHello_def split: if_split_asm option.split_asm dest!: Connection_Close_frame intro: cache_step_then)
qed

lemma handleClientHello_cache:
  assumes "handleClientHello W C inp s data = Some (r, s')"
  shows "cache_step C inp s s'"
proof -
  have refl: "cache_step C inp s s" by (simp add: cache_step_def)
  note after = cache_step_then [OF prepareClientHello_cache]
  show ?thesis
  proof (cases "Codec_DecodeMessageHeader (hl_G W) zero_codec data")
    case (Inl err)
    with assms refl show ?thesis by (simp add: handleClientHello_def)
  next
    case header: (Inr header)
    obtain v s1 where v: "verifyClientHello W inp s header data = (v, s1)" by fastforce
    show ?thesis
    proof (cases "(hd_TargetId header = [] \<and> hd_Type header = ClientHello) \<and> (\<exists>x. v = Inr x)")
      case False
      with assms header v refl verifyClientHello_frame [OF v] show ?thesis
        by (auto simp: handleClientHello_def intro!: cache_step_then [OF refl] split: if_split_asm sum.split_asm)
    next
      case True
      then obtain key p pub where x: "v = Inr (key, p, pub)" by (metis prod_cases3)
      with v verifyClientHello_frame [OF v] have s1: "s1 = s" by simp
      let ?p = "prepareClientHello C inp s (sv_connections s (hd_SourceId header)) (pl_ClientNonce p) (pl_ClientEphemeralKey p)"
      obtain r2 s2 where p: "?p = Some (r2, s2)" using assms header True v x s1 by (cases ?p) (auto simp: handleClientHello_def Let_def)
      obtain b s3 where b: "reserveConnection s2 = (b, s3)" by fastforce
      from assms header True v x s1 p b have "same_setup s2 s' \<and> sv_nonceCache s' = sv_nonceCache s2"
        using reserveConnection_frame [OF b]
        by (cases r2; cases b) (auto simp: handleClientHello_def reject_def addTotal_def addPending_def same_setup_def emit_def Let_def
            split: sum.split_asm bool.split_asm if_split_asm)
      then show ?thesis using after [OF p] by blast
    qed
  qed
qed

lemma onHello_cache:
  assumes "onHello W C inp s data = Some s'"
  shows "cache_step C inp s s'"
proof (cases "hi_allow inp")
  case False
  with assms show ?thesis by (simp add: onHello_def cache_step_def)
next
  case True
  then obtain r s1 where h: "handleClientHello W C inp s data = Some (r, s1)"
    using assms by (auto simp: onHello_def split: option.split_asm)
  have send: "same_setup s2 (snd (sendServerHello W inp s2 q)) \<and> sv_nonceCache (snd (sendServerHello W inp s2 q)) = sv_nonceCache s2" for s2 q
    by (auto simp: sendServerHello_def Let_def same_setup_def emit_def split: option.split sum.split prod.split)
  have pre: "same_setup s2 (startHandshakeTimer s2 q) \<and> sv_nonceCache (startHandshakeTimer s2 q) = sv_nonceCache s2" for s2 :: "'a server" and q
    by (simp add: startHandshakeTimer_def)
  have "same_setup s1 s' \<and> sv_nonceCache s' = sv_nonceCache s1"
  proof (cases "\<exists>q. r = Inr (Some q)")
    case False
    with assms True h show ?thesis by (auto simp: onHello_def split: sum.split_asm option.split_asm)
  next
    case True
    then obtain q where r: "r = Inr (Some q)" by blast
    obtain b s2 where set: "setConnection s1 (Some q) = (b, s2)" by fastforce
    then have s2: "same_setup s1 s2 \<and> sv_nonceCache s2 = sv_nonceCache s1" by (auto simp: setConnection_def same_setup_def split: if_split_asm)
    obtain e s3 where s3: "sendServerHello W inp (startHandshakeTimer s2 q) (Some q) = (e, s3)" by fastforce
    with send [of "startHandshakeTimer s2 q" "Some q"] pre [of s2 q] s2 have s3': "same_setup s1 s3 \<and> sv_nonceCache s3 = sv_nonceCache s1"
      by (auto simp: same_setup_def)
    from assms \<open>hi_allow inp\<close> h r set s3 s2 s3' show ?thesis
      by (auto simp: onHello_def same_setup_def split: bool.split_asm option.split_asm dest!: Connection_Close_frame)
  qed
  then show ?thesis using cache_step_then [OF handleClientHello_cache [OF h]] by blast
qed

text \<open>
  golang-lru, as documented: the entries in order of use, of which \<open>contents\<close> is the view; Get moves an entry to the
  front, Add puts one there and drops what exceeds the capacity.
\<close>

definition lru_ok :: "('c \<Rightarrow> (bytes \<times> int) list) \<Rightarrow> 'c lru_lib \<Rightarrow> nat \<Rightarrow> bool" where
  "lru_ok contents C cap \<longleftrightarrow>
     (\<forall>c k. fst (lru_Get C c k) = map_of (contents c) k \<and>
        contents (snd (lru_Get C c k)) =
          (case map_of (contents c) k of None \<Rightarrow> contents c | Some v \<Rightarrow> (k, v) # filter (\<lambda>e. fst e \<noteq> k) (contents c))) \<and>
     (\<forall>c k v. contents (lru_Add C c k v) = take cap ((k, v) # filter (\<lambda>e. fst e \<noteq> k) (contents c)))"

lemma list_lru_ok: "lru_ok (\<lambda>c. c) (list_lru n) n"
  by (auto simp: lru_ok_def list_lru_def split: option.splits)

text \<open>The nonce is remembered with a time not before \<open>t\<close>, and fewer than \<open>k\<close> other nonces were used since.\<close>

definition remembered :: "('c \<Rightarrow> (bytes \<times> int) list) \<Rightarrow> 'c \<Rightarrow> bytes \<Rightarrow> int \<Rightarrow> nat \<Rightarrow> bool" where
  "remembered contents c nonce t k \<longleftrightarrow>
     (\<exists>xs v ys. contents c = xs @ (nonce, v) # ys \<and> nonce \<notin> fst ` set xs \<and> length xs \<le> k \<and> time_UnixMilli t \<le> v)"

lemma map_of_prefix: "nonce \<notin> fst ` set xs \<Longrightarrow> map_of (xs @ (nonce, v) # ys) nonce = Some v"
  by (induction xs) auto

lemma filter_used:
  "\<exists>xs'. n \<noteq> nonce \<longrightarrow> filter (\<lambda>e. fst e \<noteq> n) (xs @ (nonce, v) # ys) = xs' @ (nonce, v) # filter (\<lambda>e. fst e \<noteq> n) ys \<and>
     set xs' \<subseteq> set xs \<and> length xs' \<le> length xs"
  by (intro exI [of _ "filter (\<lambda>e. fst e \<noteq> n) xs"]) auto

lemma remembered_step:
  assumes C: "lru_ok contents C cap" and r: "remembered contents (sv_nonceCache s) nonce t k" and k: "Suc k < cap" and t: "t \<le> hi_cacheNow inp"
  shows "remembered contents (sv_nonceCache (snd (isNonceAvailable C inp s n))) nonce t (Suc k)"
proof -
  obtain xs v ys where c: "contents (sv_nonceCache s) = xs @ (nonce, v) # ys" "nonce \<notin> fst ` set xs" "length xs \<le> k" "time_UnixMilli t \<le> v"
    using r by (auto simp: remembered_def)
  let ?f = "filter (\<lambda>e. fst e \<noteq> n)"
  have get: "contents (snd (lru_Get C (sv_nonceCache s) n)) =
      (case map_of (contents (sv_nonceCache s)) n of None \<Rightarrow> contents (sv_nonceCache s) | Some w \<Rightarrow> (n, w) # ?f (contents (sv_nonceCache s)))"
    and add: "contents (lru_Add C c' m w) = take cap ((m, w) # filter (\<lambda>e. fst e \<noteq> m) (contents c'))" for c' m w
    using C unfolding lru_ok_def by blast+
  have idem: "?f (contents (snd (lru_Get C (sv_nonceCache s) n))) = ?f (contents (sv_nonceCache s))"
    unfolding get by (auto split: option.split)
  have mono: "time_UnixMilli t \<le> time_UnixMilli (hi_cacheNow inp)" using t by (simp add: time_UnixMilli_def zdiv_mono1)
  show ?thesis
  proof (cases "n = nonce")
    case True
    have "\<exists>v ys. contents (sv_nonceCache (snd (isNonceAvailable C inp s n))) = (nonce, v) # ys \<and> time_UnixMilli t \<le> v"
      using get k True mono c(4) map_of_prefix [OF c(2), of v ys]
      by (cases cap) (auto simp: isNonceAvailable_known add c(1))
    then show ?thesis unfolding remembered_def by (metis append_Nil empty_iff image_empty le0 list.set(1) list.size(3))
  next
    case False
    obtain xs' where x: "?f (contents (sv_nonceCache s)) = xs' @ (nonce, v) # ?f ys" "set xs' \<subseteq> set xs" "length xs' \<le> length xs"
      using filter_used [of n nonce xs v ys] False c(1) by auto
    then have x': "nonce \<notin> fst ` set xs'" using c(2) by blast
    have front: "remembered contents c' nonce t (Suc k)" if "contents c' = (n, w) # xs' @ (nonce, v) # zs" for c' w zs
      unfolding remembered_def using that x' x(3) c(3,4) False
      by (intro exI [of _ "(n, w) # xs'"] exI [of _ v] exI [of _ zs]) auto
    have get': "remembered contents (snd (lru_Get C (sv_nonceCache s) n)) nonce t (Suc k)"
    proof (cases "map_of (contents (sv_nonceCache s)) n")
      case None
      then have "contents (snd (lru_Get C (sv_nonceCache s) n)) = xs @ (nonce, v) # ys" unfolding get c(1) [symmetric] by simp
      with c(2-4) show ?thesis unfolding remembered_def by (metis le_SucI)
    next
      case (Some w)
      then show ?thesis by (intro front) (simp add: get x(1))
    qed
    have "take cap ((n, w) # xs' @ (nonce, v) # ?f ys) = (n, w) # xs' @ (nonce, v) # take (cap - (length xs' + 2)) (?f ys)" for w
      using k x(3) c(3) by (cases cap) (auto simp: take_Cons' not_le)
    then have "remembered contents (lru_Add C (snd (lru_Get C (sv_nonceCache s) n)) n w) nonce t (Suc k)" for w
      by (intro front) (simp add: add idem x(1))
    with get' show ?thesis by (simp add: isNonceAvailable_known)
  qed
qed

section \<open>No hello is accepted twice\<close>

text \<open>
  A server that handles \<open>n\<close> hellos, its clock being at \<open>t\<close> or later, and in between does anything else: no other operation
  touches the cache, the options or the identity.
\<close>

inductive serves :: "hello_lib \<Rightarrow> 'c lru_lib \<Rightarrow> int \<Rightarrow> nat \<Rightarrow> 'c server \<Rightarrow> 'c server \<Rightarrow> bool" for W C t where
  serves_refl: "serves W C t 0 s s"
| serves_hello: "serves W C t n s s' \<Longrightarrow> onHello W C inp s' data = Some s'' \<Longrightarrow> t \<le> hi_cacheNow inp \<Longrightarrow> serves W C t (Suc n) s s''"
| serves_other: "serves W C t n s s' \<Longrightarrow> same_setup s' s'' \<Longrightarrow> sv_nonceCache s'' = sv_nonceCache s' \<Longrightarrow> serves W C t n s s''"

lemma serves_remembered:
  assumes "serves W C t n s s'" and C: "lru_ok contents C cap" and "remembered contents (sv_nonceCache s) nonce t 0" and "n < cap"
  shows "remembered contents (sv_nonceCache s') nonce t n \<and> same_setup s s'"
  using assms(1,3,4)
proof induction
  case (serves_hello n s s' inp data s'')
  then have r: "remembered contents (sv_nonceCache s') nonce t n" and ss: "same_setup s s'" by simp_all
  have "remembered contents (sv_nonceCache s') nonce t (Suc n)" using r unfolding remembered_def by (metis le_SucI)
  with onHello_cache [OF serves_hello.hyps(2)] remembered_step [OF C r serves_hello.prems(2) serves_hello.hyps(3)] ss
  show ?case by (auto simp: cache_step_def same_setup_def)
qed (auto simp: same_setup_def)

lemma accepted_is_remembered:
  assumes C: "lru_ok contents C cap" "0 < cap" and p: "prepareClientHello C inp s existing nonce key = Some (Inr False, s')"
  shows "remembered contents (sv_nonceCache s') nonce (hi_cacheNow inp) 0" and "\<not> nonce_known C inp s nonce"
proof -
  show nk: "\<not> nonce_known C inp s nonce"
    using p by (auto simp: prepareClientHello_def isNonceAvailable_known split: if_split_asm)
  let ?c = "lru_Add C (snd (lru_Get C (sv_nonceCache s) nonce)) nonce (time_UnixMilli (hi_cacheNow inp))"
  have "sv_nonceCache s' = ?c"
    using p nk by (auto simp: prepareClientHello_def isNonceAvailable_known split: if_split_asm option.split_asm dest!: Connection_Close_frame)
  moreover have "\<exists>ys. contents ?c = (nonce, time_UnixMilli (hi_cacheNow inp)) # ys" using C by (cases cap) (auto simp: lru_ok_def)
  ultimately show "remembered contents (sv_nonceCache s') nonce (hi_cacheNow inp) 0" by (fastforce simp: remembered_def)
qed

lemma remembered_known:
  assumes C: "lru_ok contents C cap" and r: "remembered contents (sv_nonceCache s) nonce t k"
    and young: "hi_nonceNow inp - t + millisecond \<le> so_ReplayProtection (sv_options s)" and pos: "0 \<le> so_ReplayProtection (sv_options s)"
  shows "nonce_known C inp s nonce"
proof -
  obtain xs v ys where c: "contents (sv_nonceCache s) = xs @ (nonce, v) # ys" "nonce \<notin> fst ` set xs" "time_UnixMilli t \<le> v"
    using r by (auto simp: remembered_def)
  have "fst (lru_Get C (sv_nonceCache s) nonce) = Some v" using C map_of_prefix [OF c(2), of v ys] by (simp add: lru_ok_def c(1))
  moreover have "t - millisecond < time_UnixMilli t * millisecond"
    using div_mult_mod_eq [of t "10 ^ 6"] pos_mod_bound [of "10 ^ 6" t] by (simp add: time_UnixMilli_def millisecond_def)
  then have "t - millisecond < v * millisecond" using c(3) mult_right_mono [of "time_UnixMilli t" v millisecond] by (simp add: millisecond_def)
  then have "time_Sub (hi_nonceNow inp) (v * millisecond) < so_ReplayProtection (sv_options s)"
    using young pos by (auto simp: time_Sub_def)
  ultimately show ?thesis by (simp add: nonce_known_def)
qed

text \<open>The payload that a server reads from a packet depends on its setup only, not on randomness.\<close>

lemma same_payload:
  assumes "verifyClientHello W inp s header data = (Inr (key, p, pub), s1)" and "verifyClientHello W inp' s' header data = (Inr (key', p', pub'), s1')"
    and "same_setup s s'"
  shows "p = p'"
proof -
  have e: "sv_options s' = sv_options s" "sv_api s' = sv_api s" "sv_serverId s' = sv_serverId s" using assms(3) by (simp_all add: same_setup_def)
  have k: "serverKey s (hd_SourceId header) = Inr key" "openClientHello W (hi_random inp 0) s header key data = Inr (p, pub)"
    using assms(1) by (auto elim: verifyClientHello_Inr)
  have k': "serverKey s' (hd_SourceId header) = Inr key'" "openClientHello W (hi_random inp' 0) s' header key' data = Inr (p', pub')"
    using assms(2) by (auto elim: verifyClientHello_Inr)
  have key: "key' = key" using k(1) k'(1) by (simp add: serverKey_def e)
  let ?d = "DeriveClientHelloKey (hl_C W) key (api_RoomId (sv_api s)) (hd_SourceId header) (sv_serverId s) (hd_HandshakeNonce header)"
  let ?n = "\<lambda>rnd k. NewCodec (hl_L W) rnd (so_EncryptionType (sv_options s)) k (so_EncryptionAAD (sv_options s))"
  obtain hk c msg where c: "?d = Inr hk" "?n (hi_random inp 0) hk = Inr c" "Codec_DecodeMessage (hl_G W) c data = Inr msg" "p = the (msg_Payload msg)"
    using k(2) by (rule openClientHello_Inr)
  obtain hk' c' msg' where c': "?d = Inr hk'" "?n (hi_random inp' 0) hk' = Inr c'" "Codec_DecodeMessage (hl_G W) c' data = Inr msg'" "p' = the (msg_Payload msg')"
    using k'(2) unfolding key by (rule openClientHello_Inr) (simp only: e)
  from c(1) c'(1) have "hk' = hk" by simp
  with NewCodec_decode_same [OF c(2), of "hi_random inp' 0" c' "hl_G W" data] c'(2,3,4) c(3,4) show ?thesis by simp
qed

text \<open>
  C3. No client hello opens two sessions. A packet opened a session at one time. The server goes on, with at most
  as many further hellos as the cache holds nonces less one, and with a clock that does not run backwards. If the
  protection time covers twice the clock skew, one millisecond and the time between the two readings of the clock for the replay, then the
  same packet opens no session again.
\<close>

theorem hello_accepted_once:
  assumes C: "lru_ok contents C cap" and t: "table_in_store s"
    and first: "handleClientHello W C inp s data = Some (Inr (Some (length (sv_heap s))), s1)" and clock: "hi_now inp \<le> hi_cacheNow inp"
    and run: "serves W C (hi_cacheNow inp) n s1 s2" "n < cap" and t2: "table_in_store s2"
    and again: "handleClientHello W C inp' s2 data = Some (r, s3)" and clock': "hi_nonceNow inp' \<le> hi_now inp' + delay"
    and skew: "0 \<le> so_ClockSkew (sv_options s)" "so_ClockSkew (sv_options s) < 2 ^ 63 - 1" "0 \<le> delay"
    and protect: "2 * so_ClockSkew (sv_options s) + delay + millisecond \<le> so_ReplayProtection (sv_options s)"
  shows "r \<noteq> Inr (Some (length (sv_heap s2)))"
proof
  assume r: "r = Inr (Some (length (sv_heap s2)))"
  obtain header key pl pub sa where a: "Codec_DecodeMessageHeader (hl_G W) zero_codec data = Inr header"
    "verifyClientHello W inp s header data = (Inr (key, pl, pub), s)"
    "prepareClientHello C inp s (sv_connections s (hd_SourceId header)) (pl_ClientNonce pl) (pl_ClientEphemeralKey pl) = Some (Inr False, sa)"
    "same_setup s s1" "sv_nonceCache s1 = sv_nonceCache sa"
    using handleClientHello_new [OF first t] by metis
  obtain key' pl' pub' sb where b: "verifyClientHello W inp' s2 header data = (Inr (key', pl', pub'), s2)"
    "prepareClientHello C inp' s2 (sv_connections s2 (hd_SourceId header)) (pl_ClientNonce pl') (pl_ClientEphemeralKey pl') = Some (Inr False, sb)"
    using handleClientHello_new [OF again [unfolded r] t2] a(1) by (metis sum.inject(2))
  have cap: "0 < cap" using run(2) by simp
  have "remembered contents (sv_nonceCache s1) (pl_ClientNonce pl) (hi_cacheNow inp) 0"
    using accepted_is_remembered(1) [OF C cap a(3)] a(5) by simp
  from serves_remembered [OF run(1) C this run(2)] have rem: "remembered contents (sv_nonceCache s2) (pl_ClientNonce pl) (hi_cacheNow inp) n"
    and ss: "same_setup s s2" using a(4) by (auto simp: same_setup_def)
  have pl: "pl' = pl" using same_payload [OF a(2) b(1) ss] by simp
  have opts: "sv_options s2 = sv_options s" using ss by (simp add: same_setup_def)
  let ?k = "so_ClockSkew (sv_options s)"
  have w: "wrap64 (- ?k) = - ?k" using skew by (intro wrap64_id) auto
  obtain ts where ts: "hl_Parse W (pl_Timestamp pl) = Some ts" "wrap64 (- ?k) \<le> time_Sub (hi_now inp) ts" using a(2) by (rule verifyClientHello_Inr)
  obtain ts' where ts': "hl_Parse W (pl_Timestamp pl') = Some ts'" "time_Sub (hi_now inp') ts' \<le> ?k" using b(1) opts by (auto elim: verifyClientHello_Inr)
  from ts(1) ts'(1) pl have "ts' = ts" by simp
  with ts(2) ts'(2) w skew have "hi_now inp' - hi_now inp \<le> 2 * ?k" by (auto simp: time_Sub_def split: if_split_asm)
  then have "hi_nonceNow inp' - hi_cacheNow inp + millisecond \<le> so_ReplayProtection (sv_options s2)"
    using clock clock' protect by (simp add: opts)
  from remembered_known [OF C rem this] have "nonce_known C inp' s2 (pl_ClientNonce pl')"
    using protect skew by (simp add: opts pl millisecond_def)
  with accepted_is_remembered(2) [OF C cap b(2)] show False by simp
qed

section \<open>A concrete replay\<close>

text \<open>The sample server accepts the sample hello at second 1 and knows its nonce at second 2.\<close>

lemma meeting_replay:
  "\<exists>attempt header s1. buildClientHello meeting_lib meeting_psk ''room'' meeting_client (steady_random 3) 0 = Inr attempt \<and>
    handleClientHello meeting_lib (list_lru 10) (meeting_inputs second) meeting_server (ch_message attempt) = Some (Inr (Some 0), s1) \<and>
    table_in_store meeting_server \<and> table_in_store s1 \<and> length (sv_heap s1) = 1 \<and>
    Codec_DecodeMessageHeader (hl_G meeting_lib) zero_codec (ch_message attempt) = Inr header \<and>
    nonce_known (list_lru 10) (meeting_inputs (2 * second)) s1 (hd_HandshakeNonce header)"
proof -
  let ?W = meeting_lib and ?s = meeting_server and ?C = "list_lru 10" and ?inp = "meeting_inputs second"
  obtain attempt where a: "buildClientHello ?W meeting_psk ''room'' meeting_client (steady_random 3) 0 = Inr attempt"
    "ch_nonce attempt = replicate 32 3" "int (length (ch_message attempt)) \<le> maxSignalingPacketSize"
    by (rule meeting_attempt)
  have w: "hello_welcome ?W ?C ?inp ?s (psk_ClientID meeting_psk) (ch_nonce attempt) 0" using meeting_welcome by (simp add: a(2) meeting_setup)
  obtain s1 where h: "handleClientHello ?W ?C ?inp ?s (ch_message attempt) = Some (Inr (Some (length (sv_heap ?s))), s1)"
    and s1: "length (sv_heap s1) = 1" "sv_connections s1 = Map.empty"
    using honest_hello_accepted [OF meeting_lib_ok meeting_total meeting_alike a(1) refl meeting_carries(1) a(3) w] unfolding meeting_setup
    by (metis One_nat_def list.size(3))
  have t: "table_in_store ?s" "table_in_store s1" using s1(2) by (simp_all add: table_in_store_def meeting_setup)
  from h t(1) obtain header key pl pub sa where n: "Codec_DecodeMessageHeader (hl_G ?W) zero_codec (ch_message attempt) = Inr header"
    "verifyClientHello ?W ?inp ?s header (ch_message attempt) = (Inr (key, pl, pub), ?s)"
    "prepareClientHello ?C ?inp ?s (sv_connections ?s (hd_SourceId header)) (pl_ClientNonce pl) (pl_ClientEphemeralKey pl) = Some (Inr False, sa)"
    "same_setup ?s s1" "sv_nonceCache s1 = sv_nonceCache sa" by (rule handleClientHello_new)
  have "hd_HandshakeNonce header = pl_ClientNonce pl" using n(2) by (rule verifyClientHello_Inr)
  moreover have "nonce_known ?C (meeting_inputs (2 * second)) s1 (pl_ClientNonce pl)"
  proof (rule remembered_known [OF list_lru_ok])
    show "remembered (\<lambda>c. c) (sv_nonceCache s1) (pl_ClientNonce pl) (hi_cacheNow ?inp) 0"
      using accepted_is_remembered(1) [OF list_lru_ok _ n(3)] n(5) by simp
  qed (use n(4) in \<open>simp_all add: same_setup_def meeting_inputs_def meeting_server_def second_def millisecond_def\<close>)
  ultimately show ?thesis using a(1) t s1(1) n(1) h unfolding meeting_setup list.size by metis
qed

theorem ClientHello_authentic_witness:
  "\<exists>(attempt :: client_handshake) s1 (p :: payload) k. handleClientHello meeting_lib (list_lru 10) (meeting_inputs second) meeting_server (ch_message attempt) = Some (Inr (Some 0), s1) \<and>
     DeriveClientHelloKey (hl_C meeting_lib) (replicate 32 8) ''room'' (cn_sourceId (conn_at s1 0)) (replicate 64 (CHR ''0'')) (cn_clientNonce (conn_at s1 0)) = Inr k \<and>
     pl_HandshakeRoomID p = ''room'' \<and> pl_ClientNonce p = cn_clientNonce (conn_at s1 0)"
proof -
  obtain attempt :: client_handshake and s1 where h: "handleClientHello meeting_lib (list_lru 10) (meeting_inputs second) meeting_server (ch_message attempt) = Some (Inr (Some 0), s1)"
    and t: "table_in_store meeting_server"
    using meeting_replay by blast
  have "lib_ok (hl_L meeting_lib)" using meeting_lib_ok by (simp add: hello_lib_ok_def)
  from ClientHello_authentic [OF this t h] obtain key k and p :: payload where key: "serverKey meeting_server (cn_sourceId (conn_at s1 0)) = Inr key"
    and k: "DeriveClientHelloKey (hl_C meeting_lib) key (api_RoomId (sv_api meeting_server)) (cn_sourceId (conn_at s1 0)) (sv_serverId meeting_server)
      (cn_clientNonce (conn_at s1 0)) = Inr k"
    and p: "pl_HandshakeRoomID p = api_RoomId (sv_api meeting_server)" "pl_ClientNonce p = cn_clientNonce (conn_at s1 0)"
    unfolding meeting_setup list.size by blast
  have e: "key = replicate 32 8" "api_RoomId (sv_api meeting_server) = ''room''"
    using key by (simp_all add: serverKey_def meeting_server_def sample_server_options_def sample_api_def)
  from h k p show ?thesis unfolding meeting_server_id e by blast
qed

theorem replayed_hello_harmless_witness:
  "\<exists>(attempt :: client_handshake) s1 r s'. handleClientHello meeting_lib (list_lru 10) (meeting_inputs second) meeting_server (ch_message attempt) = Some (Inr (Some 0), s1) \<and>
     handleClientHello meeting_lib (list_lru 10) (meeting_inputs (2 * second)) s1 (ch_message attempt) = Some (r, s') \<and>
     sv_heap s' = sv_heap s1 \<and> sv_connections s' = sv_connections s1 \<and> sv_totalConnections s' = sv_totalConnections s1"
proof -
  obtain attempt :: client_handshake and header s1 where h: "handleClientHello meeting_lib (list_lru 10) (meeting_inputs second) meeting_server (ch_message attempt) = Some (Inr (Some 0), s1)"
    and k: "Codec_DecodeMessageHeader (hl_G meeting_lib) zero_codec (ch_message attempt) = Inr header"
      "nonce_known (list_lru 10) (meeting_inputs (2 * second)) s1 (hd_HandshakeNonce header)" using meeting_replay by blast
  from replayed_hello_harmless [OF k] h show ?thesis by blast
qed

theorem hello_accepted_once_witness:
  "\<exists>(attempt :: client_handshake) s1 r s3. handleClientHello meeting_lib (list_lru 10) (meeting_inputs second) meeting_server (ch_message attempt) = Some (Inr (Some 0), s1) \<and>
     handleClientHello meeting_lib (list_lru 10) (meeting_inputs (2 * second)) s1 (ch_message attempt) = Some (r, s3) \<and> r \<noteq> Inr (Some 1)"
proof -
  obtain attempt :: client_handshake and header s1 where h: "handleClientHello meeting_lib (list_lru 10) (meeting_inputs second) meeting_server (ch_message attempt) = Some (Inr (Some 0), s1)"
    and t: "table_in_store meeting_server" "table_in_store s1" "length (sv_heap s1) = 1"
    and k: "Codec_DecodeMessageHeader (hl_G meeting_lib) zero_codec (ch_message attempt) = Inr header"
      "nonce_known (list_lru 10) (meeting_inputs (2 * second)) s1 (hd_HandshakeNonce header)" using meeting_replay by blast
  obtain r s3 where r: "handleClientHello meeting_lib (list_lru 10) (meeting_inputs (2 * second)) s1 (ch_message attempt) = Some (r, s3)"
    using known_nonce_harmless [OF k] by blast
  have h': "handleClientHello meeting_lib (list_lru 10) (meeting_inputs second) meeting_server (ch_message attempt) =
      Some (Inr (Some (length (sv_heap meeting_server))), s1)" using h by (simp add: meeting_setup)
  have "r \<noteq> Inr (Some (length (sv_heap s1)))"
    by (rule hello_accepted_once [OF list_lru_ok t(1) h' _ serves_refl _ t(2) r, where delay = 0])
      (simp_all add: meeting_inputs_def meeting_server_def second_def millisecond_def)
  with h r t(3) show ?thesis by auto
qed

end
