(* ===== verification/Client_State.thy ===== *)
theory Client_State
  imports Hello
begin

text \<open>
  The client (peer/client): its record (types.go), the operations of conn.go, the messages it publishes
  (connect.go, disconnect.go), and its goroutines. Connecting (connect.go), disconnecting (disconnect.go), reading, the
  heartbeat monitor and reconnecting (reconnect.go) run concurrently, so each is a list of atomic actions: one
  access of an atomic variable, one critical section, or one call of code outside the repository.

  Objects that goroutines share are in stores: \<open>cl_handshakes\<close> lists the sessions the client has agreed on, with the
  signaling codec and the data channel of each, and \<open>cl_buffers\<close> its receive buffers; a pointer is an index. ICE agents and
  transports are handles, numbers given out in order. Closing them, callbacks and publishing are recorded in \<open>cl_log\<close>.
\<close>

section \<open>The client (types.go, new.go)\<close>

datatype client_event =
    ClTransportClosed nat
  | ClAgentClosed nat
  | ClICEConnClosed
  | ClPublish string bytes
  | ClOnClientHello
  | ClOnServerHello
  | ClOnICEOffer ice_description
  | ClOnICEAnswer ice_description
  | ClOnConnected
  | ClOnConnectionFailed go_error
  | ClOnDisconnected

record client =
  cl_clientId :: string
  cl_serverId :: string
  cl_psk :: pre_shared_key
  cl_api :: api
  cl_options :: client_options
  cl_codec :: "nat option"
  cl_signalSend :: u64
  cl_signalRecv :: replay_window
  cl_transportConn :: "nat option"
  cl_dataChannel :: "nat option"
  cl_lastTransportRead :: int
  cl_reconnectGeneration :: u64
  cl_manualDisconnect :: bool
  cl_iceAgent :: "nat option"
  cl_localAddr :: addr
  cl_remoteAddr :: addr
  cl_recvBuf :: nat
  cl_connected :: bool
  cl_connecting :: bool
  cl_writeDeadline :: "int option"
  cl_answers :: "(nat \<times> ice_description option) option"
  cl_handshakes :: "server_handshake list"
  cl_buffers :: "recv_buffer list"
  cl_handles :: nat
  cl_log :: "client_event list"

text \<open>
  \<open>cl_answers\<close> is the subscription of the connection attempt for ICE answers: the session whose codec it
  uses and the channel for one answer.
\<close>

definition NewClient :: "pre_shared_key \<Rightarrow> api option \<Rightarrow> client_options option \<Rightarrow> client result" where
  "NewClient psk a options =
     bind_result (NewClient_options psk a options) (\<lambda>options.
       Inr \<lparr>cl_clientId = psk_ClientID psk, cl_serverId = [], cl_psk = psk, cl_api = the a, cl_options = options, cl_codec = None,
         cl_signalSend = 0, cl_signalRecv = ReplayWindow_zero, cl_transportConn = None, cl_dataChannel = None, cl_lastTransportRead = 0,
         cl_reconnectGeneration = 0, cl_manualDisconnect = False, cl_iceAgent = None, cl_localAddr = zero_addr, cl_remoteAddr = zero_addr,
         cl_recvBuf = 0, cl_connected = False, cl_connecting = False, cl_writeDeadline = None, cl_answers = None, cl_handshakes = [],
         cl_buffers = [NewRecvBufferWithLimit (co_ReceiveBufferSize options)], cl_handles = 0, cl_log = []\<rparr>)"

definition logged :: "client \<Rightarrow> client_event list \<Rightarrow> client" where
  "logged c es = c\<lparr>cl_log := cl_log c @ es\<rparr>"

definition upd_buffer :: "client \<Rightarrow> nat \<Rightarrow> (recv_buffer \<Rightarrow> recv_buffer) \<Rightarrow> client" where
  "upd_buffer c b f = c\<lparr>cl_buffers := (cl_buffers c)[b := f (cl_buffers c ! b)]\<rparr>"

text \<open>The client's buffers have no budget, so closing and resetting one never panics (\<open>no_budget_no_panic\<close>).\<close>

definition closeBuffer :: "client \<Rightarrow> client" where
  "closeBuffer c = upd_buffer c (cl_recvBuf c) (\<lambda>rb. fst (the (RecvBuffer_Close rb None)))"

definition resetBuffer :: "client \<Rightarrow> client" where
  "resetBuffer c = upd_buffer c (cl_recvBuf c) (\<lambda>rb. fst (the (RecvBuffer_Reset rb None)))"

definition freshBuffer :: "client \<Rightarrow> client" where
  "freshBuffer c =
     (if RecvBuffer_IsClosed (cl_buffers c ! cl_recvBuf c)
      then c\<lparr>cl_buffers := cl_buffers c @ [NewRecvBufferWithLimit (co_ReceiveBufferSize (cl_options c))], cl_recvBuf := length (cl_buffers c)\<rparr>
      else resetBuffer c)"

definition Client_Read :: "client \<Rightarrow> int \<Rightarrow> nat \<Rightarrow> (read_result \<times> client) option" where
  "Client_Read c now n =
     map_option (\<lambda>(r, rb, b). (r, upd_buffer c (cl_recvBuf c) (\<lambda>_. rb))) (RecvBuffer_Read (cl_buffers c ! cl_recvBuf c) None now n)"

section \<open>Addresses and deadlines (conn.go)\<close>

definition Client_LocalAddr :: "client \<Rightarrow> addr" where
  "Client_LocalAddr c =
     (if RoomID (cl_localAddr c) = [] then \<lparr>RoomID = api_RoomId (cl_api c), PeerID = cl_clientId c, IP = [], Port = 0\<rparr> else cl_localAddr c)"

definition Client_RemoteAddr :: "client \<Rightarrow> addr" where
  "Client_RemoteAddr c =
     (if RoomID (cl_remoteAddr c) = [] then \<lparr>RoomID = api_RoomId (cl_api c), PeerID = cl_serverId c, IP = [], Port = 0\<rparr> else cl_remoteAddr c)"

definition Client_setPhysicalAddrs :: "client \<Rightarrow> net_addr option \<Rightarrow> net_addr option \<Rightarrow> client" where
  "Client_setPhysicalAddrs c local remote =
     c\<lparr>cl_localAddr := AddrFromNet (api_RoomId (cl_api c)) (cl_clientId c) local,
       cl_remoteAddr := AddrFromNet (api_RoomId (cl_api c)) (cl_serverId c) remote\<rparr>"

definition Client_clearPhysicalAddrs :: "client \<Rightarrow> client" where
  "Client_clearPhysicalAddrs c = c\<lparr>cl_localAddr := zero_addr, cl_remoteAddr := zero_addr\<rparr>"

definition Client_SetReadDeadline :: "client \<Rightarrow> int option \<Rightarrow> go_error option \<times> client" where
  "Client_SetReadDeadline c t = (None, upd_buffer c (cl_recvBuf c) (\<lambda>rb. RecvBuffer_SetDeadline rb t))"

definition Client_SetWriteDeadline :: "(nat \<Rightarrow> go_error option) \<Rightarrow> client \<Rightarrow> int option \<Rightarrow> go_error option \<times> client" where
  "Client_SetWriteDeadline setDeadline c t =
     (let c = c\<lparr>cl_writeDeadline := t\<rparr>
      in (case cl_transportConn c of None \<Rightarrow> (None, c) | Some h \<Rightarrow> (setDeadline h, c)))"

definition Client_SetDeadline :: "(nat \<Rightarrow> go_error option) \<Rightarrow> client \<Rightarrow> int option \<Rightarrow> go_error option \<times> client" where
  "Client_SetDeadline setDeadline c t =
     Client_SetWriteDeadline setDeadline (upd_buffer c (cl_recvBuf c) (\<lambda>rb. RecvBuffer_SetDeadline rb t)) t"

definition Client_writeTimedOut :: "client \<Rightarrow> int \<Rightarrow> bool" where
  "Client_writeTimedOut c now = (case cl_writeDeadline c of None \<Rightarrow> False | Some d \<Rightarrow> now > d)"

section \<open>Agents and transports (conn.go)\<close>

definition Client_installICEAgent :: "client \<Rightarrow> nat option \<Rightarrow> bool \<times> client" where
  "Client_installICEAgent c agent =
     (case agent of
        None \<Rightarrow> (False, c)
      | Some a \<Rightarrow>
          if \<not> cl_manualDisconnect c \<and> cl_iceAgent c = None \<and> cl_transportConn c = None
          then (True, c\<lparr>cl_iceAgent := Some a\<rparr>)
          else (False, logged c [ClAgentClosed a]))"

definition Client_setTransportConn :: "client \<Rightarrow> nat \<Rightarrow> nat option \<Rightarrow> nat option \<Rightarrow> bool \<times> client" where
  "Client_setTransportConn c agent conn dataChannel =
     (case conn of
        None \<Rightarrow> (False, c)
      | Some t \<Rightarrow>
          if \<not> cl_manualDisconnect c \<and> cl_iceAgent c = Some agent \<and> cl_transportConn c = None \<and> dataChannel \<noteq> None
          then (True, c\<lparr>cl_transportConn := Some t, cl_dataChannel := dataChannel\<rparr>)
          else (False, logged c [ClTransportClosed t]))"

definition Client_transportState :: "client \<Rightarrow> nat option \<times> nat option" where
  "Client_transportState c = (cl_transportConn c, cl_dataChannel c)"

definition Client_isCurrentTransport :: "client \<Rightarrow> nat \<Rightarrow> nat \<Rightarrow> bool" where
  "Client_isCurrentTransport c conn dataChannel \<longleftrightarrow> cl_transportConn c = Some conn \<and> cl_dataChannel c = Some dataChannel"

text \<open>The critical sections of finishTransport and of disconnect, which take the transport and the agent out of the client.\<close>

definition finish_detach :: "client \<Rightarrow> client" where
  "finish_detach c =
     c\<lparr>cl_transportConn := None, cl_dataChannel := None, cl_iceAgent := None, cl_localAddr := zero_addr, cl_remoteAddr := zero_addr\<rparr>"

definition disconnect_detach :: "client \<Rightarrow> client" where
  "disconnect_detach c = (finish_detach c)\<lparr>cl_codec := None, cl_serverId := []\<rparr>"

definition closeEvents :: "nat option \<Rightarrow> nat option \<Rightarrow> client_event list" where
  "closeEvents conn agent =
     (case conn of None \<Rightarrow> [] | Some t \<Rightarrow> [ClTransportClosed t]) @ (case agent of None \<Rightarrow> [] | Some a \<Rightarrow> [ClAgentClosed a])"

text \<open>The error that disconnect returns, when closing the handle \<open>h\<close> returns \<open>closeHandle h\<close>.\<close>

definition closeError :: "(nat \<Rightarrow> go_error option) \<Rightarrow> nat option \<Rightarrow> nat option \<Rightarrow> go_error option" where
  "closeError closeHandle conn agent =
     (let closeErr = (case conn of None \<Rightarrow> None | Some t \<Rightarrow> closeHandle t)
      in (case agent of None \<Rightarrow> closeErr | Some a \<Rightarrow> if closeErr = None then closeHandle a else closeErr))"

section \<open>Messages of a session (connect.go, disconnect.go)\<close>

text \<open>
  What the environment answers in one step: the random bytes and the clock, the error of the call that the step
  makes, the bytes, descriptions and addresses it returns, and what ends a wait. \<open>ci_still\<close> says whether a
  transport is still the current one at the second check of a round of a reader.
\<close>

datatype wait_event = Arrived | Ticked | Expired go_error

record client_inputs =
  ci_random :: "nat \<Rightarrow> random"
  ci_now :: int
  ci_err :: "go_error option"
  ci_wait :: wait_event
  ci_data :: bytes
  ci_description :: "ice_description result"
  ci_local :: "net_addr option"
  ci_remote :: "net_addr option"
  ci_still :: bool
  ci_send :: "bytes \<Rightarrow> nat \<times> go_error option"
  ci_closeHandle :: "nat \<Rightarrow> go_error option"

definition sessionMessage :: "client \<Rightarrow> string \<Rightarrow> message_type \<Rightarrow> payload \<Rightarrow> message" where
  "sessionMessage c serverID t p =
     \<lparr>msg_Header = Some (zero_header\<lparr>hd_SourceId := cl_clientId c, hd_TargetId := serverID, hd_Type := t, hd_Sequence := cl_signalSend c\<rparr>),
      msg_Payload = Some p, msg_Encrypt = False\<rparr>"

definition upd_handshake :: "client \<Rightarrow> nat \<Rightarrow> (server_handshake \<Rightarrow> server_handshake) \<Rightarrow> client" where
  "upd_handshake c k f = c\<lparr>cl_handshakes := (cl_handshakes c)[k := f (cl_handshakes c ! k)]\<rparr>"

text \<open>
  The common tail of publishDisconnect, publishTransportSelect and publishICEOffer, after the server's name and the codec,
  that of session \<open>k\<close>, were read under the lock.
\<close>

definition publishSession ::
  "hello_lib \<Rightarrow> client_inputs \<Rightarrow> client \<Rightarrow> string \<Rightarrow> nat \<Rightarrow> message_type \<Rightarrow> payload \<Rightarrow> go_error option \<times> client" where
  "publishSession W inp c serverID k t p =
     (let c = c\<lparr>cl_signalSend := cl_signalSend c + 1\<rparr>
      in (case SignalingChannel_EncodeMessage (hl_G W) (sh_codec (cl_handshakes c ! k)) (Some (sessionMessage c serverID t p)) of
            (Inl err, codec) \<Rightarrow> (Some err, upd_handshake c k (\<lambda>h. h\<lparr>sh_codec := codec\<rparr>))
          | (Inr dataBytes, codec) \<Rightarrow>
              (ci_err inp, logged (upd_handshake c k (\<lambda>h. h\<lparr>sh_codec := codec\<rparr>)) [ClPublish MessageOffer dataBytes])))"

definition transportName :: "client \<Rightarrow> string" where
  "transportName c = tr_Name (the (co_Transport (cl_options c)))"

definition offerPayload :: "ice_description \<Rightarrow> payload" where
  "offerPayload d = zero_payload\<lparr>pl_ICEUsername := UsernameFragment d, pl_ICEPassword := Password d, pl_ICECandidates := Candidates d\<rparr>"

text \<open>The handler of the subscription for ICE answers: the channel holds one answer, later ones are dropped.\<close>

definition onAnswer :: "hello_lib \<Rightarrow> client \<Rightarrow> bytes \<Rightarrow> client" where
  "onAnswer W c data =
     (case cl_answers c of
        None \<Rightarrow> c
      | Some (k, answer) \<Rightarrow>
          (case SignalingChannel_DecodeMessage (hl_G W) (sh_codec (cl_handshakes c ! k)) data of
             Inl _ \<Rightarrow> c
           | Inr msg \<Rightarrow>
               (let h = the (msg_Header msg); p = the (msg_Payload msg)
                in if hd_SourceId h \<noteq> sh_serverID (cl_handshakes c ! k) \<or> hd_TargetId h \<noteq> cl_clientId c then c
                   else (case ReplayWindow_Accept (cl_signalRecv c) (hd_Sequence h) of
                           (False, w) \<Rightarrow> c\<lparr>cl_signalRecv := w\<rparr>
                         | (True, w) \<Rightarrow>
                             (let c = c\<lparr>cl_signalRecv := w\<rparr>;
                                  d = \<lparr>UsernameFragment = pl_ICEUsername p, Password = pl_ICEPassword p, Candidates = pl_ICECandidates p\<rparr>
                              in if hd_Type h \<noteq> ICEAnswer \<or> pl_ICEUsername p = [] \<or> pl_ICEPassword p = [] then c
                                 else (case ValidateICEDescriptionLimits d (co_MaxPendingICE (cl_options c)) (co_MaxPendingICEBytes (cl_options c)) of
                                         Inl _ \<Rightarrow> c
                                       | Inr _ \<Rightarrow>
                                           logged (c\<lparr>cl_answers := Some (k, case answer of None \<Rightarrow> Some d | Some _ \<Rightarrow> answer)\<rparr>) [ClOnICEAnswer d]))))))"

section \<open>Goroutines\<close>

text \<open>
  Who called connectWithContext: the user, or the reconnect loop of a generation, which preserves the receive buffer. The
  program counters are the points of connectWithContext, disconnect, finishTransport and
  reconnectAfterTransportFailure in order, each with the local variables that the rest of the function uses.
\<close>

datatype caller = ByUser | ByReconnect u64

datatype connect_pc =
    CBegin | CReset | CSignalSend | CSignalRecv | CBuffer | CHello
  | CSubscribe client_handshake | CPublishHello client_handshake | CAwaitHello client_handshake
  | CCheckTransport nat | CSubscribeAnswer nat | CSelect nat | CSelectSend nat string nat | CRelay nat | CAgent nat | CInstall nat nat
  | CGather nat nat | COffer nat nat ice_description | COfferSend nat nat ice_description string nat
  | CAwaitAnswer nat nat | CDialICE nat nat ice_description | CAddrs nat nat "net_addr option" "net_addr option"
  | CDial nat nat | CSetTransport nat nat nat | CLastRead nat nat | CStart nat nat | CConnected | CFinish "go_error option"

datatype disconnect_pc =
    DManual | DGeneration | DIsConnected | DPublish | DPublishSend string nat | DSetConnected | DCloseBuffer | DResetBuffer
  | DDetach | DClose "nat option" "nat option"

datatype finish_pc =
    FDetach nat nat | FSetConnected | FReset | FClose nat "nat option" | FGeneration | FCallback u64 | FManual u64

datatype reconnect_pc =
    RCheckManual | RCheckGeneration | RCheckConnected | RSucceeded | RFailedManual go_error | RFailedGeneration go_error

datatype client_action =
    SetAutomatic
  | Connecting caller connect_pc
  | Unsubscribe
  | Disconnecting bool disconnect_pc
  | Finishing finish_pc
  | Reconnecting u64 reconnect_pc
  | ReadRound nat nat nat bool
  | MonitorTick nat nat

text \<open>
  \<open>SetAutomatic\<close> is the first statement of ConnectWithContext, \<open>Unsubscribe\<close> the deferred end of the subscriptions. The flag of
  \<open>Disconnecting\<close> says that the caller is Reconnect, which goes on to connect if the handles were closed without error.
\<close>

definition disconnect :: "bool \<Rightarrow> bool \<Rightarrow> bool \<Rightarrow> client_action list" where
  "disconnect cancelReconnect doCloseBuffer reconnect =
     map (Disconnecting reconnect)
       ((if cancelReconnect then [DGeneration] else []) @
        [DIsConnected, DSetConnected, if doCloseBuffer then DCloseBuffer else DResetBuffer, DDetach])"

text \<open>
  Returning from connectWithContext: the deferred calls run in reverse order, disconnect only if the
  connection failed.
\<close>

definition failed :: "caller \<Rightarrow> go_error \<Rightarrow> client_action list" where
  "failed w err = Unsubscribe # disconnect False (w = ByUser) False @ [Connecting w (CFinish (Some err))]"

definition returned :: "caller \<Rightarrow> go_error option \<Rightarrow> client_action list" where
  "returned w r =
     (case w of ByUser \<Rightarrow> []
      | ByReconnect g \<Rightarrow> [Reconnecting g (case r of None \<Rightarrow> RSucceeded | Some err \<Rightarrow> RFailedManual err)])"

text \<open>The goroutines that a user can start: Connect, Disconnect or Close, and Reconnect.\<close>

definition userCalls :: "client_action list list" where
  "userCalls = [[SetAutomatic], [Disconnecting False DManual], [Disconnecting True DManual]]"

abbreviation orFail :: "caller \<Rightarrow> go_error option \<Rightarrow> connect_pc \<Rightarrow> client_action list" where
  "orFail w err pc \<equiv> (case err of None \<Rightarrow> [Connecting w pc] | Some e \<Rightarrow> failed w e)"

definition errNotEstablished :: go_error where
  "errNotEstablished = Errorf ''signaling session is not established''"

text \<open>One round of a reader and one tick of the monitor, on the transport \<open>t\<close> with the data channel of session \<open>k\<close>.\<close>

definition upd_reader :: "client \<Rightarrow> nat \<Rightarrow> nat \<Rightarrow> reader \<Rightarrow> client" where
  "upd_reader c k b r =
     (upd_buffer (upd_handshake c k (\<lambda>h. h\<lparr>sh_dataChannel := rd_channel r\<rparr>)) b (\<lambda>_. rd_buf r))\<lparr>cl_lastTransportRead := rd_lastRead r\<rparr>"

definition readRound :: "client_inputs \<Rightarrow> client \<Rightarrow> nat \<Rightarrow> nat \<Rightarrow> nat \<Rightarrow> bool \<Rightarrow> bool \<times> client" where
  "readRound inp c t k b packetMode =
     (let cur = Client_isCurrentTransport c t k; limit = co_MaxFrameSize (cl_options c);
          r = \<lparr>rd_channel = sh_dataChannel (cl_handshakes c ! k), rd_buf = cl_buffers c ! b, rd_budget = None,
               rd_lastRead = cl_lastTransportRead c\<rparr>
      in if packetMode
         then (case readRawTransport_iter limit cur (cur \<and> ci_still inp) (ci_now inp) r (ci_data inp) of
                 None \<Rightarrow> (False, c) | Some (go_on, r) \<Rightarrow> (go_on, upd_reader c k b r))
         else (case readTransport_iter limit cur (cur \<and> ci_still inp) (ci_now inp) r (ci_data inp) of
                 None \<Rightarrow> (False, c) | Some (go_on, r, _) \<Rightarrow> (go_on, upd_reader c k b r)))"

definition monitorHeartbeat :: "client_inputs \<Rightarrow> client \<Rightarrow> nat \<Rightarrow> go_error option \<times> client" where
  "monitorHeartbeat inp c k =
     (case sendHeartbeat \<lparr>ws_transport = cl_transportConn c \<noteq> None, ws_channel = Some (sh_dataChannel (cl_handshakes c ! k)),
              ws_open = cl_connected c, ws_timedOut = False\<rparr> (ci_still inp) (ci_send inp) of
        (err, ws, _) \<Rightarrow> (err, upd_handshake c k (\<lambda>h. h\<lparr>sh_dataChannel := the (ws_channel ws)\<rparr>)))"

text \<open>
  One action: the state after it, the actions that take its place at the front of its goroutine, and the goroutines
  it starts. Publishing fails with \<open>ci_err\<close>, as do the other calls out of the repository.
\<close>

type_synonym effect = "client \<times> client_action list \<times> client_action list list"

primrec exec_connect :: "hello_lib \<Rightarrow> client_inputs \<Rightarrow> client \<Rightarrow> caller \<Rightarrow> connect_pc \<Rightarrow> effect" where
  "exec_connect W inp c w CBegin =
     (if cl_connected c \<or> cl_connecting c then (c, returned w (Some (Errorf ''connection already established'')), [])
      else (c\<lparr>cl_connecting := True\<rparr>, [Connecting w CReset], []))"
| "exec_connect W inp c w CReset =
     (Client_clearPhysicalAddrs (c\<lparr>cl_serverId := [], cl_codec := None\<rparr>), [Connecting w CSignalSend], [])"
| "exec_connect W inp c w CSignalSend = (c\<lparr>cl_signalSend := 0\<rparr>, [Connecting w CSignalRecv], [])"
| "exec_connect W inp c w CSignalRecv = (c\<lparr>cl_signalRecv := ReplayWindow_Reset (cl_signalRecv c)\<rparr>, [Connecting w CBuffer], [])"
| "exec_connect W inp c w CBuffer = (freshBuffer c, [Connecting w CHello], [])"
| "exec_connect W inp c w CHello =
     (case buildClientHello W (cl_psk c) (api_RoomId (cl_api c)) (cl_options c) (ci_random inp) (ci_now inp) of
        Inl err \<Rightarrow> (c, failed w err, []) | Inr attempt \<Rightarrow> (c, [Connecting w (CSubscribe attempt)], []))"
| "exec_connect W inp c w (CSubscribe attempt) = (c, orFail w (ci_err inp) (CPublishHello attempt), [])"
| "exec_connect W inp c w (CPublishHello attempt) =
     (logged c (ClPublish MessageHello (ch_message attempt) # (if ci_err inp = None then [ClOnClientHello] else [])),
      orFail w (ci_err inp) (CAwaitHello attempt), [])"
| "exec_connect W inp c w (CAwaitHello attempt) =
     (case ci_wait inp of
        Expired err \<Rightarrow> (c, failed w err, [])
      | Ticked \<Rightarrow> (logged c [ClPublish MessageHello (ch_message attempt)], [Connecting w (CAwaitHello attempt)], [])
      | Arrived \<Rightarrow>
          (case handleServerHello W (cl_psk c) (api_RoomId (cl_api c)) (cl_options c) (ci_random inp) (ci_data inp) attempt of
             Inl _ \<Rightarrow> (c, [Connecting w (CAwaitHello attempt)], [])
           | Inr h \<Rightarrow>
               (logged (c\<lparr>cl_handshakes := cl_handshakes c @ [h], cl_codec := Some (length (cl_handshakes c)), cl_serverId := sh_serverID h\<rparr>)
                  [ClOnServerHello], [Connecting w (CCheckTransport (length (cl_handshakes c)))], [])))"
| "exec_connect W inp c w (CCheckTransport k) =
     (c, if transportName c \<in> set (sh_transports (cl_handshakes c ! k)) then [Connecting w (CSubscribeAnswer k)]
         else failed w (Errorf ''requested transport is not supported by server''), [])"
| "exec_connect W inp c w (CSubscribeAnswer k) =
     (case ci_err inp of
        Some err \<Rightarrow> (c, failed w err, []) | None \<Rightarrow> (c\<lparr>cl_answers := Some (k, None)\<rparr>, [Connecting w (CSelect k)], []))"
| "exec_connect W inp c w (CSelect k) =
     (c, case cl_codec c of
           None \<Rightarrow> failed w errNotEstablished
         | Some j \<Rightarrow> if cl_serverId c = [] then failed w errNotEstablished else [Connecting w (CSelectSend k (cl_serverId c) j)], [])"
| "exec_connect W inp c w (CSelectSend k serverID j) =
     (case publishSession W inp c serverID j TransportSelect (zero_payload\<lparr>pl_Transport := transportName c\<rparr>) of
        (err, c) \<Rightarrow> (c, orFail w err (CRelay k), []))"
| "exec_connect W inp c w (CRelay k) =
     (c, case WebSocketRelayProvider (Some (cl_api c)) (cl_clientId c) (cl_serverId c) of
           Inl err \<Rightarrow> failed w err | Inr _ \<Rightarrow> [Connecting w (CAgent k)], [])"
| "exec_connect W inp c w (CAgent k) =
     (case ci_err inp of
        Some err \<Rightarrow> (c, failed w err, [])
      | None \<Rightarrow> (c\<lparr>cl_handles := cl_handles c + 1\<rparr>, [Connecting w (CInstall k (cl_handles c))], []))"
| "exec_connect W inp c w (CInstall k a) =
     (case Client_installICEAgent c (Some a) of
        (ok, c) \<Rightarrow> (c, if ok then [Connecting w (CGather k a)] else failed w ErrNetClosed, []))"
| "exec_connect W inp c w (CGather k a) =
     (case ci_description inp of
        Inl err \<Rightarrow> (c, failed w err, [])
      | Inr d \<Rightarrow>
          (case ValidateICEDescriptionLimits d (co_MaxPendingICE (cl_options c)) (co_MaxPendingICEBytes (cl_options c)) of
             Inl err \<Rightarrow> (c, failed w err, []) | Inr _ \<Rightarrow> (logged c [ClOnICEOffer d], [Connecting w (COffer k a d)], [])))"
| "exec_connect W inp c w (COffer k a d) =
     (c, case ValidateICEDescriptionLimits d (co_MaxPendingICE (cl_options c)) (co_MaxPendingICEBytes (cl_options c)) of
           Inl err \<Rightarrow> failed w err
         | Inr _ \<Rightarrow>
             (case cl_codec c of
                None \<Rightarrow> failed w errNotEstablished
              | Some j \<Rightarrow> if cl_serverId c = [] then failed w errNotEstablished else [Connecting w (COfferSend k a d (cl_serverId c) j)]), [])"
| "exec_connect W inp c w (COfferSend k a d serverID j) =
     (case publishSession W inp c serverID j ICEOffer (offerPayload d) of
        (err, c) \<Rightarrow> (c, orFail w err (CAwaitAnswer k a), []))"
| "exec_connect W inp c w (CAwaitAnswer k a) =
     (case ci_wait inp of
        Expired err \<Rightarrow> (c, failed w err, [])
      | _ \<Rightarrow> (case cl_answers c of
                Some (j, Some d) \<Rightarrow> (c\<lparr>cl_answers := Some (j, None)\<rparr>, [Connecting w (CDialICE k a d)], [])
              | _ \<Rightarrow> (c, [Connecting w (CAwaitAnswer k a)], [])))"
| "exec_connect W inp c w (CDialICE k a d) = (c, orFail w (ci_err inp) (CAddrs k a (ci_local inp) (ci_remote inp)), [])"
| "exec_connect W inp c w (CAddrs k a local remote) = (Client_setPhysicalAddrs c local remote, [Connecting w (CDial k a)], [])"
| "exec_connect W inp c w (CDial k a) =
     (case ci_err inp of
        Some err \<Rightarrow> (logged c [ClICEConnClosed], failed w err, [])
      | None \<Rightarrow> (c\<lparr>cl_handles := cl_handles c + 1\<rparr>, [Connecting w (CSetTransport k a (cl_handles c))], []))"
| "exec_connect W inp c w (CSetTransport k a t) =
     (case Client_setTransportConn c a (Some t) (Some k) of
        (ok, c) \<Rightarrow> (c, if ok then [Connecting w (CLastRead k t)] else failed w ErrNetClosed, []))"
| "exec_connect W inp c w (CLastRead k t) = (c\<lparr>cl_lastTransportRead := ci_now inp\<rparr>, [Connecting w (CStart k t)], [])"
| "exec_connect W inp c w (CStart k t) =
     (c, [Connecting w CConnected],
      [[ReadRound t k (cl_recvBuf c) (transportPacketMode (the (co_Transport (cl_options c))))], [MonitorTick t k]])"
| "exec_connect W inp c w CConnected =
     (logged (c\<lparr>cl_connected := True\<rparr>) [ClOnConnected], [Unsubscribe, Connecting w (CFinish None)], [])"
| "exec_connect W inp c w (CFinish r) = (c\<lparr>cl_connecting := False\<rparr>, returned w r, [])"

primrec exec_disconnect :: "hello_lib \<Rightarrow> client_inputs \<Rightarrow> client \<Rightarrow> bool \<Rightarrow> disconnect_pc \<Rightarrow> effect" where
  "exec_disconnect W inp c reconnect DManual = (c\<lparr>cl_manualDisconnect := True\<rparr>, disconnect True True reconnect, [])"
| "exec_disconnect W inp c reconnect DGeneration = (c\<lparr>cl_reconnectGeneration := cl_reconnectGeneration c + 1\<rparr>, [], [])"
| "exec_disconnect W inp c reconnect DIsConnected = (c, if cl_connected c then [Disconnecting reconnect DPublish] else [], [])"
| "exec_disconnect W inp c reconnect DPublish =
     (c, case cl_codec c of None \<Rightarrow> []
         | Some j \<Rightarrow> if cl_serverId c = [] then [] else [Disconnecting reconnect (DPublishSend (cl_serverId c) j)], [])"
| "exec_disconnect W inp c reconnect (DPublishSend serverID j) =
     (snd (publishSession W inp c serverID j Disconnect zero_payload), [], [])"
| "exec_disconnect W inp c reconnect DSetConnected = (c\<lparr>cl_connected := False\<rparr>, [], [])"
| "exec_disconnect W inp c reconnect DCloseBuffer = (closeBuffer c, [], [])"
| "exec_disconnect W inp c reconnect DResetBuffer = (resetBuffer c, [], [])"
| "exec_disconnect W inp c reconnect DDetach =
     (disconnect_detach c, [Disconnecting reconnect (DClose (cl_transportConn c) (cl_iceAgent c))], [])"
| "exec_disconnect W inp c reconnect (DClose conn agent) =
     (logged c (closeEvents conn agent),
      if reconnect \<and> closeError (ci_closeHandle inp) conn agent = None then [SetAutomatic] else [], [])"

primrec exec_finish :: "client \<Rightarrow> finish_pc \<Rightarrow> effect" where
  "exec_finish c (FDetach t k) =
     (if Client_isCurrentTransport c t k
      then (finish_detach c, map Finishing [FSetConnected, FReset, FClose t (cl_iceAgent c), FGeneration], []) else (c, [], []))"
| "exec_finish c FSetConnected = (c\<lparr>cl_connected := False\<rparr>, [], [])"
| "exec_finish c FReset = (resetBuffer c, [], [])"
| "exec_finish c (FClose t agent) = (logged c (closeEvents (Some t) agent), [], [])"
| "exec_finish c FGeneration =
     (c\<lparr>cl_reconnectGeneration := cl_reconnectGeneration c + 1\<rparr>, [Finishing (FCallback (cl_reconnectGeneration c + 1))], [])"
| "exec_finish c (FCallback g) = (logged c [ClOnDisconnected], [Finishing (FManual g)], [])"
| "exec_finish c (FManual g) = (c, [], if cl_manualDisconnect c then [] else [[Reconnecting g RCheckManual]])"

primrec exec_reconnect :: "client \<Rightarrow> u64 \<Rightarrow> reconnect_pc \<Rightarrow> effect" where
  "exec_reconnect c g RCheckManual = (c, if cl_manualDisconnect c then [] else [Reconnecting g RCheckGeneration], [])"
| "exec_reconnect c g RCheckGeneration = (c, if cl_reconnectGeneration c \<noteq> g then [] else [Reconnecting g RCheckConnected], [])"
| "exec_reconnect c g RCheckConnected = (c, if cl_connected c then [] else [Connecting (ByReconnect g) CBegin], [])"
| "exec_reconnect c g RSucceeded = (c, if cl_reconnectGeneration c \<noteq> g then disconnect False True False else [], [])"
| "exec_reconnect c g (RFailedManual err) = (c, if cl_manualDisconnect c then [] else [Reconnecting g (RFailedGeneration err)], [])"
| "exec_reconnect c g (RFailedGeneration err) =
     (if cl_reconnectGeneration c \<noteq> g then (c, [], []) else (logged c [ClOnConnectionFailed err], [Reconnecting g RCheckManual], []))"

primrec exec_client :: "hello_lib \<Rightarrow> client_inputs \<Rightarrow> client \<Rightarrow> client_action \<Rightarrow> effect" where
  "exec_client W inp c SetAutomatic = (c\<lparr>cl_manualDisconnect := False\<rparr>, [Connecting ByUser CBegin], [])"
| "exec_client W inp c (Connecting w pc) = exec_connect W inp c w pc"
| "exec_client W inp c Unsubscribe = (c\<lparr>cl_answers := None\<rparr>, [], [])"
| "exec_client W inp c (Disconnecting reconnect pc) = exec_disconnect W inp c reconnect pc"
| "exec_client W inp c (Finishing pc) = exec_finish c pc"
| "exec_client W inp c (Reconnecting g pc) = exec_reconnect c g pc"
| "exec_client W inp c (ReadRound t k b packetMode) =
     (case readRound inp c t k b packetMode of
        (go_on, c) \<Rightarrow> (c, [if go_on then ReadRound t k b packetMode else Finishing (FDetach t k)], []))"
| "exec_client W inp c (MonitorTick t k) =
     (if \<not> Client_isCurrentTransport c t k then (c, [], [])
      else if time_Sub (ci_now inp) (cl_lastTransportRead c) \<ge> co_HeartbeatTimeout (cl_options c) then (c, [Finishing (FDetach t k)], [])
      else (case monitorHeartbeat inp c k of
              (err, c) \<Rightarrow> (c, [if err = None then MonitorTick t k else Finishing (FDetach t k)], [])))"

end
