(* ===== verification/Client_Lifecycle.thy ===== *)
theory Client_Lifecycle
  imports Client_State Hello_Samples "HOL-Library.Multiset"
begin

text \<open>
  The client under concurrency. A system is the client's state with the goroutines that are running; a step runs the
  first action of one of them, starts a call of the user, handles an ICE answer, or is an input or output call of the user.
  The invariants: handles are in exactly one place, one connection attempt runs at a time, a
  transport always has a goroutine that will notice its end, and a disconnected client stays so.
\<close>

section \<open>Steps\<close>

type_synonym client_system = "client \<times> client_action list list"

text \<open>Write on the client, with the transport's frame limit \<open>limit\<close>; \<open>send\<close> are the errors of the transport's writes.\<close>

definition Client_WriteCall ::
  "client \<Rightarrow> int \<Rightarrow> int \<Rightarrow> (nat \<Rightarrow> (nat \<times> go_error) option) \<Rightarrow> bytes \<Rightarrow> (nat \<times> go_error option) outcome \<times> client \<times> bytes list" where
  "Client_WriteCall c now limit send p =
     (case cl_dataChannel c of
        None \<Rightarrow> (Returned (0, Some (Errorf ''transport not connected'')), c, [])
      | Some k \<Rightarrow>
          (case Client_Write (length p) \<lparr>ws_transport = cl_transportConn c \<noteq> None, ws_channel = Some (sh_dataChannel (cl_handshakes c ! k)),
                  ws_open = cl_connected c, ws_timedOut = Client_writeTimedOut c now\<rparr> (co_MaxFrameSize (cl_options c)) limit send p of
             (r, ws, frames) \<Rightarrow> (r, upd_handshake c k (\<lambda>h. h\<lparr>sh_dataChannel := the (ws_channel ws)\<rparr>), frames)))"

inductive client_io :: "client \<Rightarrow> client \<Rightarrow> bool" where
  io_read: "Client_Read c now n = Some (r, c') \<Longrightarrow> client_io c c'"
| io_write: "Client_WriteCall c now limit send p = (r, c', frames) \<Longrightarrow> client_io c c'"
| io_deadline: "Client_SetDeadline setDeadline c t = (err, c') \<Longrightarrow> client_io c c'"
| io_readDeadline: "Client_SetReadDeadline c t = (err, c') \<Longrightarrow> client_io c c'"
| io_writeDeadline: "Client_SetWriteDeadline setDeadline c t = (err, c') \<Longrightarrow> client_io c c'"

inductive client_step :: "hello_lib \<Rightarrow> client_system \<Rightarrow> client_system \<Rightarrow> bool" for W where
  step_run: "exec_client W inp c a = (c', push, spawned) \<Longrightarrow>
     client_step W (c, xs @ (a # rest) # ys) (c', xs @ (push @ rest) # ys @ spawned)"
| step_call: "prog \<in> set userCalls \<Longrightarrow> client_step W (c, ts) (c, ts @ [prog])"
| step_answer: "client_step W (c, ts) (onAnswer W c data, ts)"
| step_io: "client_io c c' \<Longrightarrow> client_step W (c, ts) (c', ts)"

abbreviation client_reach :: "hello_lib \<Rightarrow> client_system \<Rightarrow> client_system \<Rightarrow> bool" where
  "client_reach W \<equiv> (client_step W)\<^sup>*\<^sup>*"

section \<open>What the operations leave alone\<close>

text \<open>The fields that the invariants speak of. The log may gain events, none of which closes a handle.\<close>

fun closed_handle :: "client_event \<Rightarrow> nat list" where
  "closed_handle (ClTransportClosed t) = [t]"
| "closed_handle (ClAgentClosed a) = [a]"
| "closed_handle _ = []"

definition closed_handles :: "client \<Rightarrow> nat list" where
  "closed_handles c = concat (map closed_handle (cl_log c))"

definition same_control :: "client \<Rightarrow> client \<Rightarrow> bool" where
  "same_control c c' \<longleftrightarrow> cl_transportConn c' = cl_transportConn c \<and> cl_dataChannel c' = cl_dataChannel c \<and> cl_iceAgent c' = cl_iceAgent c \<and>
     cl_manualDisconnect c' = cl_manualDisconnect c \<and> cl_connecting c' = cl_connecting c \<and>
     cl_handles c' = cl_handles c \<and> closed_handles c' = closed_handles c"

lemma closed_handles_simps [simp]:
  "closed_handles (logged c es) = closed_handles c @ concat (map closed_handle es)"
  "closed_handles (upd_buffer c b f) = closed_handles c"
  "closed_handles (upd_handshake c k g) = closed_handles c"
  by (simp_all add: closed_handles_def logged_def upd_buffer_def upd_handshake_def)

lemma logged_simps [simp]:
  "cl_transportConn (logged c es) = cl_transportConn c" "cl_dataChannel (logged c es) = cl_dataChannel c"
  "cl_iceAgent (logged c es) = cl_iceAgent c" "cl_manualDisconnect (logged c es) = cl_manualDisconnect c"
  "cl_connecting (logged c es) = cl_connecting c" "cl_handles (logged c es) = cl_handles c"
  by (simp_all add: logged_def)

lemma same_control_refl [simp, intro]: "same_control c c"
  by (simp add: same_control_def)

lemma same_control_upd [simp]:
  "same_control c (upd_buffer c b f)" "same_control c (upd_handshake c k g)"
  "same_control c (closeBuffer c)" "same_control c (resetBuffer c)" "same_control c (freshBuffer c)"
  by (simp_all add: same_control_def upd_buffer_def upd_handshake_def closeBuffer_def resetBuffer_def freshBuffer_def closed_handles_def)

lemma same_control_logged [simp]: "concat (map closed_handle es) = [] \<Longrightarrow> same_control c (logged c es)"
  by (simp add: same_control_def)

lemma same_control_trans: "same_control c d \<Longrightarrow> same_control d e \<Longrightarrow> same_control c e"
  by (simp add: same_control_def)

lemma publishSession_control:
  "same_control c (snd (publishSession W inp c serverID k t p))"
  by (auto simp: publishSession_def Let_def same_control_def logged_def upd_handshake_def closed_handles_def split: prod.split sum.split)

lemma onAnswer_control: "same_control c (onAnswer W c data)"
  by (auto simp: onAnswer_def Let_def same_control_def logged_def closed_handles_def split: option.split sum.split prod.split bool.split)

lemma readRound_control: "same_control c (snd (readRound inp c t k b packetMode))"
  by (auto simp: readRound_def Let_def same_control_def upd_reader_def upd_buffer_def upd_handshake_def closed_handles_def
      split: option.split prod.split)

lemma monitorHeartbeat_control: "same_control c (snd (monitorHeartbeat inp c k))"
  by (auto simp: monitorHeartbeat_def split: prod.split)

lemma client_io_control: "client_io c c' \<Longrightarrow> same_control c c'"
  by (induction rule: client_io.induct)
    (auto simp: Client_Read_def Client_WriteCall_def Client_SetDeadline_def Client_SetReadDeadline_def Client_SetWriteDeadline_def Let_def
      same_control_def upd_buffer_def upd_handshake_def closed_handles_def split: option.split_asm prod.split_asm)

lemma no_budget_no_panic: "RecvBuffer_Close rb None \<noteq> None" "RecvBuffer_Reset rb None \<noteq> None"
  by (simp_all add: RecvBuffer_Close_def RecvBuffer_Reset_def ByteBudget_Release_def)

lemma same_controlD:
  assumes "same_control c c'"
  shows "cl_transportConn c' = cl_transportConn c" "cl_dataChannel c' = cl_dataChannel c" "cl_iceAgent c' = cl_iceAgent c"
    "cl_manualDisconnect c' = cl_manualDisconnect c" "cl_connecting c' = cl_connecting c"
    "cl_handles c' = cl_handles c" "closed_handles c' = closed_handles c"
  using assms by (simp_all add: same_control_def)

lemmas control_simps [simp] =
  publishSession_control [THEN same_controlD(1)] publishSession_control [THEN same_controlD(2)] publishSession_control [THEN same_controlD(3)]
  publishSession_control [THEN same_controlD(4)] publishSession_control [THEN same_controlD(5)] publishSession_control [THEN same_controlD(6)]
  publishSession_control [THEN same_controlD(7)]
  readRound_control [THEN same_controlD(1)] readRound_control [THEN same_controlD(2)] readRound_control [THEN same_controlD(3)]
  readRound_control [THEN same_controlD(4)] readRound_control [THEN same_controlD(5)] readRound_control [THEN same_controlD(6)]
  readRound_control [THEN same_controlD(7)]
  monitorHeartbeat_control [THEN same_controlD(1)] monitorHeartbeat_control [THEN same_controlD(2)] monitorHeartbeat_control [THEN same_controlD(3)]
  monitorHeartbeat_control [THEN same_controlD(4)] monitorHeartbeat_control [THEN same_controlD(5)] monitorHeartbeat_control [THEN same_controlD(6)]
  monitorHeartbeat_control [THEN same_controlD(7)]
  same_control_upd(3) [THEN same_controlD(1)] same_control_upd(3) [THEN same_controlD(2)] same_control_upd(3) [THEN same_controlD(3)]
  same_control_upd(3) [THEN same_controlD(4)] same_control_upd(3) [THEN same_controlD(5)] same_control_upd(3) [THEN same_controlD(6)]
  same_control_upd(3) [THEN same_controlD(7)]
  same_control_upd(4) [THEN same_controlD(1)] same_control_upd(4) [THEN same_controlD(2)] same_control_upd(4) [THEN same_controlD(3)]
  same_control_upd(4) [THEN same_controlD(4)] same_control_upd(4) [THEN same_controlD(5)] same_control_upd(4) [THEN same_controlD(6)]
  same_control_upd(4) [THEN same_controlD(7)]
  same_control_upd(5) [THEN same_controlD(1)] same_control_upd(5) [THEN same_controlD(2)] same_control_upd(5) [THEN same_controlD(3)]
  same_control_upd(5) [THEN same_controlD(4)] same_control_upd(5) [THEN same_controlD(5)] same_control_upd(5) [THEN same_controlD(6)]
  same_control_upd(5) [THEN same_controlD(7)]

section \<open>Handles\<close>

text \<open>The handles that an action holds: it will install or close them.\<close>

fun opt_list :: "'a option \<Rightarrow> 'a list" where
  "opt_list None = []"
| "opt_list (Some x) = [x]"

primrec held :: "client_action \<Rightarrow> nat list" where
  "held SetAutomatic = []"
| "held (Connecting w pc) = (case pc of CInstall k a \<Rightarrow> [a] | CSetTransport k a t \<Rightarrow> [t] | _ \<Rightarrow> [])"
| "held Unsubscribe = []"
| "held (Disconnecting reconnect pc) = (case pc of DClose conn agent \<Rightarrow> opt_list conn @ opt_list agent | _ \<Rightarrow> [])"
| "held (Finishing pc) = (case pc of FClose t agent \<Rightarrow> t # opt_list agent | _ \<Rightarrow> [])"
| "held (Reconnecting g pc) = []"
| "held (ReadRound t k b packetMode) = []"
| "held (MonitorTick t k) = []"

abbreviation held_all :: "client_action list \<Rightarrow> nat list" where
  "held_all as \<equiv> concat (map held as)"

definition placed :: "client \<Rightarrow> nat list" where
  "placed c = opt_list (cl_transportConn c) @ opt_list (cl_iceAgent c) @ closed_handles c"

lemma held_quiet [simp]:
  "held_all (disconnect x y z) = []" "held_all (failed w err) = []" "held_all (returned w r) = []"
  by (auto simp: disconnect_def failed_def returned_def split: caller.split option.split)

lemma closeEvents_handles [simp]: "concat (map closed_handle (closeEvents conn agent)) = opt_list conn @ opt_list agent"
  by (auto simp: closeEvents_def split: option.split)

text \<open>An action moves handles between places and creates the next one; none is dropped or copied.\<close>

definition balanced :: "client \<Rightarrow> client_action \<Rightarrow> effect \<Rightarrow> bool" where
  "balanced c a e \<longleftrightarrow> (case e of (c', push, spawned) \<Rightarrow>
     mset (placed c') + mset (held_all push) + mset (held_all (concat spawned)) + mset [0..<cl_handles c] =
     mset (placed c) + mset (held a) + mset [0..<cl_handles c'])"

lemma opt_list_case: "(case x of None \<Rightarrow> [] | Some y \<Rightarrow> [y]) = opt_list x"
  by (cases x) auto

lemmas effect_simps = balanced_def placed_def case_prod_unfold finish_detach_def disconnect_detach_def
  Client_clearPhysicalAddrs_def Client_setPhysicalAddrs_def

lemma closed_handles_upd [simp]:
  "closed_handles (c\<lparr>cl_serverId := v1\<rparr>) = closed_handles c" "closed_handles (c\<lparr>cl_codec := v2\<rparr>) = closed_handles c"
  "closed_handles (c\<lparr>cl_localAddr := v3\<rparr>) = closed_handles c" "closed_handles (c\<lparr>cl_remoteAddr := v3\<rparr>) = closed_handles c"
  "closed_handles (c\<lparr>cl_signalSend := v4\<rparr>) = closed_handles c" "closed_handles (c\<lparr>cl_signalRecv := v5\<rparr>) = closed_handles c"
  "closed_handles (c\<lparr>cl_handshakes := v6\<rparr>) = closed_handles c" "closed_handles (c\<lparr>cl_answers := v7\<rparr>) = closed_handles c"
  "closed_handles (c\<lparr>cl_handles := v8\<rparr>) = closed_handles c" "closed_handles (c\<lparr>cl_iceAgent := v9\<rparr>) = closed_handles c"
  "closed_handles (c\<lparr>cl_transportConn := v9\<rparr>) = closed_handles c" "closed_handles (c\<lparr>cl_dataChannel := v9\<rparr>) = closed_handles c"
  "closed_handles (c\<lparr>cl_lastTransportRead := v10\<rparr>) = closed_handles c" "closed_handles (c\<lparr>cl_connected := v11\<rparr>) = closed_handles c"
  "closed_handles (c\<lparr>cl_connecting := v11\<rparr>) = closed_handles c" "closed_handles (c\<lparr>cl_manualDisconnect := v11\<rparr>) = closed_handles c"
  "closed_handles (c\<lparr>cl_reconnectGeneration := v12\<rparr>) = closed_handles c"
  by (simp_all add: closed_handles_def)

lemma held_quiet_mem [simp]:
  "x \<in> set (disconnect i j z) \<Longrightarrow> held x = []" "x \<in> set (failed w err) \<Longrightarrow> held x = []" "x \<in> set (returned w r) \<Longrightarrow> held x = []"
  using held_quiet by (metis concat_eq_Nil_conv in_set_conv_nth length_map nth_map nth_mem)+

lemma exec_connect_balanced: "balanced c (Connecting w pc) (exec_connect W inp c w pc)"
  by (cases pc)
    (auto simp: effect_simps Client_installICEAgent_def Client_setTransportConn_def atLeastLessThanSuc split: sum.split option.split wait_event.split)

lemma exec_client_balanced: "balanced c a (exec_client W inp c a)"
proof (cases a)
  case (Connecting w pc)
  then show ?thesis using exec_connect_balanced by simp
next
  case (Disconnecting reconnect pc)
  then show ?thesis by (cases pc) (auto simp: effect_simps split: option.split)
next
  case (Finishing pc)
  then show ?thesis by (cases pc) (auto simp: effect_simps Client_isCurrentTransport_def)
next
  case (Reconnecting g pc)
  then show ?thesis by (cases pc) (auto simp: effect_simps)
qed (auto simp: effect_simps)

definition handles_accounted :: "client_system \<Rightarrow> bool" where
  "handles_accounted y \<longleftrightarrow> (case y of (c, ts) \<Rightarrow> mset (placed c) + mset (held_all (concat ts)) = mset [0..<cl_handles c])"

lemma multiset_balance:
  fixes P :: "'a multiset"
  assumes "P' + U + S + R = P + A + R'" and "P + (A + X) = R"
  shows "P' + (U + (S + X)) = R'"
proof -
  have "(P + A) + (P' + (U + (S + X))) = (P + A) + R'"
    using assms(1) unfolding assms(2) [symmetric] by (simp add: add_ac)
  then show ?thesis by (rule add_left_imp_eq)
qed

lemma step_handles: "client_step W y y' \<Longrightarrow> handles_accounted y \<Longrightarrow> handles_accounted y'"
proof (induction rule: client_step.induct)
  case (step_run inp c a c' push spawned xs rest ys)
  have "balanced c a (c', push, spawned)" using exec_client_balanced [of c a W inp] step_run by simp
  then have "mset (placed c') + mset (held_all push) + mset (held_all (concat spawned)) + mset [0..<cl_handles c] =
      mset (placed c) + mset (held a) + mset [0..<cl_handles c']"
    by (simp add: balanced_def)
  moreover have "mset (placed c) + (mset (held a) + mset (held_all (concat xs @ rest @ concat ys))) = mset [0..<cl_handles c]"
    using step_run(2) by (simp add: handles_accounted_def ac_simps)
  ultimately have "mset (placed c') + (mset (held_all push) + (mset (held_all (concat spawned)) +
      mset (held_all (concat xs @ rest @ concat ys)))) = mset [0..<cl_handles c']"
    by (rule multiset_balance)
  then show ?case by (simp add: handles_accounted_def ac_simps)
next
  case (step_call prog c ts)
  then show ?case by (auto simp: handles_accounted_def userCalls_def)
next
  case (step_answer c ts data)
  have "same_control c (onAnswer W c data)" by (rule onAnswer_control)
  with step_answer show ?case by (simp add: handles_accounted_def same_control_def placed_def)
next
  case (step_io c c' ts)
  then have "same_control c c'" by (simp add: client_io_control)
  with step_io show ?case by (simp add: handles_accounted_def same_control_def placed_def)
qed

section \<open>One attempt at a time\<close>

primrec in_connect :: "client_action \<Rightarrow> bool" where
  "in_connect SetAutomatic = False"
| "in_connect (Connecting w pc) = (pc \<noteq> CBegin)"
| "in_connect Unsubscribe = False"
| "in_connect (Disconnecting reconnect pc) = False"
| "in_connect (Finishing pc) = False"
| "in_connect (Reconnecting g pc) = False"
| "in_connect (ReadRound t k b packetMode) = False"
| "in_connect (MonitorTick t k) = False"

abbreviation attempts :: "client_action list \<Rightarrow> nat" where
  "attempts as \<equiv> length (filter in_connect as)"

lemma attempts_quiet [simp]:
  "filter in_connect (disconnect x y z) = []" "filter in_connect (failed w err) = [Connecting w (CFinish (Some err))]"
  "filter in_connect (returned w r) = []"
  by (auto simp: disconnect_def failed_def returned_def split: caller.split option.split)

definition flag :: "client \<Rightarrow> nat" where
  "flag c = (if cl_connecting c then 1 else 0)"

definition counted :: "client \<Rightarrow> client_action \<Rightarrow> effect \<Rightarrow> bool" where
  "counted c a e \<longleftrightarrow> (case e of (c', push, spawned) \<Rightarrow>
     attempts push + attempts (concat spawned) + flag c = attempts [a] + flag c')"

lemmas count_simps = counted_def flag_def case_prod_unfold finish_detach_def disconnect_detach_def
  Client_clearPhysicalAddrs_def Client_setPhysicalAddrs_def

lemma exec_connect_counted:
  "(pc \<noteq> CBegin \<Longrightarrow> cl_connecting c) \<Longrightarrow> counted c (Connecting w pc) (exec_connect W inp c w pc)"
  by (cases pc)
    (auto simp: count_simps Client_installICEAgent_def Client_setTransportConn_def split: sum.split option.split wait_event.split)

lemma exec_client_counted: "(in_connect a \<Longrightarrow> cl_connecting c) \<Longrightarrow> counted c a (exec_client W inp c a)"
proof (cases a)
  case (Connecting w pc)
  moreover assume "in_connect a \<Longrightarrow> cl_connecting c"
  ultimately show ?thesis using exec_connect_counted [of pc c w W inp] by simp
next
  case (Disconnecting reconnect pc)
  then show ?thesis by (cases pc) (auto simp: count_simps split: option.split)
next
  case (Finishing pc)
  then show ?thesis by (cases pc) (auto simp: count_simps)
next
  case (Reconnecting g pc)
  then show ?thesis by (cases pc) (auto simp: count_simps)
qed (auto simp: count_simps)

definition one_attempt :: "client_system \<Rightarrow> bool" where
  "one_attempt y \<longleftrightarrow> (case y of (c, ts) \<Rightarrow> attempts (concat ts) = flag c)"

lemma step_attempt: "client_step W y y' \<Longrightarrow> one_attempt y \<Longrightarrow> one_attempt y'"
proof (induction rule: client_step.induct)
  case (step_run inp c a c' push spawned xs rest ys)
  have "in_connect a \<Longrightarrow> cl_connecting c" using step_run(2) by (auto simp: one_attempt_def flag_def split: if_split_asm)
  then have "counted c a (c', push, spawned)" using exec_client_counted [of a c W inp] step_run(1) by simp
  with step_run(2) show ?case by (simp add: one_attempt_def counted_def split: if_split_asm)
next
  case (step_call prog c ts)
  then show ?case by (auto simp: one_attempt_def userCalls_def)
next
  case (step_answer c ts data)
  have "same_control c (onAnswer W c data)" by (rule onAnswer_control)
  with step_answer show ?case by (simp add: one_attempt_def same_control_def flag_def)
next
  case (step_io c c' ts)
  then have "same_control c c'" by (simp add: client_io_control)
  with step_io show ?case by (simp add: one_attempt_def same_control_def flag_def)
qed

section \<open>A transport is watched\<close>

text \<open>
  The pairs of a transport and a session that an action knows, and the transport whose end an action will notice: the rest of the
  attempt that starts its reader, the reader, or finishTransport itself.
\<close>

primrec knows :: "client_action \<Rightarrow> (nat \<times> nat) list" where
  "knows SetAutomatic = []"
| "knows (Connecting w pc) = (case pc of CSetTransport k a t \<Rightarrow> [(t, k)] | CLastRead k t \<Rightarrow> [(t, k)] | CStart k t \<Rightarrow> [(t, k)] | _ \<Rightarrow> [])"
| "knows Unsubscribe = []"
| "knows (Disconnecting reconnect pc) = []"
| "knows (Finishing pc) = (case pc of FDetach t k \<Rightarrow> [(t, k)] | _ \<Rightarrow> [])"
| "knows (Reconnecting g pc) = []"
| "knows (ReadRound t k b packetMode) = [(t, k)]"
| "knows (MonitorTick t k) = [(t, k)]"

primrec guards :: "client_action \<Rightarrow> nat option" where
  "guards SetAutomatic = None"
| "guards (Connecting w pc) = (case pc of CLastRead k t \<Rightarrow> Some t | CStart k t \<Rightarrow> Some t | _ \<Rightarrow> None)"
| "guards Unsubscribe = None"
| "guards (Disconnecting reconnect pc) = None"
| "guards (Finishing pc) = (case pc of FDetach t k \<Rightarrow> Some t | _ \<Rightarrow> None)"
| "guards (Reconnecting g pc) = None"
| "guards (ReadRound t k b packetMode) = Some t"
| "guards (MonitorTick t k) = None"

definition known :: "client \<Rightarrow> (nat \<times> nat) set" where
  "known c = {(t, k). cl_transportConn c = Some t \<and> cl_dataChannel c = Some k}"

abbreviation knows_all :: "client_action list \<Rightarrow> (nat \<times> nat) set" where
  "knows_all as \<equiv> set (concat (map knows as))"

lemma knows_quiet [simp]:
  "x \<in> set (disconnect i j z) \<Longrightarrow> knows x = []" "x \<in> set (failed w err) \<Longrightarrow> knows x = []" "x \<in> set (returned w r) \<Longrightarrow> knows x = []"
  by (auto simp: disconnect_def failed_def returned_def split: caller.split_asm option.split_asm if_split_asm)

text \<open>An action learns of no new pair but that of a new transport, and a transport is set together with its data channel.\<close>

definition learns :: "client \<Rightarrow> client_action \<Rightarrow> effect \<Rightarrow> bool" where
  "learns c a e \<longleftrightarrow> (case e of (c', push, spawned) \<Rightarrow> cl_handles c \<le> cl_handles c' \<and>
     (\<exists>k. knows_all push \<union> knows_all (concat spawned) \<union> known c' \<subseteq>
        set (knows a) \<union> known c \<union> (if cl_handles c < cl_handles c' then {(cl_handles c, k)} else {})) \<and>
     (cl_transportConn c' = None \<longleftrightarrow> cl_dataChannel c' = None))"

lemmas learn_simps = learns_def known_def case_prod_unfold finish_detach_def disconnect_detach_def
  Client_clearPhysicalAddrs_def Client_setPhysicalAddrs_def

lemma exec_connect_learns:
  "(cl_transportConn c = None \<longleftrightarrow> cl_dataChannel c = None) \<Longrightarrow> learns c (Connecting w pc) (exec_connect W inp c w pc)"
  by (cases pc)
    (auto simp: learn_simps Client_installICEAgent_def Client_setTransportConn_def split: sum.split option.split wait_event.split)

lemma exec_client_learns:
  "(cl_transportConn c = None \<longleftrightarrow> cl_dataChannel c = None) \<Longrightarrow> learns c a (exec_client W inp c a)"
proof (cases a)
  case (Connecting w pc)
  moreover assume "cl_transportConn c = None \<longleftrightarrow> cl_dataChannel c = None"
  ultimately show ?thesis using exec_connect_learns [of c w pc W inp] by simp
next
  case (Disconnecting reconnect pc)
  moreover assume "cl_transportConn c = None \<longleftrightarrow> cl_dataChannel c = None"
  ultimately show ?thesis by (cases pc) (auto simp: learn_simps split: option.split)
next
  case (Finishing pc)
  moreover assume "cl_transportConn c = None \<longleftrightarrow> cl_dataChannel c = None"
  ultimately show ?thesis by (cases pc) (auto simp: learn_simps)
next
  case (Reconnecting g pc)
  moreover assume "cl_transportConn c = None \<longleftrightarrow> cl_dataChannel c = None"
  ultimately show ?thesis by (cases pc) (auto simp: learn_simps)
qed (auto simp: learn_simps)

definition paired :: "client_system \<Rightarrow> bool" where
  "paired y \<longleftrightarrow> (case y of (c, ts) \<Rightarrow>
     (cl_transportConn c = None \<longleftrightarrow> cl_dataChannel c = None) \<and>
     single_valued (knows_all (concat ts) \<union> known c) \<and> (\<forall>(t, k) \<in> knows_all (concat ts) \<union> known c. t < cl_handles c))"

lemma single_valued_fresh:
  assumes "single_valued R" and "\<forall>(t, k) \<in> R. t < n" and "S \<subseteq> R \<union> (if n < m then {(n, k)} else {})" and "n \<le> (m :: nat)"
  shows "single_valued S \<and> (\<forall>(t, k) \<in> S. t < m)"
proof
  have mem: "(t, j) \<in> R \<or> t = n \<and> j = k \<and> n < m" if "(t, j) \<in> S" for t j
    using that assms(3) by (auto split: if_split_asm)
  have "\<not> (n, j) \<in> R" for j using assms(2) by auto
  then show "single_valued S" using mem assms(1) unfolding single_valued_def by metis
  show "\<forall>(t, j) \<in> S. t < m" using mem assms(2,4) by fastforce
qed

lemma subset_step: "P \<subseteq> Q \<union> F \<Longrightarrow> R = Q \<union> X \<Longrightarrow> S = P \<union> X \<Longrightarrow> S \<subseteq> R \<union> F"
  by blast

lemma step_paired: "client_step W y y' \<Longrightarrow> paired y \<Longrightarrow> paired y'"
proof (induction rule: client_step.induct)
  case (step_run inp c a c' push spawned xs rest ys)
  let ?R = "knows_all (concat (xs @ (a # rest) # ys)) \<union> known c"
  let ?S = "knows_all (concat (xs @ (push @ rest) # ys @ spawned)) \<union> known c'"
  have l: "learns c a (c', push, spawned)" using exec_client_learns [of c a W inp] step_run by (auto simp: paired_def)
  then obtain k where "knows_all push \<union> knows_all (concat spawned) \<union> known c' \<subseteq>
      set (knows a) \<union> known c \<union> (if cl_handles c < cl_handles c' then {(cl_handles c, k)} else {})"
    by (auto simp: learns_def)
  moreover have "?R = set (knows a) \<union> known c \<union> knows_all (concat xs @ rest @ concat ys)" by auto
  moreover have "?S = knows_all push \<union> knows_all (concat spawned) \<union> known c' \<union> knows_all (concat xs @ rest @ concat ys)" by auto
  ultimately have "?S \<subseteq> ?R \<union> (if cl_handles c < cl_handles c' then {(cl_handles c, k)} else {})" by (rule subset_step)
  then have "single_valued ?S \<and> (\<forall>(t, k) \<in> ?S. t < cl_handles c')"
    using step_run(2) l unfolding paired_def learns_def prod.case by (intro single_valued_fresh [of ?R "cl_handles c"]) blast+
  with l show ?case unfolding paired_def learns_def prod.case by blast
next
  case (step_call prog c ts)
  then show ?case by (auto simp: paired_def userCalls_def)
next
  case (step_answer c ts data)
  have "same_control c (onAnswer W c data)" by (rule onAnswer_control)
  with step_answer show ?case by (simp add: paired_def same_control_def known_def)
next
  case (step_io c c' ts)
  then have "same_control c c'" by (simp add: client_io_control)
  with step_io show ?case by (simp add: paired_def same_control_def known_def)
qed

text \<open>
  After an action, a transport is the one from before, with a watcher left if the action was one, or it is new and
  the action leaves a watcher.
\<close>

definition relays :: "client \<Rightarrow> client_action \<Rightarrow> effect \<Rightarrow> bool" where
  "relays c a e \<longleftrightarrow> (case e of (c', push, spawned) \<Rightarrow>
     (\<forall>t. cl_transportConn c' = Some t \<and> (cl_transportConn c = Some t \<longrightarrow> guards a = Some t) \<longrightarrow>
        Some t \<in> guards ` set (push @ concat spawned)))"

lemmas relay_simps = relays_def case_prod_unfold finish_detach_def disconnect_detach_def
  Client_clearPhysicalAddrs_def Client_setPhysicalAddrs_def

lemma exec_connect_relays: "relays c (Connecting w pc) (exec_connect W inp c w pc)"
  by (cases pc)
    (auto simp: relay_simps Client_installICEAgent_def Client_setTransportConn_def split: sum.split option.split wait_event.split)

lemma exec_client_relays:
  assumes "\<And>t k. cl_transportConn c = Some t \<Longrightarrow> (t, k) \<in> set (knows a) \<Longrightarrow> cl_dataChannel c = Some k"
  shows "relays c a (exec_client W inp c a)"
proof (cases a)
  case (Connecting w pc)
  then show ?thesis using exec_connect_relays by simp
next
  case (Disconnecting reconnect pc)
  then show ?thesis by (cases pc) (auto simp: relay_simps split: option.split)
next
  case (Finishing pc)
  then show ?thesis using assms by (cases pc) (auto simp: relay_simps Client_isCurrentTransport_def)
next
  case (Reconnecting g pc)
  then show ?thesis by (cases pc) (auto simp: relay_simps)
qed (auto simp: relay_simps)

definition watched :: "client_system \<Rightarrow> bool" where
  "watched y \<longleftrightarrow> (case y of (c, ts) \<Rightarrow> \<forall>t. cl_transportConn c = Some t \<longrightarrow> Some t \<in> guards ` set (concat ts))"

lemma step_watched: "client_step W y y' \<Longrightarrow> paired y \<Longrightarrow> watched y \<Longrightarrow> watched y'"
proof (induction rule: client_step.induct)
  case (step_run inp c a c' push spawned xs rest ys)
  have "cl_dataChannel c = Some k" if t: "cl_transportConn c = Some t" and k: "(t, k) \<in> set (knows a)" for t k
  proof -
    obtain j where j: "cl_dataChannel c = Some j" using step_run(2) t by (cases "cl_dataChannel c") (auto simp: paired_def)
    have "(t, j) \<in> known c" using t j by (simp add: known_def)
    moreover have "(t, k) \<in> knows_all (concat (xs @ (a # rest) # ys))" using k by simp
    ultimately have "j = k"
      using step_run(2) unfolding paired_def prod.case by (blast dest: single_valuedD)
    with j show ?thesis by simp
  qed
  then have r: "relays c a (c', push, spawned)" using exec_client_relays [of c a W inp] step_run(1) by metis
  have "Some t \<in> guards ` set (concat (xs @ (push @ rest) # ys @ spawned))" if t: "cl_transportConn c' = Some t" for t
  proof (cases "cl_transportConn c = Some t \<and> guards a \<noteq> Some t")
    case True
    then have "Some t \<in> guards ` set (concat (xs @ (a # rest) # ys))"
      using step_run(3) unfolding watched_def prod.case by blast
    with True show ?thesis by (auto simp: image_iff)
  next
    case False
    with r t have "Some t \<in> guards ` set (push @ concat spawned)" unfolding relays_def prod.case by blast
    then show ?thesis by (auto simp: image_iff)
  qed
  then show ?case unfolding watched_def prod.case by blast
next
  case (step_call prog c ts)
  then show ?case unfolding watched_def by fastforce
next
  case (step_answer c ts data)
  have "same_control c (onAnswer W c data)" by (rule onAnswer_control)
  with step_answer show ?case by (simp add: watched_def same_control_def)
next
  case (step_io c c' ts)
  then have "same_control c c'" by (simp add: client_io_control)
  with step_io show ?case by (simp add: watched_def same_control_def)
qed

section \<open>A disconnected client stays disconnected\<close>

definition emptied :: "client \<Rightarrow> bool" where
  "emptied c \<longleftrightarrow> cl_transportConn c = None \<and> cl_dataChannel c = None \<and> cl_iceAgent c = None"

text \<open>While the flag of a disconnect by the user is set, no action fills an emptied client: an attempt that is still running is refused.\<close>

definition refused :: "client \<Rightarrow> effect \<Rightarrow> bool" where
  "refused c e \<longleftrightarrow> (cl_manualDisconnect c \<and> emptied c \<longrightarrow> emptied (fst e))"

lemmas refuse_simps = refused_def emptied_def case_prod_unfold finish_detach_def disconnect_detach_def
  Client_clearPhysicalAddrs_def Client_setPhysicalAddrs_def

lemma same_control_refused: "same_control c c' \<Longrightarrow> refused c (c', push, spawned)"
  by (simp add: refused_def same_control_def emptied_def)

lemma exec_connect_refused: "refused c (exec_connect W inp c w pc)"
  by (cases pc)
    (use publishSession_control same_control_upd(5) [of c] in \<open>auto simp: refuse_simps same_control_def Client_installICEAgent_def Client_setTransportConn_def
       split: sum.split option.split wait_event.split\<close>)

lemma exec_client_refused: "refused c (exec_client W inp c a)"
proof (cases a)
  case (Connecting w pc)
  then show ?thesis using exec_connect_refused by simp
next
  case (Disconnecting reconnect pc)
  then show ?thesis using publishSession_control
    by (cases pc) (auto simp: refuse_simps same_control_def closeBuffer_def resetBuffer_def upd_buffer_def split: option.split)
next
  case (Finishing pc)
  then show ?thesis by (cases pc) (auto simp: refuse_simps resetBuffer_def upd_buffer_def)
next
  case (Reconnecting g pc)
  then show ?thesis by (cases pc) (auto simp: refuse_simps)
next
  case (ReadRound t k b packetMode)
  then show ?thesis using readRound_control [of c inp t k b packetMode] by (auto simp: case_prod_unfold intro!: same_control_refused)
next
  case (MonitorTick t k)
  then show ?thesis using monitorHeartbeat_control [of c inp k] by (auto simp: case_prod_unfold intro!: same_control_refused)
qed (auto simp: refuse_simps)

text \<open>Steps after which the flag is set: nobody has connected again.\<close>

definition manual_step :: "hello_lib \<Rightarrow> client_system \<Rightarrow> client_system \<Rightarrow> bool" where
  "manual_step W y y' \<longleftrightarrow> client_step W y y' \<and> cl_manualDisconnect (fst y')"

lemma step_emptied: "client_step W y y' \<Longrightarrow> cl_manualDisconnect (fst y) \<Longrightarrow> emptied (fst y) \<Longrightarrow> emptied (fst y')"
proof (induction rule: client_step.induct)
  case (step_run inp c a c' push spawned xs rest ys)
  with exec_client_refused [of c W inp a] show ?case by (simp add: refused_def)
next
  case (step_answer c ts data)
  with onAnswer_control [of c W data] show ?case by (simp add: same_control_def emptied_def)
next
  case (step_io c c' ts)
  then have "same_control c c'" by (simp add: client_io_control)
  with step_io show ?case by (simp add: same_control_def emptied_def)
qed simp

lemma manual_reach_emptied:
  "(manual_step W)\<^sup>*\<^sup>* y y' \<Longrightarrow> cl_manualDisconnect (fst y) \<Longrightarrow> emptied (fst y) \<Longrightarrow> cl_manualDisconnect (fst y') \<and> emptied (fst y')"
  by (induction rule: rtranclp_induct) (auto simp: manual_step_def intro: step_emptied)

section \<open>The invariant of a client\<close>

definition lifecycle_inv :: "client_system \<Rightarrow> bool" where
  "lifecycle_inv y \<longleftrightarrow> handles_accounted y \<and> one_attempt y \<and> paired y \<and> watched y"

lemma lifecycle_step: "client_step W y y' \<Longrightarrow> lifecycle_inv y \<Longrightarrow> lifecycle_inv y'"
  unfolding lifecycle_inv_def using step_handles step_attempt step_paired step_watched by blast

lemma lifecycle_reach: "client_reach W y y' \<Longrightarrow> lifecycle_inv y \<Longrightarrow> lifecycle_inv y'"
  by (induction rule: rtranclp_induct) (auto intro: lifecycle_step)

lemma lifecycle_new: "NewClient psk a options = Inr c \<Longrightarrow> lifecycle_inv (c, [])"
  by (auto simp: NewClient_def bind_result_Inr_iff lifecycle_inv_def handles_accounted_def placed_def closed_handles_def one_attempt_def flag_def
      paired_def known_def watched_def)

text \<open>A schedule runs the first action of the goroutines it names.\<close>

fun run_thread :: "hello_lib \<Rightarrow> client_inputs \<Rightarrow> nat \<Rightarrow> client_system \<Rightarrow> client_system" where
  "run_thread W inp i (c, ts) =
     (if i < length ts
      then (case ts ! i of
              [] \<Rightarrow> (c, ts)
            | a # rest \<Rightarrow> (case exec_client W inp c a of (c', push, spawned) \<Rightarrow> (c', ts[i := push @ rest] @ spawned)))
      else (c, ts))"

fun schedule :: "hello_lib \<Rightarrow> client_inputs \<Rightarrow> nat list \<Rightarrow> client_system \<Rightarrow> client_system" where
  "schedule W inp [] y = y"
| "schedule W inp (i # is) y = schedule W inp is (run_thread W inp i y)"

lemma run_thread_cases: "run_thread W inp i y = y \<or> client_step W y (run_thread W inp i y)"
proof -
  obtain c ts where y: "y = (c, ts)" by (cases y)
  consider "\<not> i < length ts" | "i < length ts" "ts ! i = []"
    | a rest c' push spawned where "i < length ts" "ts ! i = a # rest" "exec_client W inp c a = (c', push, spawned)"
    by (metis list.exhaust prod_cases3)
  then show ?thesis
  proof cases
    case (3 a rest c' push spawned)
    have "ts = take i ts @ (a # rest) # drop (Suc i) ts" using 3 id_take_nth_drop by metis
    moreover have "ts[i := push @ rest] @ spawned = take i ts @ (push @ rest) # drop (Suc i) ts @ spawned"
      using 3(1) by (simp add: upd_conv_take_nth_drop)
    ultimately have "client_step W (c, ts) (c', ts[i := push @ rest] @ spawned)"
      using step_run [OF 3(3), of "take i ts" rest "drop (Suc i) ts"] by simp
    then show ?thesis using 3 by (simp add: y)
  qed (simp_all add: y)
qed

lemma run_thread_reach: "client_reach W y (run_thread W inp i y)"
  using run_thread_cases [of W inp i y] by (auto simp del: run_thread.simps)

lemma schedule_reach: "client_reach W y (schedule W inp is y)"
proof (induction "is" arbitrary: y)
  case (Cons i "is")
  show ?case using rtranclp_trans [OF run_thread_reach Cons.IH] by (simp del: run_thread.simps)
qed simp

section \<open>Properties\<close>

text \<open>
  C10. No ICE agent and no transport is leaked or closed twice. The invariant holds for a new client. From any state that
  satisfies it, under every interleaving of connecting, disconnecting, reconnecting, readers, monitors and
  calls of the user, each handle that was ever created is in exactly one place: it is the client's agent
  or transport, or one goroutine holds it and will install or close it, or it has been closed, once.
\<close>

theorem client_handles:
  assumes "lifecycle_inv y" and "client_reach W y (c, ts)"
  shows "mset (placed c @ held_all (concat ts)) = mset [0..<cl_handles c] \<and> distinct (closed_handles c) \<and>
    (\<forall>psk a options c0. NewClient psk a options = Inr c0 \<longrightarrow> lifecycle_inv (c0, []))"
proof -
  have m: "mset (placed c @ held_all (concat ts)) = mset [0..<cl_handles c]"
    using lifecycle_reach [OF assms(2,1)] by (simp add: lifecycle_inv_def handles_accounted_def)
  then have "distinct (placed c @ held_all (concat ts))" by (metis distinct_upt mset_eq_imp_distinct_iff)
  then have "distinct (closed_handles c)" by (simp add: placed_def)
  with m lifecycle_new show ?thesis by blast
qed

definition idle_channel :: data_channel where
  "idle_channel = \<lparr>dc_sendCodec = None, dc_receiveCodec = None, dc_sendDirection = 1, dc_receiveDirection = 2, dc_sendSequence = 0,
     dc_receiveWindow = ReplayWindow_zero\<rparr>"

definition sample_handshake :: server_handshake where
  "sample_handshake = \<lparr>sh_serverID = ''s'', sh_codec = \<lparr>sc_sendCodec = None, sc_receiveCodec = None, sc_sessionKey = []\<rparr>,
     sh_dataChannel = idle_channel, sh_transports = [''quic'']\<rparr>"

text \<open>A client whose attempt has an agent, handle 0, and is about to dial.\<close>

definition dialing_client :: client where
  "dialing_client = \<lparr>cl_clientId = ''c'', cl_serverId = ''s'', cl_psk = \<lparr>psk_ClientID = ''c'', psk_Key = [], psk_ServerPublicKey = []\<rparr>,
     cl_api = sample_api, cl_options = zero_client_options\<lparr>co_Transport := Some quic_transport\<rparr>, cl_codec = Some 0, cl_signalSend = 2,
     cl_signalRecv = ReplayWindow_zero, cl_transportConn = None, cl_dataChannel = None, cl_lastTransportRead = 0, cl_reconnectGeneration = 0,
     cl_manualDisconnect = False, cl_iceAgent = Some 0, cl_localAddr = zero_addr, cl_remoteAddr = zero_addr, cl_recvBuf = 0, cl_connected = False,
     cl_connecting = True, cl_writeDeadline = None, cl_answers = Some (0, None), cl_handshakes = [sample_handshake],
     cl_buffers = [NewRecvBuffer], cl_handles = 1, cl_log = []\<rparr>"

definition quiet_inputs :: client_inputs where
  "quiet_inputs = \<lparr>ci_random = (\<lambda>_ n. Inr (replicate n 0)), ci_now = 0, ci_err = None, ci_wait = Ticked, ci_data = [], ci_description = Inl ErrEOF,
     ci_local = None, ci_remote = None, ci_still = True, ci_send = (\<lambda>b. (length b, None)), ci_closeHandle = (\<lambda>_. None)\<rparr>"

lemma dialing_inv: "lifecycle_inv (dialing_client, [[Connecting ByUser (CDial 0 0)]])"
  by (auto simp: lifecycle_inv_def handles_accounted_def placed_def closed_handles_def one_attempt_def flag_def paired_def known_def watched_def
      dialing_client_def)

lemma dialed:
  "schedule meeting_lib quiet_inputs [0, 0] (dialing_client, [[Connecting ByUser (CDial 0 0)]]) =
     (dialing_client\<lparr>cl_handles := 2, cl_transportConn := Some 1, cl_dataChannel := Some 0\<rparr>, [[Connecting ByUser (CLastRead 0 1)]])"
  by (simp add: quiet_inputs_def Client_setTransportConn_def dialing_client_def)

lemmas dialed_reach = schedule_reach [of meeting_lib "(dialing_client, [[Connecting ByUser (CDial 0 0)]])" quiet_inputs "[0, 0]", unfolded dialed]

theorem client_handles_witness:
  "lifecycle_inv (dialing_client, [[Connecting ByUser (CDial 0 0)]]) \<and>
   (case schedule meeting_lib quiet_inputs [0, 0] (dialing_client, [[Connecting ByUser (CDial 0 0)]]) of (c, ts) \<Rightarrow>
      cl_transportConn c = Some 1 \<and> cl_iceAgent c = Some 0 \<and> mset (placed c @ held_all (concat ts)) = mset [0..<2])"
  using client_handles [OF dialing_inv dialed_reach] dialing_inv
  unfolding dialed by (simp add: dialing_client_def)

text \<open>
  C11. At most one connection attempt runs at a time, and a transport never goes unwatched: whenever the client has a
  transport it has the data channel of the same session, and there is a goroutine that will notice the
  transport's end, the reader, the attempt that is about to start the reader, or a finishTransport of this transport.
\<close>

theorem transport_watched:
  assumes "lifecycle_inv y" and "client_reach W y (c, ts)"
  shows "length (filter in_connect (concat ts)) \<le> 1 \<and>
    (\<forall>t. cl_transportConn c = Some t \<longrightarrow> cl_dataChannel c \<noteq> None \<and> (\<exists>a \<in> set (concat ts). guards a = Some t))"
proof -
  have inv: "one_attempt (c, ts)" "paired (c, ts)" "watched (c, ts)"
    using lifecycle_reach [OF assms(2,1)] by (simp_all add: lifecycle_inv_def)
  have "length (filter in_connect (concat ts)) \<le> 1" using inv(1) by (simp add: one_attempt_def flag_def)
  moreover have "cl_dataChannel c \<noteq> None \<and> (\<exists>a \<in> set (concat ts). guards a = Some t)" if t: "cl_transportConn c = Some t" for t
  proof
    show "cl_dataChannel c \<noteq> None" using inv(2) t by (auto simp: paired_def)
    have "Some t \<in> guards ` set (concat ts)" using inv(3) t unfolding watched_def prod.case by blast
    then show "\<exists>a \<in> set (concat ts). guards a = Some t" by (metis imageE)
  qed
  ultimately show ?thesis by blast
qed

theorem transport_watched_witness:
  "\<exists>c ts. schedule meeting_lib quiet_inputs [0, 0] (dialing_client, [[Connecting ByUser (CDial 0 0)]]) = (c, ts) \<and>
     cl_transportConn c = Some 1 \<and> (\<exists>a \<in> set (concat ts). guards a = Some 1)"
  using transport_watched [OF dialing_inv dialed_reach]
  unfolding dialed by (simp add: dialing_client_def)

text \<open>
  C12. Disconnect is final. When a goroutine runs the critical section of disconnect while the user's disconnect is in force, the client has
  neither an agent nor a transport nor a data channel afterwards, and from then on, whatever connection attempts, reconnect loops, readers,
  monitors and calls of the user are still running or are started, and however they interleave, it never gets one again
  until the user connects.
\<close>

theorem Disconnect_final:
  assumes "cl_manualDisconnect c" and "exec_client W inp c (Disconnecting reconnect DDetach) = (c1, push, spawned)"
    and "(manual_step W)\<^sup>*\<^sup>* (c1, xs @ (push @ rest) # ys @ spawned) (c2, ts)"
  shows "client_step W (c, xs @ (Disconnecting reconnect DDetach # rest) # ys) (c1, xs @ (push @ rest) # ys @ spawned) \<and>
    cl_iceAgent c2 = None \<and> cl_transportConn c2 = None \<and> cl_dataChannel c2 = None"
proof -
  have c1: "cl_manualDisconnect c1" "emptied c1" using assms(1,2) by (auto simp: emptied_def disconnect_detach_def finish_detach_def)
  from manual_reach_emptied [OF assms(3)] c1 show ?thesis by (simp add: step_run [OF assms(2)] emptied_def)
qed

text \<open>The attempt of the sample client, which the user's disconnect overtakes: it dials, and its transport is closed at once.\<close>

definition overtaken_client :: client where
  "overtaken_client = dialing_client\<lparr>cl_manualDisconnect := True\<rparr>"

fun manual_schedule :: "hello_lib \<Rightarrow> client_inputs \<Rightarrow> nat list \<Rightarrow> client_system \<Rightarrow> bool" where
  "manual_schedule W inp [] y \<longleftrightarrow> True"
| "manual_schedule W inp (i # is) y \<longleftrightarrow> cl_manualDisconnect (fst (run_thread W inp i y)) \<and> manual_schedule W inp is (run_thread W inp i y)"

lemma manual_schedule_reach: "manual_schedule W inp is y \<Longrightarrow> (manual_step W)\<^sup>*\<^sup>* y (schedule W inp is y)"
proof (induction "is" arbitrary: y)
  case (Cons i "is")
  then have m: "cl_manualDisconnect (fst (run_thread W inp i y))" and r: "(manual_step W)\<^sup>*\<^sup>* (run_thread W inp i y) (schedule W inp is (run_thread W inp i y))"
    by (simp_all del: run_thread.simps)
  from run_thread_cases [of W inp i y] show ?case
  proof
    assume "client_step W y (run_thread W inp i y)"
    with m have "manual_step W y (run_thread W inp i y)" by (simp add: manual_step_def)
    with r show ?case by (simp add: converse_rtranclp_into_rtranclp del: run_thread.simps)
  qed (use r in \<open>simp del: run_thread.simps\<close>)
qed simp

lemma overtaken:
  "exec_client meeting_lib quiet_inputs overtaken_client (Disconnecting False DDetach) =
     (disconnect_detach overtaken_client, [Disconnecting False (DClose None (Some 0))], [])"
  "manual_schedule meeting_lib quiet_inputs [0, 0] (disconnect_detach overtaken_client, [[Connecting ByUser (CDial 0 0)], [Disconnecting False (DClose None (Some 0))]])"
  "cl_log (fst (schedule meeting_lib quiet_inputs [0, 0] (disconnect_detach overtaken_client,
      [[Connecting ByUser (CDial 0 0)], [Disconnecting False (DClose None (Some 0))]]))) = [ClTransportClosed 1]"
  by (simp_all add: overtaken_client_def dialing_client_def disconnect_detach_def finish_detach_def quiet_inputs_def Client_setTransportConn_def logged_def)

theorem Disconnect_final_witness:
  "\<exists>c2 ts. schedule meeting_lib quiet_inputs [0, 0] (disconnect_detach overtaken_client,
        [[Connecting ByUser (CDial 0 0)], [Disconnecting False (DClose None (Some 0))]]) = (c2, ts) \<and>
     cl_log c2 = [ClTransportClosed 1] \<and> cl_transportConn c2 = None \<and> cl_iceAgent c2 = None"
proof -
  let ?y = "(disconnect_detach overtaken_client, [[Connecting ByUser (CDial 0 0)], [Disconnecting False (DClose None (Some 0))]])"
  obtain c2 ts where y: "schedule meeting_lib quiet_inputs [0, 0] ?y = (c2, ts)" by fastforce
  have "(manual_step meeting_lib)\<^sup>*\<^sup>* (disconnect_detach overtaken_client,
      [[Connecting ByUser (CDial 0 0)]] @ ([Disconnecting False (DClose None (Some 0))] @ []) # [] @ []) (c2, ts)"
    using manual_schedule_reach [OF overtaken(2)] unfolding y by simp
  moreover have "cl_manualDisconnect overtaken_client" by (simp add: overtaken_client_def)
  ultimately have "cl_iceAgent c2 = None \<and> cl_transportConn c2 = None" using Disconnect_final overtaken(1) by blast
  with y overtaken(3) show ?thesis by (metis fst_conv)
qed

end
