(* ===== verification/Client_Race.thy ===== *)
theory Client_Race
  imports Client_Lifecycle
begin

text \<open>
  A race in connectWithContext: the reader and the monitor of a new transport are started before the client is marked as connected
  (peer/client/connect.go:237-239), so a transport that ends at once is detached first and the client is marked
  as connected afterwards.
\<close>

lemma readRound_end:
  "fst (readRound quiet_inputs c t k b packetMode) = False"
  "cl_reconnectGeneration (snd (readRound quiet_inputs c t k b packetMode)) = cl_reconnectGeneration c"
  by (simp_all add: readRound_def quiet_inputs_def readTransport_iter_def readRawTransport_iter_def Let_def upd_reader_def upd_buffer_def upd_handshake_def)

lemma resetBuffer_frame [simp]:
  "cl_reconnectGeneration (resetBuffer c) = cl_reconnectGeneration c" "cl_connected (resetBuffer c) = cl_connected c"
  by (simp_all add: resetBuffer_def upd_buffer_def)

lemma logged_frame [simp]:
  "cl_reconnectGeneration (logged c es) = cl_reconnectGeneration c" "cl_connected (logged c es) = cl_connected c"
  by (simp_all add: logged_def)

text \<open>The reader sees the end of the transport and finishes it; then the attempt goes on; then the reconnect loop and the monitor run.\<close>

definition race :: "nat list" where
  "race = [0, 1, 1, 1, 1, 1, 1, 1, 1, 0, 0, 0, 3, 3, 3, 2]"

text \<open>
  C13. A client can be left marked as connected with no transport and nothing running. From every state in which the user's attempt, the only
  goroutine, has installed its transport and is about to start the reader, a schedule in which the transport ends at once leads to a state in which the
  connected flag is set, there is no transport, and no goroutine is left: Connect returned without an error, the
  reconnect loop gave up because of the flag, and from now on Connect fails and changes nothing.
\<close>

theorem connected_without_transport:
  assumes "cl_transportConn c = Some t" and "cl_dataChannel c = Some k" and "\<not> cl_manualDisconnect c"
  shows "\<exists>c' ts. client_reach W (c, [[Connecting ByUser (CStart k t)]]) (c', ts) \<and> concat ts = [] \<and> cl_connected c' \<and>
    cl_transportConn c' = None \<and> cl_dataChannel c' = None \<and> \<not> cl_manualDisconnect c' \<and>
    (\<forall>inp. exec_client W inp c' (Connecting ByUser CBegin) = (c', [], []))"
proof -
  let ?y = "schedule W quiet_inputs race (c, [[Connecting ByUser (CStart k t)]])"
  have "snd ?y = [[], [], [], []] \<and> cl_connected (fst ?y) \<and> cl_transportConn (fst ?y) = None \<and> cl_dataChannel (fst ?y) = None \<and>
      \<not> cl_manualDisconnect (fst ?y)"
    using assms
    by (simp add: race_def case_prod_unfold readRound_end Client_isCurrentTransport_def finish_detach_def numeral_eq_Suc returned_def)
  moreover have "client_reach W (c, [[Connecting ByUser (CStart k t)]]) (fst ?y, snd ?y)" using schedule_reach by (metis prod.collapse)
  ultimately show ?thesis
    by (intro exI [of _ "fst ?y"] exI [of _ "snd ?y"]) (simp add: returned_def)
qed

theorem connected_without_transport_witness:
  "\<exists>c' ts. client_reach meeting_lib
      (dialing_client\<lparr>cl_handles := 2, cl_transportConn := Some 1, cl_dataChannel := Some 0\<rparr>, [[Connecting ByUser (CStart 0 1)]]) (c', ts) \<and>
     concat ts = [] \<and> cl_connected c' \<and> cl_transportConn c' = None"
  using connected_without_transport [of "dialing_client\<lparr>cl_handles := 2, cl_transportConn := Some 1, cl_dataChannel := Some 0\<rparr>" 1 0 meeting_lib]
  by (auto simp: dialing_client_def)

text \<open>
  The end of the reconnect loop (peer/client/reconnect.go:34-36): if the generation has changed since it connected, it disconnects, also if
  the transport that the client has by then is not the one it made, such as that of a later Reconnect of the user.
\<close>

lemma publishSession_buffers [simp]:
  "cl_buffers (snd (publishSession W inp c serverID k mt p)) = cl_buffers c"
  "cl_recvBuf (snd (publishSession W inp c serverID k mt p)) = cl_recvBuf c"
  by (simp_all add: publishSession_def Let_def logged_def upd_handshake_def split: prod.split sum.split)

lemma stale_reconnect:
  assumes "cl_reconnectGeneration c \<noteq> g" and "cl_recvBuf c < length (cl_buffers c)" and "cl_connected c"
  shows "case schedule W quiet_inputs [0, 0, 0, 0, 0, 0, 0, 0] (c, [[Reconnecting g RSucceeded]]) of (c', ts) \<Rightarrow>
    ts = [[]] \<and> cl_transportConn c' = None \<and> \<not> cl_connected c' \<and> rb_closed (cl_buffers c' ! cl_recvBuf c')"
proof (cases "cl_codec c = None \<or> cl_serverId c = []")
  case True
  with assms show ?thesis
    by (auto simp: disconnect_def disconnect_detach_def finish_detach_def closeBuffer_def upd_buffer_def logged_def RecvBuffer_Close_def
        ByteBudget_Release_def split: option.split)
next
  case False
  with assms show ?thesis
    by (auto simp: disconnect_def disconnect_detach_def finish_detach_def closeBuffer_def upd_buffer_def logged_def RecvBuffer_Close_def
        ByteBudget_Release_def)
qed

end
