(* ===== verification/Stream_Mux.thy ===== *)
theory Stream_Mux
  imports Transport_IO
begin

text \<open>
  The stream multiplexer of example/p2pssh/streammux/mux.go: many byte streams over one connection. A session has a
  table of streams by number and a loop that reads frames; writers send frames under a lock, so a
  frame is one step here. Streams live in a store, \<open>se_heap\<close>, and a pointer is an index. \<open>se_wire\<close> are the bytes written to
  the connection so far and \<open>se_calls\<close> the number of its Write calls; what the \<open>k\<close>-th call returns is the argument \<open>writer k\<close>.
\<close>

section \<open>Constants and receive buffers\<close>

definition frameOpen :: byte where "frameOpen = 1"
definition frameData :: byte where "frameData = 2"
definition frameClose :: byte where "frameClose = 3"
definition headerSize :: nat where "headerSize = 13"
definition defaultMaxPayload :: nat where "defaultMaxPayload = 32 * 1024"
definition defaultBufferSize :: int where "defaultBufferSize = 8 * 1024 * 1024"
definition acceptBacklog :: nat where "acceptBacklog = 128"

lemmas mux_consts = frameOpen_def frameData_def frameClose_def headerSize_def defaultMaxPayload_def defaultBufferSize_def acceptBacklog_def

definition ErrMuxClosed :: go_error where "ErrMuxClosed = Errorf ''stream mux closed''"

record mux_buffer =
  mb_buf :: bytes
  mb_closed :: bool
  mb_deadline :: "int option"
  mb_limit :: int

definition newRecvBuffer :: "int \<Rightarrow> mux_buffer" where
  "newRecvBuffer limit = \<lparr>mb_buf = [], mb_closed = False, mb_deadline = None, mb_limit = (if limit \<le> 0 then defaultBufferSize else limit)\<rparr>"

definition recvBuffer_Write :: "mux_buffer \<Rightarrow> bytes \<Rightarrow> go_error option \<times> mux_buffer" where
  "recvBuffer_Write b data =
     (if mb_closed b then (Some ErrClosedPipe, b)
      else if int (length data) > mb_limit b - int (length (mb_buf b)) then (Some (Errorf ''receive buffer full''), b)
      else (None, b\<lparr>mb_buf := mb_buf b @ data\<rparr>))"

text \<open>One pass of Read at time \<open>now\<close> with a slice of \<open>n\<close> bytes; waiting is \<open>ReadWait\<close>.\<close>

definition recvBuffer_Read :: "mux_buffer \<Rightarrow> int \<Rightarrow> nat \<Rightarrow> read_result \<times> mux_buffer" where
  "recvBuffer_Read b now n =
     (if mb_buf b = [] then
        (if mb_closed b then (ReadErr ErrEOF, b)
         else (case mb_deadline b of
                 None \<Rightarrow> (ReadWait, b)
               | Some d \<Rightarrow> (if d - now \<le> 0 then ReadErr ErrDeadlineExceeded else ReadWait, b)))
      else (ReadData (take n (mb_buf b)), b\<lparr>mb_buf := drop n (mb_buf b)\<rparr>))"

definition recvBuffer_SetDeadline :: "mux_buffer \<Rightarrow> int option \<Rightarrow> mux_buffer" where
  "recvBuffer_SetDeadline b t = b\<lparr>mb_deadline := t\<rparr>"

definition recvBuffer_closeEOF :: "mux_buffer \<Rightarrow> mux_buffer" where
  "recvBuffer_closeEOF b = b\<lparr>mb_closed := True\<rparr>"

definition recvBuffer_abort :: "mux_buffer \<Rightarrow> mux_buffer" where
  "recvBuffer_abort b = b\<lparr>mb_closed := True, mb_buf := []\<rparr>"

section \<open>Sessions and streams\<close>

text \<open>A stream's \<open>done\<close> channel is closed exactly when its closeOnce has run.\<close>

record mux_stream =
  st_id :: u64
  st_recv :: mux_buffer
  st_done :: bool
  st_writeDeadline :: "int option"

record session =
  se_maxPayload :: nat
  se_bufferSize :: int
  se_nextID :: u64
  se_streams :: "u64 \<rightharpoonup> nat"
  se_heap :: "mux_stream list"
  se_err :: "go_error option"
  se_acceptCh :: "nat list"
  se_done :: bool
  se_wire :: bytes
  se_calls :: nat

definition newSession :: session where
  "newSession = \<lparr>se_maxPayload = defaultMaxPayload, se_bufferSize = defaultBufferSize, se_nextID = 0, se_streams = Map.empty, se_heap = [],
     se_err = None, se_acceptCh = [], se_done = False, se_wire = [], se_calls = 0\<rparr>"

definition mux_NewClient :: session where "mux_NewClient = newSession\<lparr>se_nextID := 1\<rparr>"
definition mux_NewServer :: session where "mux_NewServer = newSession\<lparr>se_nextID := 2\<rparr>"

abbreviation stream_at :: "session \<Rightarrow> nat \<Rightarrow> mux_stream" where
  "stream_at s p \<equiv> se_heap s ! p"

definition upd_stream :: "session \<Rightarrow> nat \<Rightarrow> (mux_stream \<Rightarrow> mux_stream) \<Rightarrow> session" where
  "upd_stream s p f = s\<lparr>se_heap := (se_heap s)[p := f (se_heap s ! p)]\<rparr>"

definition newStream :: "session \<Rightarrow> u64 \<Rightarrow> nat \<times> session" where
  "newStream s i = (length (se_heap s),
     s\<lparr>se_heap := se_heap s @ [\<lparr>st_id = i, st_recv = newRecvBuffer (se_bufferSize s), st_done = False, st_writeDeadline = None\<rparr>]\<rparr>)"

definition addStream :: "session \<Rightarrow> nat \<Rightarrow> go_error option \<times> session" where
  "addStream s p =
     (case se_err s of
        Some err \<Rightarrow> (Some err, s)
      | None \<Rightarrow> (None, s\<lparr>se_streams := (se_streams s)(st_id (stream_at s p) \<mapsto> p)\<rparr>))"

definition removeStream :: "session \<Rightarrow> u64 \<Rightarrow> session" where
  "removeStream s i = s\<lparr>se_streams := (se_streams s)(i := None)\<rparr>"

definition getStream :: "session \<Rightarrow> u64 \<Rightarrow> nat option" where
  "getStream s i = se_streams s i"

definition Stream_closeRemote :: "mux_stream \<Rightarrow> mux_stream" where
  "Stream_closeRemote st = (if st_done st then st else st\<lparr>st_done := True, st_recv := recvBuffer_closeEOF (st_recv st)\<rparr>)"

definition Stream_abortLocal :: "mux_stream \<Rightarrow> mux_stream" where
  "Stream_abortLocal st = (if st_done st then st else st\<lparr>st_done := True, st_recv := recvBuffer_abort (st_recv st)\<rparr>)"

text \<open>closeWithError with a non-nil error: the once has run exactly when the error is set. It aborts the streams of the table.\<close>

definition closeWithError :: "session \<Rightarrow> go_error \<Rightarrow> session" where
  "closeWithError s err =
     (if se_err s \<noteq> None then s
      else s\<lparr>se_err := Some err,
             se_heap := map (\<lambda>p. if se_streams s (st_id (stream_at s p)) = Some p then Stream_abortLocal (stream_at s p) else stream_at s p)
               [0..<length (se_heap s)],
             se_streams := Map.empty, se_done := True\<rparr>)"

definition Session_closeErr :: "session \<Rightarrow> go_error option" where
  "Session_closeErr s = se_err s"

definition Session_IsClosed :: "session \<Rightarrow> bool" where
  "Session_IsClosed s = se_done s"

section \<open>Writing\<close>

text \<open>writeFull from the \<open>k\<close>-th Write call on: the error, the number of calls made so far, and the bytes that went out.\<close>

function writeFull :: "(nat \<Rightarrow> nat \<times> go_error option) \<Rightarrow> nat \<Rightarrow> bytes \<Rightarrow> go_error option \<times> nat \<times> bytes" where
  "writeFull writer k data =
     (if data = [] then (None, k, [])
      else (let (n, err) = writer k; n = min n (length data)
            in if err \<noteq> None then (err, Suc k, take n data)
               else if n = 0 then (Some ErrShortWrite, Suc k, [])
               else (case writeFull writer (Suc k) (drop n data) of (err, k', out) \<Rightarrow> (err, k', take n data @ out))))"
  by pat_completeness auto
termination
  by (relation "measure (\<lambda>(w, k, data). length data)") auto

declare writeFull.simps [simp del]

definition mux_header :: "byte \<Rightarrow> u64 \<Rightarrow> nat \<Rightarrow> bytes" where
  "mux_header typ i n = typ # be_put 8 (unat i) @ be_put 4 n"

definition writeFrame :: "(nat \<Rightarrow> nat \<times> go_error option) \<Rightarrow> session \<Rightarrow> byte \<Rightarrow> u64 \<Rightarrow> bytes \<Rightarrow> go_error option \<times> session" where
  "writeFrame writer s typ i payload =
     (if length payload > se_maxPayload s then (Some (Errorf ''stream mux payload too large''), s)
      else if se_done s then (Some (case se_err s of Some err \<Rightarrow> err | None \<Rightarrow> ErrMuxClosed), s)
      else (case writeFull writer (se_calls s) (mux_header typ i (length payload)) of
              (Some err, k, out) \<Rightarrow> (Some err, closeWithError (s\<lparr>se_calls := k, se_wire := se_wire s @ out\<rparr>) err)
            | (None, k, out) \<Rightarrow>
                (let s = s\<lparr>se_calls := k, se_wire := se_wire s @ out\<rparr>
                 in if payload = [] then (None, s)
                    else (case writeFull writer k payload of
                            (Some err, k, out) \<Rightarrow> (Some err, closeWithError (s\<lparr>se_calls := k, se_wire := se_wire s @ out\<rparr>) err)
                          | (None, k, out) \<Rightarrow> (None, s\<lparr>se_calls := k, se_wire := se_wire s @ out\<rparr>)))))"

text \<open>
  Stream.Write with one round per frame; \<open>timedOut\<close> says that the write deadline has passed. With payloads of at least one byte the length of the
  data is enough fuel.
\<close>

fun Stream_writeLoop ::
  "nat \<Rightarrow> (nat \<Rightarrow> nat \<times> go_error option) \<Rightarrow> session \<Rightarrow> u64 \<Rightarrow> bytes \<Rightarrow> nat \<Rightarrow> (nat \<times> go_error option) outcome \<times> session" where
  "Stream_writeLoop fuel writer s i p written =
     (if written \<ge> length p then (Returned (written, None), s)
      else (case fuel of
              0 \<Rightarrow> (Running, s)
            | Suc fuel \<Rightarrow>
                (let stop = min (written + se_maxPayload s) (length p)
                 in (case writeFrame writer s frameData i (take (stop - written) (drop written p)) of
                       (Some err, s) \<Rightarrow> (Returned (written, Some err), s)
                     | (None, s) \<Rightarrow> Stream_writeLoop fuel writer s i p stop))))"

declare Stream_writeLoop.simps [simp del]

definition Stream_Write ::
  "(nat \<Rightarrow> nat \<times> go_error option) \<Rightarrow> session \<Rightarrow> nat \<Rightarrow> bool \<Rightarrow> bytes \<Rightarrow> (nat \<times> go_error option) outcome \<times> session" where
  "Stream_Write writer s st timedOut p =
     (if st_done (stream_at s st) then (Returned (0, Some ErrClosedPipe), s)
      else if timedOut then (Returned (0, Some ErrDeadlineExceeded), s)
      else Stream_writeLoop (length p) writer s (st_id (stream_at s st)) p 0)"

definition Stream_writeTimedOut :: "mux_stream \<Rightarrow> int \<Rightarrow> bool" where
  "Stream_writeTimedOut st now = (case st_writeDeadline st of None \<Rightarrow> False | Some d \<Rightarrow> now > d)"

definition Stream_Read :: "session \<Rightarrow> nat \<Rightarrow> int \<Rightarrow> nat \<Rightarrow> read_result \<times> session" where
  "Stream_Read s p now n =
     (case recvBuffer_Read (st_recv (stream_at s p)) now n of (r, b) \<Rightarrow> (r, upd_stream s p (\<lambda>st. st\<lparr>st_recv := b\<rparr>)))"

definition Stream_SetReadDeadline :: "session \<Rightarrow> nat \<Rightarrow> int option \<Rightarrow> session" where
  "Stream_SetReadDeadline s p t = upd_stream s p (\<lambda>st. st\<lparr>st_recv := recvBuffer_SetDeadline (st_recv st) t\<rparr>)"

definition Stream_SetWriteDeadline :: "session \<Rightarrow> nat \<Rightarrow> int option \<Rightarrow> session" where
  "Stream_SetWriteDeadline s p t = upd_stream s p (\<lambda>st. st\<lparr>st_writeDeadline := t\<rparr>)"

definition Stream_SetDeadline :: "session \<Rightarrow> nat \<Rightarrow> int option \<Rightarrow> session" where
  "Stream_SetDeadline s p t = Stream_SetWriteDeadline (Stream_SetReadDeadline s p t) p t"

text \<open>
  Stream.Close: it closes the stream and empties its buffer, takes it out of the table, and sends the close frame. The operations of a session
  run here one after the other, so a second caller finds the body of closeOnce finished; a caller during that body would wait for it.
\<close>

definition Stream_Close ::
  "(nat \<Rightarrow> nat \<times> go_error option) \<Rightarrow> session \<Rightarrow> nat \<Rightarrow> go_error option \<times> session" where
  "Stream_Close writer s p =
     (if st_done (stream_at s p) then (None, s)
      else (let s = upd_stream s p Stream_abortLocal;
                s = removeStream s (st_id (stream_at s p))
            in writeFrame writer s frameClose (st_id (stream_at s p)) []))"

section \<open>Opening and accepting\<close>

text \<open>\<open>ctx\<close> and \<open>ctx'\<close> are the errors of the context at the two points where Dial looks at it.\<close>

definition Session_Dial ::
  "(nat \<Rightarrow> nat \<times> go_error option) \<Rightarrow> session \<Rightarrow> go_error option \<Rightarrow> go_error option \<Rightarrow> nat result \<times> session" where
  "Session_Dial writer s ctx ctx' =
     (case ctx of
        Some err \<Rightarrow> (Inl err, s)
      | None \<Rightarrow>
          (let i = se_nextID s; s = s\<lparr>se_nextID := se_nextID s + 2\<rparr>;
               (p, s) = newStream s i
           in (case addStream s p of
                 (Some err, s) \<Rightarrow> (Inl err, s)
               | (None, s) \<Rightarrow>
                   (case writeFrame writer s frameOpen i [] of
                      (Some err, s) \<Rightarrow> (Inl err, upd_stream (removeStream s i) p Stream_abortLocal)
                    | (None, s) \<Rightarrow>
                        (case ctx' of
                           Some err \<Rightarrow> (Inl err, snd (Stream_Close writer s p))
                         | None \<Rightarrow> (Inr p, s))))))"

text \<open>Accept when something is ready; with a stream and a closed session both ready, \<open>pick\<close> says which is chosen. None is waiting.\<close>

definition Session_Accept :: "session \<Rightarrow> bool \<Rightarrow> (nat result \<times> session) option" where
  "Session_Accept s pick =
     (case se_acceptCh s of
        p # ps \<Rightarrow>
          if se_done s \<and> \<not> pick then Some (Inl (case se_err s of Some err \<Rightarrow> err | None \<Rightarrow> ErrMuxClosed), s)
          else Some (Inr p, s\<lparr>se_acceptCh := ps\<rparr>)
      | [] \<Rightarrow> if se_done s then Some (Inl (case se_err s of Some err \<Rightarrow> err | None \<Rightarrow> ErrMuxClosed), s) else None)"

definition Session_Close :: "session \<Rightarrow> go_error option \<Rightarrow> go_error option \<times> session" where
  "Session_Close s connClose = (connClose, closeWithError s ErrMuxClosed)"

section \<open>The read loop\<close>

text \<open>
  What one round of the loop does: go on, end, or wait to hand a new stream to Accept because the channel for it is full.
\<close>

datatype loop_state = LoopOn | LoopEnd | LoopWait nat

text \<open>
  The select that offers a new stream to Accept. With room in the channel and a closed session both cases are ready, and \<open>pick\<close> says which
  is chosen. In handleFrame the session has just taken the stream, so it is not closed and nothing depends on the choice.
\<close>

definition handOver :: "session \<Rightarrow> nat \<Rightarrow> bool \<Rightarrow> loop_state \<times> session" where
  "handOver s p pick =
     (if length (se_acceptCh s) < acceptBacklog \<and> (pick \<or> \<not> se_done s) then (LoopOn, s\<lparr>se_acceptCh := se_acceptCh s @ [p]\<rparr>)
      else if se_done s then (LoopEnd, upd_stream s p Stream_abortLocal)
      else (LoopWait p, s))"

definition handleFrame ::
  "(nat \<Rightarrow> nat \<times> go_error option) \<Rightarrow> session \<Rightarrow> byte \<Rightarrow> u64 \<Rightarrow> bytes \<Rightarrow> loop_state \<times> session" where
  "handleFrame writer s typ i payload =
     (if typ = frameOpen then
        (let (p, s) = newStream s i
         in (case addStream s p of
               (Some err, s) \<Rightarrow> (LoopEnd, upd_stream s p Stream_abortLocal)
             | (None, s) \<Rightarrow> handOver s p True))
      else if typ = frameData then
        (case getStream s i of
           None \<Rightarrow> (LoopOn, s)
         | Some p \<Rightarrow>
             (case recvBuffer_Write (st_recv (stream_at s p)) payload of
                (Some err, b) \<Rightarrow> (LoopEnd, closeWithError (snd (Stream_Close writer s p)) (Errorf ''stream receive buffer''))
              | (None, b) \<Rightarrow> (LoopOn, upd_stream s p (\<lambda>st. st\<lparr>st_recv := b\<rparr>))))
      else if typ = frameClose then
        (case getStream s i of
           None \<Rightarrow> (LoopOn, s)
         | Some p \<Rightarrow> (LoopOn, upd_stream (removeStream s i) p Stream_closeRemote))
      else (LoopEnd, closeWithError s (Errorf ''unknown stream mux frame type'')))"

text \<open>One round on the bytes that the connection delivers until it ends; io.ReadFull fails if there are too few.\<close>

definition readLoop_iter ::
  "(nat \<Rightarrow> nat \<times> go_error option) \<Rightarrow> session \<Rightarrow> bytes \<Rightarrow> loop_state \<times> session \<times> bytes" where
  "readLoop_iter writer s input =
     (if length input < headerSize
      then (LoopEnd, closeWithError s (if input = [] then ErrEOF else ErrUnexpectedEOF), [])
      else (let typ = input ! 0; i = (of_nat (be_get (take 8 (drop 1 input))) :: u64); n = be_get (take 4 (drop 9 input)); input = drop headerSize input
            in if n > se_maxPayload s then (LoopEnd, closeWithError s (Errorf ''stream mux frame too large''), input)
               else if length input < n
               then (LoopEnd, closeWithError s (if input = [] then ErrEOF else ErrUnexpectedEOF), [])
               else (case handleFrame writer s typ i (take n input) of (l, s) \<Rightarrow> (l, s, drop n input))))"

text \<open>The loop on what has arrived so far: with nothing left it waits for more, which is \<open>LoopOn\<close>.\<close>

fun readLoop ::
  "nat \<Rightarrow> (nat \<Rightarrow> nat \<times> go_error option) \<Rightarrow> session \<Rightarrow> bytes \<Rightarrow> loop_state \<times> session \<times> bytes" where
  "readLoop 0 writer s input = (LoopOn, s, input)"
| "readLoop (Suc fuel) writer s input =
     (if input = [] then (LoopOn, s, [])
      else (case readLoop_iter writer s input of
              (LoopOn, s, rest) \<Rightarrow> readLoop fuel writer s rest
            | (l, s, rest) \<Rightarrow> (l, s, rest)))"

section \<open>Frames on the wire\<close>

definition good_writer :: "(nat \<Rightarrow> nat \<times> go_error option) \<Rightarrow> bool" where
  "good_writer writer \<longleftrightarrow> (\<forall>k. snd (writer k) = None \<and> 0 < fst (writer k))"

lemma writeFull_good: "good_writer writer \<Longrightarrow> \<exists>k'. writeFull writer k data = (None, k', data)"
proof (induction writer k data rule: writeFull.induct)
  case (1 writer k data)
  show ?case
  proof (cases "data = []")
    case True
    then show ?thesis by (simp add: writeFull.simps)
  next
    case False
    obtain n where n: "writer k = (n, None)" "0 < n" using 1(2) by (metis good_writer_def prod.collapse)
    have "\<exists>k'. writeFull writer (Suc k) (drop (min n (length data)) data) = (None, k', drop (min n (length data)) data)"
      using 1(1) [OF False n(1) [symmetric] refl] n False 1(2) by simp
    then show ?thesis using n False by (auto simp: writeFull.simps [of writer k data] Let_def)
  qed
qed

definition mux_frame :: "byte \<times> u64 \<times> bytes \<Rightarrow> bytes" where
  "mux_frame f = (case f of (typ, i, payload) \<Rightarrow> mux_header typ i (length payload) @ payload)"

definition sent :: "session \<Rightarrow> nat \<Rightarrow> (byte \<times> u64 \<times> bytes) list \<Rightarrow> session" where
  "sent s k fs = s\<lparr>se_calls := k, se_wire := se_wire s @ concat (map mux_frame fs)\<rparr>"

lemma sent_simps [simp]:
  "se_maxPayload (sent s k fs) = se_maxPayload s" "se_done (sent s k fs) = se_done s" "se_err (sent s k fs) = se_err s"
  "se_heap (sent s k fs) = se_heap s" "se_streams (sent s k fs) = se_streams s" "se_nextID (sent s k fs) = se_nextID s"
  "sent (sent s k fs) j gs = sent s j (fs @ gs)" "se_wire (sent s k fs) = se_wire s @ concat (map mux_frame fs)"
  "se_bufferSize (sent s k fs) = se_bufferSize s"
  by (simp_all add: sent_def)

lemma writeFrame_good:
  assumes "good_writer writer" and "\<not> se_done s" and "length payload \<le> se_maxPayload s"
  shows "\<exists>k. writeFrame writer s typ i payload = (None, sent s k [(typ, i, payload)])"
proof -
  obtain k where k: "writeFull writer (se_calls s) (mux_header typ i (length payload)) = (None, k, mux_header typ i (length payload))"
    using writeFull_good [OF assms(1)] by blast
  obtain k' where "writeFull writer k payload = (None, k', payload)" using writeFull_good [OF assms(1)] by blast
  with k assms show ?thesis by (auto simp: writeFrame_def sent_def mux_frame_def Let_def)
qed

lemma Stream_writeLoop_good:
  assumes "good_writer writer" and "0 < se_maxPayload s" and "\<not> se_done s" and "written \<le> length p" and "length p \<le> written + fuel"
  shows "\<exists>k ps. Stream_writeLoop fuel writer s i p written = (Returned (length p, None), sent s k (map (\<lambda>x. (frameData, i, x)) ps)) \<and>
    concat ps = drop written p \<and> (\<forall>x \<in> set ps. length x \<le> se_maxPayload s)"
  using assms
proof (induction fuel arbitrary: s written)
  case 0
  then show ?case by (intro exI [of _ "se_calls s"] exI [of _ "[]"]) (simp add: Stream_writeLoop.simps sent_def)
next
  case (Suc fuel)
  show ?case
  proof (cases "written \<ge> length p")
    case True
    then show ?thesis using Suc.prems by (intro exI [of _ "se_calls s"] exI [of _ "[]"]) (simp add: Stream_writeLoop.simps sent_def)
  next
    case False
    define stop where "stop = min (written + se_maxPayload s) (length p)"
    define x where "x = take (stop - written) (drop written p)"
    have x: "length x \<le> se_maxPayload s" "x @ drop stop p = drop written p"
      using False by (auto simp: x_def stop_def min_def) (metis append_take_drop_id drop_drop add.commute)
    obtain k where k: "writeFrame writer s frameData i x = (None, sent s k [(frameData, i, x)])"
      using writeFrame_good [OF Suc.prems(1,3) x(1)] by blast
    have "stop \<le> length p" "length p \<le> stop + fuel" using Suc.prems False by (auto simp: stop_def)
    then obtain k' ps where ps: "Stream_writeLoop fuel writer (sent s k [(frameData, i, x)]) i p stop =
        (Returned (length p, None), sent (sent s k [(frameData, i, x)]) k' (map (\<lambda>x. (frameData, i, x)) ps))"
      "concat ps = drop stop p" "\<forall>x \<in> set ps. length x \<le> se_maxPayload s"
      using Suc.IH [of "sent s k [(frameData, i, x)]" stop] Suc.prems by auto
    have "Stream_writeLoop (Suc fuel) writer s i p written = Stream_writeLoop fuel writer (sent s k [(frameData, i, x)]) i p stop"
      using False k by (simp add: Stream_writeLoop.simps [of "Suc fuel"] Let_def stop_def x_def)
    with ps x show ?thesis by (intro exI [of _ k'] exI [of _ "x # ps"]) simp
  qed
qed

text \<open>A round of the loop reads one frame.\<close>

lemma length_mux_header [simp]: "length (mux_header typ i n) = headerSize"
  by (simp add: mux_header_def headerSize_def)

lemma readLoop_frame:
  assumes "length payload \<le> se_maxPayload s" and "length payload < 2 ^ 32"
  shows "readLoop_iter writer s (mux_frame (typ, i, payload) @ rest) =
    (case handleFrame writer s typ i payload of (l, s) \<Rightarrow> (l, s, rest))"
proof -
  let ?in = "mux_frame (typ, i, payload) @ rest"
  have parts: "?in ! 0 = typ" "take 8 (drop 1 ?in) = be_put 8 (unat i)" "take 4 (drop 9 ?in) = be_put 4 (length payload)"
      "drop headerSize ?in = payload @ rest"
    by (simp_all add: mux_frame_def mux_header_def headerSize_def)
  have "(of_nat (be_get (be_put 8 (unat i))) :: u64) = i"
    using unsigned_less [of i, where 'a = nat] by (simp add: be_get_put)
  moreover have "be_get (be_put 4 (length payload)) = length payload" using assms(2) by (simp add: be_get_put)
  moreover have "\<not> length ?in < headerSize" by (simp add: mux_frame_def)
  ultimately show ?thesis using assms(1) unfolding readLoop_iter_def parts Let_def by simp
qed

fun receive :: "(nat \<Rightarrow> nat \<times> go_error option) \<Rightarrow> session \<Rightarrow> (byte \<times> u64 \<times> bytes) list \<Rightarrow> loop_state \<times> session" where
  "receive writer s [] = (LoopOn, s)"
| "receive writer s ((typ, i, payload) # fs) =
     (case handleFrame writer s typ i payload of (LoopOn, s) \<Rightarrow> receive writer s fs | (l, s) \<Rightarrow> (l, s))"

lemma receive_append: "receive writer s fs = (LoopOn, s') \<Longrightarrow> receive writer s (fs @ gs) = receive writer s' gs"
  by (induction fs arbitrary: s) (auto split: prod.split_asm loop_state.split_asm)

lemma handleFrame_maxPayload [simp]: "handleFrame writer s typ i payload = (LoopOn, s') \<Longrightarrow> se_maxPayload s' = se_maxPayload s"
  by (auto simp: handleFrame_def newStream_def addStream_def handOver_def upd_stream_def removeStream_def
      split: if_split_asm option.split_asm prod.split_asm)

definition frame_fits :: "session \<Rightarrow> byte \<times> u64 \<times> bytes \<Rightarrow> bool" where
  "frame_fits s f \<longleftrightarrow> length (snd (snd f)) \<le> se_maxPayload s"

lemma readLoop_receive:
  assumes "receive writer s fs = (LoopOn, s')" and "\<forall>f \<in> set fs. frame_fits s f" and "se_maxPayload s < 2 ^ 32" and "length fs \<le> fuel"
  shows "readLoop fuel writer s (concat (map mux_frame fs)) = (LoopOn, s', [])"
  using assms
proof (induction fs arbitrary: s fuel)
  case Nil
  then show ?case by (cases fuel) simp_all
next
  case (Cons f fs)
  obtain ty i payload where f: "f = (ty, i, payload)" by (cases f)
  obtain n where n: "fuel = Suc n" using Cons.prems(4) by (cases fuel) auto
  obtain s1 where h: "handleFrame writer s ty i payload = (LoopOn, s1)" and r: "receive writer s1 fs = (LoopOn, s')"
    using Cons.prems(1) by (auto simp: f split: prod.split_asm loop_state.split_asm)
  have m: "se_maxPayload s1 = se_maxPayload s" using h by simp
  have len: "length payload \<le> se_maxPayload s" using Cons.prems(2) by (simp add: f frame_fits_def)
  have "readLoop_iter writer s (mux_frame f @ concat (map mux_frame fs)) = (LoopOn, s1, concat (map mux_frame fs))"
    using readLoop_frame [OF len, of writer ty i] len Cons.prems(3) h by (simp add: f)
  moreover have "mux_frame f \<noteq> []" by (simp add: f mux_frame_def mux_header_def)
  moreover have "readLoop n writer s1 (concat (map mux_frame fs)) = (LoopOn, s', [])"
    using Cons.IH [OF r] Cons.prems(2-4) m n by (simp add: frame_fits_def)
  ultimately show ?case using n by simp
qed

section \<open>Two ends of a session\<close>

text \<open>
  Calls on one end; a pointer beyond the streams opened so far names no stream. Next to them what they mean: how many
  streams there are, which are closed, and the bytes written on each while it was open.
\<close>

datatype mux_call = MDial | MWrite nat bytes | MClose nat

definition mux_call_step :: "(nat \<Rightarrow> nat \<times> go_error option) \<Rightarrow> session \<Rightarrow> mux_call \<Rightarrow> session" where
  "mux_call_step writer s call =
     (case call of
        MDial \<Rightarrow> snd (Session_Dial writer s None None)
      | MWrite p d \<Rightarrow> if p < length (se_heap s) then snd (Stream_Write writer s p False d) else s
      | MClose p \<Rightarrow> if p < length (se_heap s) then snd (Stream_Close writer s p) else s)"

definition mux_calls :: "(nat \<Rightarrow> nat \<times> go_error option) \<Rightarrow> mux_call list \<Rightarrow> session" where
  "mux_calls writer calls = foldl (mux_call_step writer) mux_NewClient calls"

type_synonym mux_spec = "nat \<times> (nat \<Rightarrow> bool) \<times> (nat \<Rightarrow> bytes)"

definition mux_spec_step :: "mux_spec \<Rightarrow> mux_call \<Rightarrow> mux_spec" where
  "mux_spec_step y call =
     (case y of (n, closed, h) \<Rightarrow>
        (case call of
           MDial \<Rightarrow> (Suc n, closed, h)
         | MWrite p d \<Rightarrow> (n, closed, if p < n \<and> \<not> closed p then h(p := h p @ d) else h)
         | MClose p \<Rightarrow> (n, if p < n then closed(p := True) else closed, h)))"

definition mux_meaning :: "mux_call list \<Rightarrow> mux_spec" where
  "mux_meaning calls = foldl mux_spec_step (0, \<lambda>_. False, \<lambda>_. []) calls"

definition tracks :: "session \<Rightarrow> mux_spec \<Rightarrow> bool" where
  "tracks a y \<longleftrightarrow> (case y of (n, closed, h) \<Rightarrow> n = length (se_heap a) \<and> (\<forall>p. closed p \<longleftrightarrow> p < n \<and> st_done (stream_at a p)))"

text \<open>
  The server's end mirrors the client's: stream by stream the same number, the same openness, and in the server's buffer what was
  written on the client's stream.
\<close>

definition same_stream :: "mux_stream \<Rightarrow> mux_stream \<Rightarrow> nat \<Rightarrow> bytes \<Rightarrow> bool" where
  "same_stream a b p d \<longleftrightarrow> st_id a = of_nat (2 * p + 1) \<and> st_id b = st_id a \<and> st_done b = st_done a \<and> mb_closed (st_recv b) = st_done a \<and>
     mb_buf (st_recv b) = d \<and> mb_limit (st_recv b) = defaultBufferSize"

definition mirrored :: "session \<Rightarrow> session \<Rightarrow> (nat \<Rightarrow> bytes) \<Rightarrow> bool" where
  "mirrored a b h \<longleftrightarrow> se_err a = None \<and> \<not> se_done a \<and> se_err b = None \<and> \<not> se_done b \<and>
     se_maxPayload a = defaultMaxPayload \<and> se_maxPayload b = defaultMaxPayload \<and> se_bufferSize a = defaultBufferSize \<and> se_bufferSize b = defaultBufferSize \<and>
     length (se_heap b) = length (se_heap a) \<and> length (se_heap a) \<le> acceptBacklog \<and> se_acceptCh b = [0..<length (se_heap a)] \<and>
     se_nextID a = of_nat (2 * length (se_heap a) + 1) \<and> se_streams b = se_streams a \<and> (\<forall>p \<ge> length (se_heap a). h p = []) \<and>
     (\<forall>p < length (se_heap a). same_stream (stream_at a p) (stream_at b p) p (h p)) \<and>
     (\<forall>p < length (se_heap a). se_streams a (st_id (stream_at a p)) = (if st_done (stream_at a p) then None else Some p))"

lemma mirrored_new: "mirrored mux_NewClient mux_NewServer (\<lambda>_. [])"
  by (simp add: mirrored_def mux_NewClient_def mux_NewServer_def newSession_def)

lemma of_nat_u64_inj: "x < 2 ^ 64 \<Longrightarrow> y < 2 ^ 64 \<Longrightarrow> (of_nat x :: u64) = of_nat y \<Longrightarrow> x = y"
  by (simp add: word_of_nat_eq_iff take_bit_nat_eq_self)

lemma stream_number_inj:
  assumes "p \<le> acceptBacklog" and "q \<le> acceptBacklog" and "(of_nat (2 * p + 1) :: u64) = of_nat (2 * q + 1)"
  shows "p = q"
proof -
  have "2 * p + 1 = 2 * q + 1" using assms(1,2) by (intro of_nat_u64_inj [OF _ _ assms(3)]) (simp_all add: acceptBacklog_def)
  then show ?thesis by simp
qed

lemma mirrored_stream:
  assumes "mirrored a b h" and "p < length (se_heap a)"
  shows "same_stream (stream_at a p) (stream_at b p) p (h p)"
    "se_streams b (st_id (stream_at a p)) = (if st_done (stream_at a p) then None else Some p)" "p < length (se_heap b)"
    "\<not> se_done a" "se_err a = None" "se_maxPayload a = defaultMaxPayload" "se_maxPayload b = defaultMaxPayload" "p < acceptBacklog"
  using assms by (auto simp: mirrored_def)

lemma mirrored_sent [simp]: "mirrored (sent a k fs) b h = mirrored a b h"
  by (simp add: mirrored_def)

lemma mirrored_dial:
  assumes m: "mirrored a b h" and w: "good_writer writer" and l: "length (se_heap a) < acceptBacklog"
  shows "\<exists>k a' b'. snd (Session_Dial writer a None None) = sent a' k [(frameOpen, se_nextID a, [])] \<and> se_wire a' = se_wire a \<and>
    handleFrame writer' b frameOpen (se_nextID a) [] = (LoopOn, b') \<and> mirrored a' b' h \<and>
    (\<exists>st. se_heap a' = se_heap a @ [st] \<and> \<not> st_done st)"
proof -
  let ?n = "length (se_heap a)" and ?i = "se_nextID a"
  define st where "st = \<lparr>st_id = ?i, st_recv = newRecvBuffer defaultBufferSize, st_done = False, st_writeDeadline = None\<rparr>"
  define a' where "a' = a\<lparr>se_nextID := ?i + 2, se_heap := se_heap a @ [st], se_streams := (se_streams a)(?i \<mapsto> ?n)\<rparr>"
  define b' where "b' = b\<lparr>se_heap := se_heap b @ [st], se_streams := (se_streams b)(?i \<mapsto> ?n), se_acceptCh := [0..<Suc ?n]\<rparr>"
  have f: "se_err a = None" "\<not> se_done a" "se_err b = None" "se_bufferSize a = defaultBufferSize" "se_bufferSize b = defaultBufferSize"
    "length (se_heap b) = ?n" "se_acceptCh b = [0..<?n]"
    using m by (simp_all add: mirrored_def)
  have "\<not> se_done a'" using f by (simp add: a'_def)
  from writeFrame_good [OF w this, of "[]"] obtain k where k: "writeFrame writer a' frameOpen ?i [] = (None, sent a' k [(frameOpen, ?i, [])])"
    by auto
  have na: "newStream (a\<lparr>se_nextID := ?i + 2\<rparr>) ?i = (?n, a\<lparr>se_nextID := ?i + 2, se_heap := se_heap a @ [st]\<rparr>)"
    using f(4) by (simp add: newStream_def st_def)
  have aa: "addStream (a\<lparr>se_nextID := ?i + 2, se_heap := se_heap a @ [st]\<rparr>) ?n = (None, a')"
    using f(1) by (simp add: addStream_def a'_def) (simp add: st_def)
  have nb: "newStream b ?i = (?n, b\<lparr>se_heap := se_heap b @ [st]\<rparr>)" using f(5,6) by (simp add: newStream_def st_def)
  have ab: "addStream (b\<lparr>se_heap := se_heap b @ [st]\<rparr>) ?n = (None, b\<lparr>se_heap := se_heap b @ [st], se_streams := (se_streams b)(?i \<mapsto> ?n)\<rparr>)"
    using f(3,6) by (simp add: addStream_def nth_append) (simp add: st_def)
  have "snd (Session_Dial writer a None None) = sent a' k [(frameOpen, ?i, [])]"
    unfolding Session_Dial_def Let_def option.case na prod.case aa k by simp
  moreover have "handleFrame writer' b frameOpen ?i [] = (LoopOn, b')"
    unfolding handleFrame_def Let_def nb prod.case ab using f(7) l by (simp add: handOver_def b'_def)
  moreover have "mirrored a' b' h"
  proof -
    have i: "?i = of_nat (2 * ?n + 1)" using m by (simp add: mirrored_def)
    have other: "st_id (stream_at a p) \<noteq> ?i" if "p < ?n" for p
      using stream_number_inj [of p ?n] mirrored_stream(1) [OF m that] that l unfolding i same_stream_def by fastforce
    have "same_stream st st ?n (h ?n)" using m i by (simp add: same_stream_def st_def newRecvBuffer_def mirrored_def defaultBufferSize_def)
    with m other l show ?thesis
      unfolding mirrored_def by (auto simp: a'_def b'_def st_def i nth_append less_Suc_eq acceptBacklog_def)
  qed
  ultimately show ?thesis by (intro exI [of _ k] exI [of _ a'] exI [of _ b']) (simp add: a'_def st_def)
qed

lemma receive_data:
  assumes "se_streams b i = Some p" and "p < length (se_heap b)" and "\<not> mb_closed (st_recv (stream_at b p))"
    and "int (length (mb_buf (st_recv (stream_at b p)))) + int (length (concat ps)) \<le> mb_limit (st_recv (stream_at b p))"
  shows "receive writer b (map (\<lambda>x. (frameData, i, x)) ps) =
    (LoopOn, upd_stream b p (\<lambda>st. st\<lparr>st_recv := st_recv st\<lparr>mb_buf := mb_buf (st_recv st) @ concat ps\<rparr>\<rparr>))"
  using assms
proof (induction ps arbitrary: b)
  case Nil
  then show ?case by (simp add: upd_stream_def)
next
  case (Cons x ps)
  let ?b = "upd_stream b p (\<lambda>st. st\<lparr>st_recv := st_recv st\<lparr>mb_buf := mb_buf (st_recv st) @ x\<rparr>\<rparr>)"
  have "handleFrame writer b frameData i x = (LoopOn, ?b)"
    using Cons.prems by (simp add: handleFrame_def getStream_def recvBuffer_Write_def mux_consts upd_stream_def)
  moreover have "receive writer ?b (map (\<lambda>x. (frameData, i, x)) ps) =
      (LoopOn, upd_stream ?b p (\<lambda>st. st\<lparr>st_recv := st_recv st\<lparr>mb_buf := mb_buf (st_recv st) @ concat ps\<rparr>\<rparr>))"
    using Cons.prems by (intro Cons.IH) (simp_all add: upd_stream_def)
  ultimately show ?case using Cons.prems(2) by (simp add: upd_stream_def)
qed

lemma mirrored_write:
  assumes m: "mirrored a b h" and w: "good_writer writer" and p: "p < length (se_heap a)"
    and room: "int (length (h p)) + int (length d) \<le> defaultBufferSize"
  shows "\<exists>k ps b'. Stream_Write writer a p False d =
      (Returned (if st_done (stream_at a p) then (0, Some ErrClosedPipe) else (length d, None)), sent a k (map (\<lambda>x. (frameData, st_id (stream_at a p), x)) ps)) \<and>
    (\<forall>x \<in> set ps. length x \<le> defaultMaxPayload) \<and>
    receive writer' b (map (\<lambda>x. (frameData, st_id (stream_at a p), x)) ps) = (LoopOn, b') \<and>
    mirrored a b' (if st_done (stream_at a p) then h else h(p := h p @ d))"
proof (cases "st_done (stream_at a p)")
  case True
  then show ?thesis
    using m by (intro exI [of _ "se_calls a"] exI [of _ "[]"] exI [of _ b])
      (simp add: Stream_Write_def sent_def)
next
  case False
  note st = mirrored_stream [OF m p]
  obtain k ps where ps: "Stream_writeLoop (length d) writer a (st_id (stream_at a p)) d 0 =
      (Returned (length d, None), sent a k (map (\<lambda>x. (frameData, st_id (stream_at a p), x)) ps))"
    "concat ps = d" "\<forall>x \<in> set ps. length x \<le> se_maxPayload a"
    using Stream_writeLoop_good [OF w _ st(4), of 0 d "length d" "st_id (stream_at a p)"] st(6) by (auto simp: defaultMaxPayload_def)
  let ?b = "upd_stream b p (\<lambda>st. st\<lparr>st_recv := st_recv st\<lparr>mb_buf := mb_buf (st_recv st) @ d\<rparr>\<rparr>)"
  have "receive writer' b (map (\<lambda>x. (frameData, st_id (stream_at a p), x)) ps) = (LoopOn, ?b)"
    using receive_data [of b "st_id (stream_at a p)" p ps writer'] st(1-3) False room ps(2) by (simp add: same_stream_def)
  moreover have "mirrored a ?b (h(p := h p @ d))"
    using m p unfolding mirrored_def by (auto simp: upd_stream_def nth_list_update same_stream_def)
  ultimately show ?thesis
    using ps st(6) False
    by (intro exI [of _ k] exI [of _ ps] exI [of _ ?b]) (simp add: Stream_Write_def)
qed

lemma mirrored_close:
  assumes m: "mirrored a b h" and w: "good_writer writer" and p: "p < length (se_heap a)"
  shows "\<exists>k a' fs b'. snd (Stream_Close writer a p) = sent a' k fs \<and> se_wire a' = se_wire a \<and> (\<forall>f \<in> set fs. snd (snd f) = []) \<and>
    receive writer' b fs = (LoopOn, b') \<and> mirrored a' b' h \<and> length (se_heap a') = length (se_heap a) \<and>
    (\<forall>q < length (se_heap a). st_done (stream_at a' q) = (st_done (stream_at a q) \<or> q = p))"
proof (cases "st_done (stream_at a p)")
  case True
  then show ?thesis
    using m by (intro exI [of _ "se_calls a"] exI [of _ a] exI [of _ "[]"] exI [of _ b]) (auto simp: Stream_Close_def sent_def)
next
  case False
  note st = mirrored_stream [OF m p]
  let ?i = "st_id (stream_at a p)"
  define a' where "a' = removeStream (upd_stream a p Stream_abortLocal) ?i"
  define b' where "b' = upd_stream (removeStream b ?i) p Stream_closeRemote"
  have "\<not> se_done a'" using st(4) by (simp add: a'_def removeStream_def upd_stream_def)
  from writeFrame_good [OF w this, of "[]"] obtain k where k: "writeFrame writer a' frameClose ?i [] = (None, sent a' k [(frameClose, ?i, [])])"
    by auto
  have i: "st_id (stream_at (upd_stream a p Stream_abortLocal) p) = ?i" "st_id (stream_at a' p) = ?i"
    using p by (simp_all add: a'_def removeStream_def upd_stream_def Stream_abortLocal_def)
  have "snd (Stream_Close writer a p) = sent a' k [(frameClose, ?i, [])]"
    using False i k by (simp add: Stream_Close_def Let_def a'_def)
  moreover have "handleFrame writer' b frameClose ?i [] = (LoopOn, b')"
    using st(2) False by (simp add: handleFrame_def getStream_def b'_def mux_consts)
  moreover have "mirrored a' b' h"
  proof -
    have "st_id (stream_at a q) \<noteq> ?i" if "q < length (se_heap a)" "q \<noteq> p" for q
      using stream_number_inj [of q p] mirrored_stream(1) [OF m that(1)] st(1,8) mirrored_stream(8) [OF m that(1)] that(2)
      unfolding same_stream_def by fastforce
    with m p False show ?thesis
      unfolding mirrored_def same_stream_def a'_def b'_def removeStream_def upd_stream_def
      by (auto simp: nth_list_update Stream_abortLocal_def Stream_closeRemote_def recvBuffer_closeEOF_def)
  qed
  moreover have "se_wire a' = se_wire a" "length (se_heap a') = length (se_heap a)"
      "\<forall>q < length (se_heap a). st_done (stream_at a' q) = (st_done (stream_at a q) \<or> q = p)"
    using p by (auto simp: a'_def removeStream_def upd_stream_def nth_list_update Stream_abortLocal_def)
  ultimately show ?thesis
    by (intro exI [of _ k] exI [of _ a'] exI [of _ "[(frameClose, ?i, [])]"] exI [of _ b']) simp
qed

text \<open>What is left to do fits: the streams into the backlog, the data into the buffers.\<close>

fun call_dials :: "mux_call list \<Rightarrow> nat" where
  "call_dials [] = 0"
| "call_dials (MDial # calls) = Suc (call_dials calls)"
| "call_dials (_ # calls) = call_dials calls"

fun call_bytes :: "mux_call list \<Rightarrow> nat" where
  "call_bytes [] = 0"
| "call_bytes (MWrite p d # calls) = length d + call_bytes calls"
| "call_bytes (_ # calls) = call_bytes calls"

lemma mux_call_mirrored:
  assumes m: "mirrored a b h" and t: "tracks a (n, closed, h)" and w: "good_writer writer" and d: "call_dials [c] + n \<le> acceptBacklog"
    and room: "\<And>p. int (length (h p)) + int (call_bytes [c]) \<le> defaultBufferSize"
    and y: "mux_spec_step (n, closed, h) c = (n', closed', h')"
  shows "\<exists>a' fs b'. mux_call_step writer a c = a' \<and> se_wire a' = se_wire a @ concat (map mux_frame fs) \<and>
    (\<forall>f \<in> set fs. length (snd (snd f)) \<le> defaultMaxPayload) \<and> receive writer' b fs = (LoopOn, b') \<and> mirrored a' b' h' \<and> tracks a' (n', closed', h')"
proof (cases c)
  case MDial
  with d t have "length (se_heap a) < acceptBacklog" by (simp add: tracks_def)
  from mirrored_dial [OF m w this, of writer'] obtain k a' b' st where
    r: "snd (Session_Dial writer a None None) = sent a' k [(frameOpen, se_nextID a, [])]" "se_wire a' = se_wire a"
    "handleFrame writer' b frameOpen (se_nextID a) [] = (LoopOn, b')" "mirrored a' b' h" "se_heap a' = se_heap a @ [st]" "\<not> st_done st"
    by blast
  have y': "n' = Suc n" "closed' = closed" "h' = h" using y by (simp_all add: mux_spec_step_def MDial)
  have "tracks (sent a' k [(frameOpen, se_nextID a, [])]) (n', closed', h')"
    using t r(5,6) unfolding tracks_def y' prod.case by (simp add: nth_append)
  with r(1-4) show ?thesis
    by (intro exI [of _ "sent a' k [(frameOpen, se_nextID a, [])]"] exI [of _ "[(frameOpen, se_nextID a, [])]"] exI [of _ b'])
      (simp add: mux_call_step_def MDial y'(3))
next
  case (MWrite p x)
  show ?thesis
  proof (cases "p < length (se_heap a)")
    case True
    from mirrored_write [OF m w True, of x writer'] room [of p] MWrite obtain k ps b' r where
      r: "Stream_Write writer a p False x = (r, sent a k (map (\<lambda>y. (frameData, st_id (stream_at a p), y)) ps))"
      "\<forall>y \<in> set ps. length y \<le> defaultMaxPayload" "receive writer' b (map (\<lambda>y. (frameData, st_id (stream_at a p), y)) ps) = (LoopOn, b')"
      "mirrored a b' (if st_done (stream_at a p) then h else h(p := h p @ x))"
      by auto
    have "p < n" "closed p = st_done (stream_at a p)" using t True by (simp_all add: tracks_def)
    then have y': "n' = n" "closed' = closed" "h' = (if st_done (stream_at a p) then h else h(p := h p @ x))"
      using y by (auto simp: mux_spec_step_def MWrite)
    have "tracks (sent a k (map (\<lambda>y. (frameData, st_id (stream_at a p), y)) ps)) (n', closed', h')" using t by (simp add: tracks_def y'(1,2))
    with r y'(3) True show ?thesis
      by (intro exI [of _ "sent a k (map (\<lambda>y. (frameData, st_id (stream_at a p), y)) ps)"]
          exI [of _ "map (\<lambda>y. (frameData, st_id (stream_at a p), y)) ps"] exI [of _ b']) (simp add: mux_call_step_def MWrite)
  next
    case False
    then show ?thesis
      using m t y by (intro exI [of _ a] exI [of _ "[]"] exI [of _ b]) (simp add: mux_call_step_def mux_spec_step_def tracks_def MWrite)
  qed
next
  case (MClose p)
  show ?thesis
  proof (cases "p < length (se_heap a)")
    case True
    from mirrored_close [OF m w True, of writer'] obtain k a' fs b' where
      r: "snd (Stream_Close writer a p) = sent a' k fs" "se_wire a' = se_wire a" "\<forall>f \<in> set fs. snd (snd f) = []"
      "receive writer' b fs = (LoopOn, b')" "mirrored a' b' h" "length (se_heap a') = length (se_heap a)"
      "\<forall>q < length (se_heap a). st_done (stream_at a' q) = (st_done (stream_at a q) \<or> q = p)"
      by blast
    have "p < n" using t True by (simp add: tracks_def)
    then have y': "n' = n" "closed' = closed(p := True)" "h' = h" using y by (auto simp: mux_spec_step_def MClose)
    have "tracks (sent a' k fs) (n', closed', h')" using t r(6,7) \<open>p < n\<close> unfolding tracks_def y' prod.case by auto
    with r(1-5) True show ?thesis
      by (intro exI [of _ "sent a' k fs"] exI [of _ fs] exI [of _ b']) (simp add: mux_call_step_def MClose y'(3))
  next
    case False
    then show ?thesis
      using m t y by (intro exI [of _ a] exI [of _ "[]"] exI [of _ b]) (simp add: mux_call_step_def mux_spec_step_def tracks_def MClose)
  qed
qed

lemma mux_spec_bytes:
  "mux_spec_step (n, closed, h) c = (n', closed', h') \<Longrightarrow> length (h' p) \<le> length (h p) + call_bytes [c] \<and> n' = n + call_dials [c]"
  by (cases c) (auto simp: mux_spec_step_def split: if_split_asm)

lemma mux_calls_mirrored:
  assumes "good_writer writer" and "mirrored a b h" and "tracks a (n, closed, h)" and "call_dials calls + n \<le> acceptBacklog"
    and "\<And>p. int (length (h p)) + int (call_bytes calls) \<le> defaultBufferSize"
    and "foldl mux_spec_step (n, closed, h) calls = (n', closed', h')"
  shows "\<exists>a' fs b'. foldl (mux_call_step writer) a calls = a' \<and> se_wire a' = se_wire a @ concat (map mux_frame fs) \<and>
    (\<forall>f \<in> set fs. length (snd (snd f)) \<le> defaultMaxPayload) \<and> receive writer' b fs = (LoopOn, b') \<and> mirrored a' b' h' \<and> tracks a' (n', closed', h')"
  using assms(2-)
proof (induction calls arbitrary: a b n closed h)
  case Nil
  then show ?case by (intro exI [of _ a] exI [of _ "[]"] exI [of _ b]) simp
next
  case (Cons c calls)
  have n: "call_dials (c # calls) = call_dials [c] + call_dials calls" "call_bytes (c # calls) = call_bytes [c] + call_bytes calls"
    by (cases c; simp)+
  obtain n1 closed1 h1 where y: "mux_spec_step (n, closed, h) c = (n1, closed1, h1)" by (cases "mux_spec_step (n, closed, h) c")
  note y' = mux_spec_bytes [OF y]
  have room: "int (length (h p)) + int (call_bytes [c]) \<le> defaultBufferSize" for p using Cons.prems(4) [of p] n(2) by linarith
  have "call_dials [c] + n \<le> acceptBacklog" using Cons.prems(3) n(1) by simp
  from mux_call_mirrored [OF Cons.prems(1,2) assms(1) this room y, of writer'] obtain a1 fs b1 where
    s: "mux_call_step writer a c = a1" "se_wire a1 = se_wire a @ concat (map mux_frame fs)"
      "\<forall>f \<in> set fs. length (snd (snd f)) \<le> defaultMaxPayload" "receive writer' b fs = (LoopOn, b1)" "mirrored a1 b1 h1" "tracks a1 (n1, closed1, h1)"
    by blast
  have "int (length (h1 p)) + int (call_bytes calls) \<le> defaultBufferSize" for p using y' [of p] Cons.prems(4) [of p] n(2) by linarith
  moreover have "call_dials calls + n1 \<le> acceptBacklog" using Cons.prems(3) n(1) y' by simp
  moreover have "foldl mux_spec_step (n1, closed1, h1) calls = (n', closed', h')" using Cons.prems(5) y by simp
  ultimately obtain a' gs b' where
    g: "foldl (mux_call_step writer) a1 calls = a'" "se_wire a' = se_wire a1 @ concat (map mux_frame gs)"
      "\<forall>f \<in> set gs. length (snd (snd f)) \<le> defaultMaxPayload" "receive writer' b1 gs = (LoopOn, b')" "mirrored a' b' h'" "tracks a' (n', closed', h')"
    using Cons.IH [OF s(5,6)] by blast
  have "receive writer' b (fs @ gs) = (LoopOn, b')" using receive_append [OF s(4)] g(4) by simp
  with s g show ?case by (intro exI [of _ a'] exI [of _ "fs @ gs"] exI [of _ b']) auto
qed

lemma frames_length: "length fs \<le> length (concat (map mux_frame fs))"
  by (induction fs) (auto simp: mux_frame_def headerSize_def split: prod.split)

text \<open>
  C14. The multiplexer delivers every stream by itself. On the client's end any sequence of calls opens streams, writes and closes,
  over a connection that accepts the bytes, in pieces of any size. If there are at most 128 streams and 8 MiB of data, the
  read loop of the server's end goes through the whole wire without an error. Then it has a stream for each one that was opened, in
  order; the stream's buffer holds exactly the bytes that were written on this stream while it was open, in
  order, and the stream is closed exactly if the client closed it.
\<close>

theorem mux_delivery:
  assumes "good_writer writer" and "call_dials calls \<le> acceptBacklog" and "int (call_bytes calls) \<le> defaultBufferSize"
    and "mux_meaning calls = (n, closed, h)"
  shows "\<exists>b. readLoop (length (se_wire (mux_calls writer calls))) writer' mux_NewServer (se_wire (mux_calls writer calls)) = (LoopOn, b, []) \<and>
    se_acceptCh b = [0..<n] \<and>
    (\<forall>p < n. st_id (stream_at b p) = of_nat (2 * p + 1) \<and> mb_buf (st_recv (stream_at b p)) = h p \<and> mb_closed (st_recv (stream_at b p)) = closed p)"
proof -
  have t: "tracks mux_NewClient (0, \<lambda>_. False, \<lambda>_. [])" by (simp add: tracks_def mux_NewClient_def newSession_def)
  have "int (length ((\<lambda>_. []) p :: bytes)) + int (call_bytes calls) \<le> defaultBufferSize" for p :: nat using assms(3) by simp
  from mux_calls_mirrored [OF assms(1) mirrored_new t _ this assms(4) [unfolded mux_meaning_def], of writer'] assms(2) obtain a fs b where
    m: "mux_calls writer calls = a" "se_wire a = concat (map mux_frame fs)" "\<forall>f \<in> set fs. length (snd (snd f)) \<le> defaultMaxPayload"
      "receive writer' mux_NewServer fs = (LoopOn, b)" "mirrored a b h" "tracks a (n, closed, h)"
    by (auto simp: mux_calls_def mux_meaning_def mux_NewClient_def newSession_def)
  have "readLoop (length (se_wire a)) writer' mux_NewServer (se_wire a) = (LoopOn, b, [])"
    unfolding m(2) using m(3) frames_length [of fs]
    by (intro readLoop_receive [OF m(4)]) (auto simp: frame_fits_def mux_NewServer_def newSession_def defaultMaxPayload_def)
  with m show ?thesis
    by (intro exI [of _ b]) (auto simp: mirrored_def same_stream_def tracks_def)
qed

theorem mux_delivery_witness:
  "\<exists>b. readLoop (length (se_wire (mux_calls (\<lambda>_. (5, None)) [MDial, MDial, MWrite 0 [1, 2], MWrite 1 [9], MWrite 0 [3], MClose 0, MWrite 0 [4]])))
       (\<lambda>_. (5, None)) mux_NewServer (se_wire (mux_calls (\<lambda>_. (5, None)) [MDial, MDial, MWrite 0 [1, 2], MWrite 1 [9], MWrite 0 [3], MClose 0, MWrite 0 [4]])) =
       (LoopOn, b, []) \<and>
     mb_buf (st_recv (stream_at b 0)) = [1, 2, 3] \<and> mb_closed (st_recv (stream_at b 0)) \<and> mb_buf (st_recv (stream_at b 1)) = [9]"
proof -
  let ?calls = "[MDial, MDial, MWrite 0 [1, 2], MWrite 1 [9], MWrite 0 [3], MClose 0, MWrite 0 [4]]"
  have h: "good_writer (\<lambda>_. (5, None))" "call_dials ?calls \<le> acceptBacklog" "int (call_bytes ?calls) \<le> defaultBufferSize"
    by (simp_all add: good_writer_def mux_consts)
  have m: "mux_meaning ?calls = (2, (\<lambda>_. False)(0 := True), (\<lambda>_. [])(0 := [1, 2, 3], 1 := [9]))"
    by (simp add: mux_meaning_def mux_spec_step_def fun_upd_twist)
  show ?thesis
    using mux_delivery [OF h m, of "\<lambda>_. (5, None)"] by (elim exE) (rule exI, auto)
qed

text \<open>
  C15. Closing one stream can end the whole session. Stream.Close empties and closes the stream's buffer before it takes the stream out of
  the table. If the read loop handles a data frame for this stream in between, it takes the closed buffer for an overrun and
  closes the session: the loop ends and every other stream loses its unread data.
\<close>

theorem close_ends_session:
  assumes "se_err s = None" and "se_streams s (st_id (stream_at s p)) = Some p" and "p < length (se_heap s)" and "\<not> st_done (stream_at s p)"
    and "se_streams s (st_id (stream_at s q)) = Some q" and "q < length (se_heap s)" and "\<not> st_done (stream_at s q)" and "q \<noteq> p"
  shows "\<exists>s'. handleFrame writer (upd_stream s p Stream_abortLocal) frameData (st_id (stream_at s p)) payload = (LoopEnd, s') \<and>
    se_done s' \<and> st_done (stream_at s' q) \<and> mb_buf (st_recv (stream_at s' q)) = [] \<and> se_streams s' = Map.empty"
proof -
  let ?s = "upd_stream s p Stream_abortLocal"
  have d: "st_done (stream_at ?s p)" "mb_closed (st_recv (stream_at ?s p))" "stream_at ?s q = stream_at s q" "se_streams ?s = se_streams s"
      "se_err ?s = None" "length (se_heap ?s) = length (se_heap s)"
    using assms by (simp_all add: upd_stream_def Stream_abortLocal_def recvBuffer_abort_def)
  have "handleFrame writer ?s frameData (st_id (stream_at s p)) payload = (LoopEnd, closeWithError ?s (Errorf ''stream receive buffer''))"
    using assms(2) d by (simp add: handleFrame_def getStream_def recvBuffer_Write_def Stream_Close_def mux_consts)
  then show ?thesis
    using d assms(5-7) by (simp add: closeWithError_def Stream_abortLocal_def recvBuffer_abort_def)
qed

definition two_streams :: session where
  "two_streams = mux_NewServer\<lparr>se_heap := map (\<lambda>i. \<lparr>st_id = i, st_recv = newRecvBuffer defaultBufferSize, st_done = False, st_writeDeadline = None\<rparr>) [1, 3],
     se_streams := [1 \<mapsto> 0, 3 \<mapsto> 1]\<rparr>"

theorem close_ends_session_witness:
  "\<exists>s'. handleFrame (\<lambda>_. (5, None)) (upd_stream two_streams 0 Stream_abortLocal) frameData 1 [7] = (LoopEnd, s') \<and> se_done s' \<and> st_done (stream_at s' 1)"
  using close_ends_session [of two_streams 0 1 "\<lambda>_. (5, None)" "[7]"]
  by (force simp: two_streams_def mux_NewServer_def newSession_def)

end
