(* ===== verification/Ring_Buffer.thy ===== *)
theory Ring_Buffer
  imports Prelude
begin

text \<open>
  RingBuffer of transports/transport_quic/congestion/bbr/ringbuffer.go: a growable circular
  buffer. The theory has its operations, with panics as \<open>None\<close>, the queue
  interface its users rely on, and the interpretation of the interface by the ring, whose
  abstraction is the list of its elements from front to back.
\<close>

section \<open>The ring and its operations\<close>

record 'a ring_buffer =
  ring :: "'a list"
  headPos :: nat
  tailPos :: nat
  full :: bool

definition RingBuffer_zero :: "'a ring_buffer" where
  "RingBuffer_zero = \<lparr>ring = [], headPos = 0, tailPos = 0, full = False\<rparr>"

text \<open>The argument \<open>z\<close> is the zero value of the element type, which Go stores in fresh slots.\<close>

definition RingBuffer_Init :: "'a \<Rightarrow> 'a ring_buffer \<Rightarrow> nat \<Rightarrow> 'a ring_buffer" where
  "RingBuffer_Init z r n = r\<lparr>ring := replicate n z\<rparr>"

definition RingBuffer_Len :: "'a ring_buffer \<Rightarrow> nat" where
  "RingBuffer_Len r =
     (if full r then length (ring r)
      else if tailPos r \<ge> headPos r then tailPos r - headPos r
      else tailPos r + length (ring r) - headPos r)"

definition RingBuffer_Empty :: "'a ring_buffer \<Rightarrow> bool" where
  "RingBuffer_Empty r \<longleftrightarrow> \<not> full r \<and> headPos r = tailPos r"

definition RingBuffer_grow :: "'a \<Rightarrow> 'a ring_buffer \<Rightarrow> 'a ring_buffer" where
  "RingBuffer_grow z r =
     (let oldRing = ring r;
          newSize = (if length oldRing * 2 = 0 then 1 else length oldRing * 2)
      in \<lparr>ring = drop (headPos r) oldRing @ take (headPos r) oldRing @ replicate (newSize - length oldRing) z,
          headPos = 0, tailPos = length oldRing, full = False\<rparr>)"

definition RingBuffer_PushBack :: "'a \<Rightarrow> 'a ring_buffer \<Rightarrow> 'a \<Rightarrow> 'a ring_buffer option" where
  "RingBuffer_PushBack z r t =
     (let r1 = (if full r \<or> length (ring r) = 0 then RingBuffer_grow z r else r)
      in if tailPos r1 < length (ring r1) then
           (let tail1 = tailPos r1 + 1;
                tail2 = (if tail1 = length (ring r1) then 0 else tail1)
            in Some (r1\<lparr>ring := (ring r1)[tailPos r1 := t], tailPos := tail2,
                        full := (if tail2 = headPos r1 then True else full r1)\<rparr>))
         else None)"

definition RingBuffer_PopFront :: "'a \<Rightarrow> 'a ring_buffer \<Rightarrow> ('a \<times> 'a ring_buffer) option" where
  "RingBuffer_PopFront z r =
     (if RingBuffer_Empty r \<or> headPos r \<ge> length (ring r) then None
      else (let head1 = headPos r + 1
            in Some (ring r ! headPos r,
                 r\<lparr>full := False, ring := (ring r)[headPos r := z],
                   headPos := (if head1 = length (ring r) then 0 else head1)\<rparr>)))"

text \<open>
  Offset, Front and Back return a pointer into the ring: here the slot it points to. Reading and
  writing through the pointer are \<open>RingBuffer_at\<close> and \<open>RingBuffer_set\<close>.
\<close>

definition RingBuffer_Offset :: "'a ring_buffer \<Rightarrow> nat \<Rightarrow> nat option" where
  "RingBuffer_Offset r index =
     (if RingBuffer_Empty r \<or> index \<ge> RingBuffer_Len r then None
      else (let offset = (headPos r + index) mod length (ring r)
            in if offset < length (ring r) then Some offset else None))"

definition RingBuffer_Front :: "'a ring_buffer \<Rightarrow> nat option" where
  "RingBuffer_Front r =
     (if RingBuffer_Empty r \<or> headPos r \<ge> length (ring r) then None else Some (headPos r))"

definition RingBuffer_Back :: "'a ring_buffer \<Rightarrow> nat option" where
  "RingBuffer_Back r = (if RingBuffer_Empty r then None else RingBuffer_Offset r (RingBuffer_Len r - 1))"

definition RingBuffer_at :: "'a ring_buffer \<Rightarrow> nat \<Rightarrow> 'a option" where
  "RingBuffer_at r index = map_option (\<lambda>slot. ring r ! slot) (RingBuffer_Offset r index)"

definition RingBuffer_set :: "'a ring_buffer \<Rightarrow> nat \<Rightarrow> 'a \<Rightarrow> 'a ring_buffer option" where
  "RingBuffer_set r index x = map_option (\<lambda>slot. r\<lparr>ring := (ring r)[slot := x]\<rparr>) (RingBuffer_Offset r index)"

definition RingBuffer_Clear :: "'a \<Rightarrow> 'a ring_buffer \<Rightarrow> 'a ring_buffer" where
  "RingBuffer_Clear z r = \<lparr>ring = replicate (length (ring r)) z, headPos = 0, tailPos = 0, full = False\<rparr>"

section \<open>The queue interface\<close>

locale fifo_queue =
  fixes push :: "'q \<Rightarrow> 'a \<Rightarrow> 'q option"
    and pop :: "'q \<Rightarrow> ('a \<times> 'q) option"
    and len :: "'q \<Rightarrow> nat"
    and contents :: "'q \<Rightarrow> 'a list"
    and inv :: "'q \<Rightarrow> bool"
  assumes push_ok: "inv q \<Longrightarrow> \<exists>q'. push q x = Some q' \<and> inv q' \<and> contents q' = contents q @ [x]"
    and pop_empty: "inv q \<Longrightarrow> contents q = [] \<Longrightarrow> pop q = None"
    and pop_ok: "inv q \<Longrightarrow> contents q = x # xs \<Longrightarrow> \<exists>q'. pop q = Some (x, q') \<and> inv q' \<and> contents q' = xs"
    and len_ok: "inv q \<Longrightarrow> len q = length (contents q)"
begin

fun push_all :: "'q \<Rightarrow> 'a list \<Rightarrow> 'q option" where
  "push_all q [] = Some q"
| "push_all q (x # xs) = (case push q x of None \<Rightarrow> None | Some q' \<Rightarrow> push_all q' xs)"

fun pop_n :: "nat \<Rightarrow> 'q \<Rightarrow> 'q option" where
  "pop_n 0 q = Some q"
| "pop_n (Suc n) q = (case pop q of None \<Rightarrow> None | Some (_, q') \<Rightarrow> pop_n n q')"

lemma push_all_ok:
  "inv q \<Longrightarrow> \<exists>q'. push_all q xs = Some q' \<and> inv q' \<and> contents q' = contents q @ xs"
proof (induction xs arbitrary: q)
  case Nil
  then show ?case by simp
next
  case (Cons x xs)
  obtain q' where "push q x = Some q'" "inv q'" "contents q' = contents q @ [x]"
    using push_ok [OF Cons.prems] by blast
  with Cons.IH [of q'] show ?case by auto
qed

lemma pop_n_ok:
  "inv q \<Longrightarrow> n \<le> length (contents q) \<Longrightarrow>
     \<exists>q'. pop_n n q = Some q' \<and> inv q' \<and> contents q' = drop n (contents q)"
proof (induction n arbitrary: q)
  case 0
  then show ?case by simp
next
  case (Suc n)
  then obtain x xs where c: "contents q = x # xs"
    by (cases "contents q") auto
  then obtain q' where "pop q = Some (x, q')" "inv q'" "contents q' = xs"
    using pop_ok [OF Suc.prems(1)] by blast
  with Suc.IH [of q'] Suc.prems c show ?case by simp
qed

end

locale indexed_queue = fifo_queue push pop len contents inv
  for push :: "'q \<Rightarrow> 'a \<Rightarrow> 'q option" and pop and len and contents and inv +
  fixes get :: "'q \<Rightarrow> nat \<Rightarrow> 'a option"
    and set_at :: "'q \<Rightarrow> nat \<Rightarrow> 'a \<Rightarrow> 'q option"
  assumes get_ok: "inv q \<Longrightarrow> get q i = (if i < length (contents q) then Some (contents q ! i) else None)"
    and set_ok: "inv q \<Longrightarrow> i < length (contents q) \<Longrightarrow>
          \<exists>q'. set_at q i x = Some q' \<and> inv q' \<and> contents q' = (contents q)[i := x]"

section \<open>The ring implements the queue\<close>

definition ring_inv :: "'a ring_buffer \<Rightarrow> bool" where
  "ring_inv r \<longleftrightarrow>
     (if ring r = [] then headPos r = 0 \<and> tailPos r = 0 \<and> \<not> full r
      else headPos r < length (ring r) \<and> tailPos r < length (ring r) \<and> (full r \<longrightarrow> headPos r = tailPos r))"

definition ring_list :: "'a ring_buffer \<Rightarrow> 'a list" where
  "ring_list r = map (\<lambda>i. ring r ! ((headPos r + i) mod length (ring r))) [0..<RingBuffer_Len r]"

lemma length_ring_list [simp]: "length (ring_list r) = RingBuffer_Len r"
  by (simp add: ring_list_def)

lemma ring_list_nth: "i < RingBuffer_Len r \<Longrightarrow> ring_list r ! i = ring r ! ((headPos r + i) mod length (ring r))"
  by (simp add: ring_list_def)

lemma mod_double: "m < n + n \<Longrightarrow> m mod n = (if m < n then m else m - (n :: nat))"
  by (simp add: le_mod_geq)

lemma mod_add_inj:
  fixes h :: nat
  assumes "(h + i) mod n = (h + j) mod n" and "i < n" and "j < n"
  shows "i = j"
proof -
  define k where "k = h mod n"
  have k: "k < n" using assms(2) by (simp add: k_def)
  have "(k + i) mod n = (k + j) mod n"
    using assms(1) by (simp add: k_def mod_simps)
  moreover have "(k + i) mod n = (if k + i < n then k + i else k + i - n)"
    and "(k + j) mod n = (if k + j < n then k + j else k + j - n)"
    using k assms(2,3) by (intro mod_double; simp)+
  ultimately show ?thesis
    using k assms(2,3) by (auto split: if_splits)
qed

text \<open>The tail is where the next element goes: \<open>Len\<close> slots after the head.\<close>

lemma ring_tail:
  assumes "ring_inv r" and "ring r \<noteq> []"
  shows "tailPos r = (headPos r + RingBuffer_Len r) mod length (ring r)"
  using assms by (auto simp: ring_inv_def RingBuffer_Len_def split: if_splits)

lemma ring_Len_le:
  assumes "ring_inv r"
  shows "RingBuffer_Len r \<le> length (ring r)" and "\<not> full r \<Longrightarrow> ring r \<noteq> [] \<Longrightarrow> RingBuffer_Len r < length (ring r)"
  using assms by (auto simp: ring_inv_def RingBuffer_Len_def split: if_splits)

lemma ring_Empty: "ring_inv r \<Longrightarrow> RingBuffer_Empty r \<longleftrightarrow> RingBuffer_Len r = 0"
  by (auto simp: ring_inv_def RingBuffer_Empty_def RingBuffer_Len_def split: if_splits)

text \<open>The length is determined by where head and tail are.\<close>

lemma ring_Len_eqI:
  assumes "ring_inv r" and "ring r \<noteq> []" and "l < length (ring r)"
    and "tailPos r = (headPos r + l) mod length (ring r)" and "\<not> full r"
  shows "RingBuffer_Len r = l"
proof (rule mod_add_inj [of "headPos r"])
  show "(headPos r + RingBuffer_Len r) mod length (ring r) = (headPos r + l) mod length (ring r)"
    using ring_tail [OF assms(1,2)] assms(4) by simp
  show "RingBuffer_Len r < length (ring r)"
    using ring_Len_le(2) [OF assms(1) assms(5) assms(2)] .
  show "l < length (ring r)" by (rule assms(3))
qed

subsection \<open>Growing\<close>

lemma grow_inv:
  assumes "ring_inv r" and "full r \<or> ring r = []"
  shows "ring_inv (RingBuffer_grow z r)" and "ring (RingBuffer_grow z r) \<noteq> []" and "\<not> full (RingBuffer_grow z r)"
    and "RingBuffer_Len (RingBuffer_grow z r) = RingBuffer_Len r"
  using assms by (auto simp: ring_inv_def RingBuffer_grow_def RingBuffer_Len_def Let_def split: if_splits)

lemma grow_list:
  assumes "ring_inv r" and "full r \<or> ring r = []"
  shows "ring_list (RingBuffer_grow z r) = ring_list r"
proof (rule nth_equalityI)
  show "length (ring_list (RingBuffer_grow z r)) = length (ring_list r)"
    using grow_inv [OF assms] by simp
  fix i assume "i < length (ring_list (RingBuffer_grow z r))"
  then have i: "i < RingBuffer_Len r"
    using grow_inv [OF assms] by simp
  with assms have full: "full r" and i': "i < length (ring r)"
    using ring_Len_le(1) [OF assms(1)] by (auto simp: RingBuffer_Len_def ring_inv_def split: if_splits)
  have h: "headPos r < length (ring r)"
    using assms(1) i' by (auto simp: ring_inv_def split: if_splits)
  have "ring_list (RingBuffer_grow z r) ! i = (drop (headPos r) (ring r) @ take (headPos r) (ring r)) ! i"
  proof -
    have head: "headPos (RingBuffer_grow z r) = 0"
      by (simp add: RingBuffer_grow_def Let_def)
    have g: "ring (RingBuffer_grow z r) =
        (drop (headPos r) (ring r) @ take (headPos r) (ring r)) @ replicate (length (ring r)) z"
      using i' by (auto simp: RingBuffer_grow_def Let_def)
    have len: "length (drop (headPos r) (ring r) @ take (headPos r) (ring r)) = length (ring r)"
      using h by simp
    have "ring_list (RingBuffer_grow z r) ! i = ring (RingBuffer_grow z r) ! (i mod length (ring (RingBuffer_grow z r)))"
      using i grow_inv(4) [OF assms, of z] by (simp add: ring_list_nth head)
    also have "i mod length (ring (RingBuffer_grow z r)) = i"
      using i' unfolding g length_append [of "_ @ _"] len by simp
    also have "ring (RingBuffer_grow z r) ! i = (drop (headPos r) (ring r) @ take (headPos r) (ring r)) ! i"
      unfolding g nth_append [of "_ @ _"] len using i' by simp
    finally show ?thesis .
  qed
  also have "\<dots> = ring r ! ((headPos r + i) mod length (ring r))"
    using h i' by (auto simp: nth_append mod_double add.commute)
  finally show "ring_list (RingBuffer_grow z r) ! i = ring_list r ! i"
    using i by (simp add: ring_list_nth)
qed

subsection \<open>Pushing\<close>

lemma push_room:
  assumes inv: "ring_inv r" and ne: "ring r \<noteq> []" and nf: "\<not> full r"
  shows "\<exists>r'. RingBuffer_PushBack z r x = Some r' \<and> ring_inv r' \<and> ring_list r' = ring_list r @ [x]"
proof -
  let ?n = "length (ring r)" and ?l = "RingBuffer_Len r"
  define tail2 where "tail2 = (if tailPos r + 1 = ?n then 0 else tailPos r + 1)"
  define r' where "r' = r\<lparr>ring := (ring r)[tailPos r := x], tailPos := tail2, full := (tail2 = headPos r)\<rparr>"
  have lt: "?l < ?n" using ring_Len_le(2) [OF inv nf ne] .
  have bounds: "headPos r < ?n" "tailPos r < ?n"
    using inv ne by (auto simp: ring_inv_def)
  have tail: "tailPos r = (headPos r + ?l) mod ?n"
    using ring_tail [OF inv ne] .
  have "tail2 = (tailPos r + 1) mod ?n"
    using bounds by (simp add: tail2_def mod_double)
  also have "\<dots> = (headPos r + (?l + 1)) mod ?n"
    unfolding tail by (simp add: mod_simps)
  finally have tail2: "tail2 = (headPos r + (?l + 1)) mod ?n" .
  have inv': "ring_inv r'"
    using bounds ne tail2 by (auto simp: ring_inv_def r'_def)
  have len': "RingBuffer_Len r' = ?l + 1"
  proof (cases "tail2 = headPos r")
    case True
    have "?l + 1 = ?n"
    proof (rule ccontr)
      assume "?l + 1 \<noteq> ?n"
      with lt have "?l + 1 < ?n" by simp
      moreover have "(headPos r + (?l + 1)) mod ?n = (headPos r + 0) mod ?n"
        using True tail2 bounds(1) by (metis add_0_right mod_less)
      ultimately have "?l + 1 = 0"
        using ne by (intro mod_add_inj [of "headPos r" "?l + 1" ?n 0]) simp_all
      then show False by simp
    qed
    with True show ?thesis by (simp add: RingBuffer_Len_def r'_def)
  next
    case False
    have "?l + 1 \<noteq> ?n"
    proof
      assume "?l + 1 = ?n"
      then have "tail2 = headPos r"
        unfolding tail2 using bounds(1) by (simp only: mod_add_self2 mod_less)
      with False show False by simp
    qed
    with lt have "?l + 1 < ?n" by simp
    with inv' ne tail2 False show ?thesis
      by (intro ring_Len_eqI) (simp_all add: r'_def)
  qed
  have "ring_list r' = ring_list r @ [x]"
  proof (rule nth_equalityI)
    show "length (ring_list r') = length (ring_list r @ [x])"
      using len' by simp
    fix i assume "i < length (ring_list r')"
    then have i: "i < ?l + 1" using len' by simp
    show "ring_list r' ! i = (ring_list r @ [x]) ! i"
    proof (cases "i = ?l")
      case True
      then show ?thesis
        using len' bounds by (simp add: ring_list_nth nth_append) (simp add: r'_def tail [symmetric])
    next
      case False
      with i have "i < ?l" by simp
      then have "(headPos r + i) mod ?n \<noteq> tailPos r"
        using tail mod_add_inj [of "headPos r" i ?n ?l] lt by auto
      with \<open>i < ?l\<close> len' show ?thesis
        by (simp add: ring_list_nth nth_append) (simp add: r'_def)
    qed
  qed
  moreover have "RingBuffer_PushBack z r x = Some r'"
    using nf ne bounds by (simp add: RingBuffer_PushBack_def Let_def r'_def tail2_def)
  ultimately show ?thesis using inv' by blast
qed

lemma PushBack_grow:
  "full r \<or> ring r = [] \<Longrightarrow> ring (RingBuffer_grow z r) \<noteq> [] \<Longrightarrow> \<not> full (RingBuffer_grow z r) \<Longrightarrow>
     RingBuffer_PushBack z r x = RingBuffer_PushBack z (RingBuffer_grow z r) x"
  by (auto simp: RingBuffer_PushBack_def Let_def)

lemma PushBack_ok:
  assumes "ring_inv r"
  shows "\<exists>r'. RingBuffer_PushBack z r x = Some r' \<and> ring_inv r' \<and> ring_list r' = ring_list r @ [x]"
proof (cases "full r \<or> ring r = []")
  case True
  note g = grow_inv [OF assms True, of z]
  from push_room [OF g(1,2,3)] show ?thesis
    unfolding PushBack_grow [OF True g(2,3)] grow_list [OF assms True] .
next
  case False
  then have "ring r \<noteq> []" and "\<not> full r" by simp_all
  with assms show ?thesis by (rule push_room)
qed

subsection \<open>Popping, reading and writing\<close>

lemma PopFront_ok:
  assumes inv: "ring_inv r" and c: "ring_list r = x # xs"
  shows "\<exists>r'. RingBuffer_PopFront z r = Some (x, r') \<and> ring_inv r' \<and> ring_list r' = xs"
proof -
  let ?n = "length (ring r)" and ?l = "RingBuffer_Len r"
  have l: "?l = Suc (length xs)"
    using c length_ring_list [of r] by simp
  then have ne: "ring r \<noteq> []"
    using ring_Len_le(1) [OF inv] by auto
  have bounds: "headPos r < ?n" "tailPos r < ?n"
    using inv ne by (auto simp: ring_inv_def)
  define r' where "r' = r\<lparr>full := False, ring := (ring r)[headPos r := z],
    headPos := (if headPos r + 1 = ?n then 0 else headPos r + 1)\<rparr>"
  have head': "headPos r' = (headPos r + 1) mod ?n"
    using bounds by (simp add: r'_def mod_double)
  have inv': "ring_inv r'"
    using bounds ne by (auto simp: ring_inv_def r'_def)
  have len': "RingBuffer_Len r' = length xs"
  proof (rule ring_Len_eqI [OF inv'])
    show "length xs < length (ring r')"
      using l ring_Len_le(1) [OF inv] by (simp add: r'_def)
    have "tailPos r = (headPos r + 1 + length xs) mod ?n"
      using ring_tail [OF inv ne] l by simp
    then show "tailPos r' = (headPos r' + length xs) mod length (ring r')"
      unfolding head' by (simp add: r'_def mod_simps)
  qed (use ne in \<open>simp_all add: r'_def\<close>)
  have pop: "RingBuffer_PopFront z r = Some (x, r')"
  proof -
    have "x = ring r ! headPos r"
      using c ring_list_nth [of 0 r] l bounds by simp
    moreover have "\<not> RingBuffer_Empty r"
      using ring_Empty [OF inv] l by simp
    ultimately show ?thesis
      using bounds by (simp add: RingBuffer_PopFront_def Let_def r'_def)
  qed
  have "ring_list r' = xs"
  proof (rule nth_equalityI)
    show "length (ring_list r') = length xs" using len' by simp
    fix i assume "i < length (ring_list r')"
    then have i: "i < length xs" using len' by simp
    have slot: "(headPos r' + i) mod ?n = (headPos r + Suc i) mod ?n"
      unfolding head' by (simp add: mod_simps)
    have "Suc i < ?n"
      using i l ring_Len_le(1) [OF inv] by simp
    then have "(headPos r + Suc i) mod ?n \<noteq> headPos r"
      using mod_add_inj [of "headPos r" "Suc i" ?n 0] bounds ne by auto
    with i len' slot have "ring_list r' ! i = ring r ! ((headPos r + Suc i) mod ?n)"
      by (simp add: ring_list_nth) (simp add: r'_def)
    also have "\<dots> = ring_list r ! Suc i"
      using i l by (simp add: ring_list_nth)
    finally show "ring_list r' ! i = xs ! i"
      using c by simp
  qed
  with pop inv' show ?thesis by blast
qed

lemma PopFront_empty: "ring_inv r \<Longrightarrow> ring_list r = [] \<Longrightarrow> RingBuffer_PopFront z r = None"
  using ring_Empty [of r] length_ring_list [of r] by (simp add: RingBuffer_PopFront_def)

lemma ring_Offset:
  assumes "ring_inv r"
  shows "RingBuffer_Offset r i =
    (if i < RingBuffer_Len r then Some ((headPos r + i) mod length (ring r)) else None)"
proof (cases "i < RingBuffer_Len r")
  case True
  with ring_Len_le(1) [OF assms] have "0 < length (ring r)" by linarith
  then have "(headPos r + i) mod length (ring r) < length (ring r)" by (rule mod_less_divisor)
  with True ring_Empty [OF assms] show ?thesis by (simp add: RingBuffer_Offset_def Let_def)
next
  case False
  then show ?thesis by (simp add: RingBuffer_Offset_def)
qed

lemma ring_Front: "ring_inv r \<Longrightarrow> RingBuffer_Front r = RingBuffer_Offset r 0"
  using ring_Empty [of r] ring_Len_le(1) [of r]
  by (auto simp: RingBuffer_Front_def RingBuffer_Offset_def ring_inv_def split: if_splits)

lemma ring_set_ok:
  assumes inv: "ring_inv r" and i: "i < RingBuffer_Len r"
  shows "\<exists>r'. RingBuffer_set r i x = Some r' \<and> ring_inv r' \<and> ring_list r' = (ring_list r)[i := x]"
proof -
  let ?n = "length (ring r)" and ?s = "(headPos r + i) mod length (ring r)"
  define r' where "r' = r\<lparr>ring := (ring r)[?s := x]\<rparr>"
  have n: "i < ?n"
    using i ring_Len_le(1) [OF inv] by simp
  then have "?s < ?n" by (intro mod_less_divisor) linarith
  have len: "RingBuffer_Len r' = RingBuffer_Len r"
    by (simp add: RingBuffer_Len_def r'_def)
  have "ring_list r' = (ring_list r)[i := x]"
  proof (rule nth_equalityI)
    fix j assume "j < length (ring_list r')"
    then have j: "j < RingBuffer_Len r" using len by simp
    then have "?s = (headPos r + j) mod ?n \<longleftrightarrow> i = j"
      using mod_add_inj [of "headPos r" j ?n i] n ring_Len_le(1) [OF inv] by auto
    with j i len \<open>?s < ?n\<close> show "ring_list r' ! j = (ring_list r)[i := x] ! j"
      by (cases "i = j") (simp_all add: ring_list_nth nth_list_update, simp_all add: r'_def nth_list_update)
  qed (simp add: len)
  moreover have "ring_inv r'"
    using inv by (auto simp: ring_inv_def r'_def)
  moreover have "RingBuffer_set r i x = Some r'"
    using i by (simp add: RingBuffer_set_def ring_Offset [OF inv] r'_def)
  ultimately show ?thesis by blast
qed

interpretation rq: indexed_queue "RingBuffer_PushBack z" "RingBuffer_PopFront z" RingBuffer_Len ring_list ring_inv
  RingBuffer_at RingBuffer_set
  for z :: 'a
proof
  fix q :: "'a ring_buffer" and x :: 'a and xs :: "'a list" and i :: nat
  assume inv: "ring_inv q"
  show "\<exists>q'. RingBuffer_PushBack z q x = Some q' \<and> ring_inv q' \<and> ring_list q' = ring_list q @ [x]"
    using inv by (rule PushBack_ok)
  show "ring_list q = [] \<Longrightarrow> RingBuffer_PopFront z q = None"
    using inv by (rule PopFront_empty)
  show "ring_list q = x # xs \<Longrightarrow> \<exists>q'. RingBuffer_PopFront z q = Some (x, q') \<and> ring_inv q' \<and> ring_list q' = xs"
    using inv by (rule PopFront_ok)
  show "RingBuffer_Len q = length (ring_list q)"
    by simp
  show "RingBuffer_at q i = (if i < length (ring_list q) then Some (ring_list q ! i) else None)"
    by (simp add: RingBuffer_at_def ring_Offset [OF inv] ring_list_nth)
  show "i < length (ring_list q) \<Longrightarrow>
      \<exists>q'. RingBuffer_set q i x = Some q' \<and> ring_inv q' \<and> ring_list q' = (ring_list q)[i := x]"
    using ring_set_ok [OF inv] by simp
qed

lemma ring_inv_Init: "ring_inv (RingBuffer_Init z RingBuffer_zero n)" "ring_list (RingBuffer_Init z RingBuffer_zero n) = []"
  by (auto simp: ring_inv_def RingBuffer_Init_def RingBuffer_zero_def ring_list_def RingBuffer_Len_def)

lemma ring_inv_Clear: "ring_inv (RingBuffer_Clear z r)" "ring_list (RingBuffer_Clear z r) = []"
  by (auto simp: ring_inv_def RingBuffer_Clear_def ring_list_def RingBuffer_Len_def)

lemma ring_Back:
  "ring_inv r \<Longrightarrow> ring_list r \<noteq> [] \<Longrightarrow> map_option (\<lambda>slot. ring r ! slot) (RingBuffer_Back r) = Some (last (ring_list r))"
  using ring_Empty [of r] length_greater_0_conv [of "ring_list r"]
  by (auto simp: RingBuffer_Back_def ring_Offset last_conv_nth ring_list_nth simp del: length_greater_0_conv)

section \<open>Properties\<close>

text \<open>
  Any use of a ring: every operation, each with what it returns. Front, Back and Offset return the element that the pointer
  points to; \<open>RbSet\<close> writes through the pointer of Offset. A panic leaves the ring as it is.
\<close>

datatype 'a ring_op = RbPush 'a | RbPop | RbOffset nat | RbSet nat 'a | RbFront | RbBack | RbLen | RbEmpty | RbClear

datatype 'a ring_result = RrUnit | RrElement 'a | RrLen nat | RrBool bool | RrPanic

definition or_panic :: "'a option \<Rightarrow> 'a ring_result" where
  "or_panic v = (case v of None \<Rightarrow> RrPanic | Some x \<Rightarrow> RrElement x)"

definition or_unchanged :: "'s \<Rightarrow> 's option \<Rightarrow> 'a ring_result \<times> 's" where
  "or_unchanged s v = (case v of None \<Rightarrow> (RrPanic, s) | Some s' \<Rightarrow> (RrUnit, s'))"

primrec ring_step :: "'a \<Rightarrow> 'a ring_buffer \<Rightarrow> 'a ring_op \<Rightarrow> 'a ring_result \<times> 'a ring_buffer" where
  "ring_step z r (RbPush x) = or_unchanged r (RingBuffer_PushBack z r x)"
| "ring_step z r RbPop = (case RingBuffer_PopFront z r of None \<Rightarrow> (RrPanic, r) | Some (x, r') \<Rightarrow> (RrElement x, r'))"
| "ring_step z r (RbOffset i) = (or_panic (RingBuffer_at r i), r)"
| "ring_step z r (RbSet i x) = or_unchanged r (RingBuffer_set r i x)"
| "ring_step z r RbFront = (or_panic (map_option (\<lambda>slot. ring r ! slot) (RingBuffer_Front r)), r)"
| "ring_step z r RbBack = (or_panic (map_option (\<lambda>slot. ring r ! slot) (RingBuffer_Back r)), r)"
| "ring_step z r RbLen = (RrLen (RingBuffer_Len r), r)"
| "ring_step z r RbEmpty = (RrBool (RingBuffer_Empty r), r)"
| "ring_step z r RbClear = (RrUnit, RingBuffer_Clear z r)"

text \<open>The same on the list of the elements.\<close>

primrec list_step :: "'a list \<Rightarrow> 'a ring_op \<Rightarrow> 'a ring_result \<times> 'a list" where
  "list_step xs (RbPush x) = (RrUnit, xs @ [x])"
| "list_step xs RbPop = (if xs = [] then (RrPanic, xs) else (RrElement (hd xs), tl xs))"
| "list_step xs (RbOffset i) = (if i < length xs then RrElement (xs ! i) else RrPanic, xs)"
| "list_step xs (RbSet i x) = (if i < length xs then (RrUnit, xs[i := x]) else (RrPanic, xs))"
| "list_step xs RbFront = (if xs = [] then RrPanic else RrElement (hd xs), xs)"
| "list_step xs RbBack = (if xs = [] then RrPanic else RrElement (last xs), xs)"
| "list_step xs RbLen = (RrLen (length xs), xs)"
| "list_step xs RbEmpty = (RrBool (xs = []), xs)"
| "list_step xs RbClear = (RrUnit, [])"

fun run_ops :: "('s \<Rightarrow> 'o \<Rightarrow> 'r \<times> 's) \<Rightarrow> 's \<Rightarrow> 'o list \<Rightarrow> 'r list \<times> 's" where
  "run_ops step s [] = ([], s)"
| "run_ops step s (p # ps) = (case step s p of (v, s') \<Rightarrow> (case run_ops step s' ps of (vs, s'') \<Rightarrow> (v # vs, s'')))"

lemma ring_Empty_list: "ring_inv r \<Longrightarrow> RingBuffer_Empty r \<longleftrightarrow> ring_list r = []"
  using ring_Empty [of r] by (simp flip: length_0_conv)

lemma ring_step_refines:
  assumes inv: "ring_inv r"
  shows "fst (ring_step z r p) = fst (list_step (ring_list r) p) \<and> ring_inv (snd (ring_step z r p)) \<and>
    ring_list (snd (ring_step z r p)) = snd (list_step (ring_list r) p)"
proof (cases p)
  case (RbPush x)
  from rq.push_ok [OF inv, of z x] RbPush show ?thesis by (auto simp: or_unchanged_def)
next
  case RbPop
  with rq.pop_ok [OF inv, of "hd (ring_list r)" "tl (ring_list r)" z] rq.pop_empty [OF inv, of z] inv show ?thesis
    by (cases "ring_list r") auto
next
  case (RbOffset i)
  with rq.get_ok [OF inv, of i] inv show ?thesis by (simp add: or_panic_def)
next
  case (RbSet i x)
  with rq.set_ok [OF inv, of i x] inv show ?thesis
    by (cases "i < length (ring_list r)") (auto simp: or_unchanged_def RingBuffer_set_def ring_Offset [OF inv])
next
  case RbFront
  with rq.get_ok [OF inv, of 0] inv show ?thesis
    by (auto simp: or_panic_def ring_Front [OF inv] RingBuffer_at_def hd_conv_nth simp flip: length_greater_0_conv)
next
  case RbBack
  with ring_Back [OF inv] inv show ?thesis
    by (cases "ring_list r = []") (auto simp: or_panic_def RingBuffer_Back_def ring_Empty_list [OF inv])
qed (use inv in \<open>simp_all add: ring_Empty_list ring_inv_Clear\<close>)

lemma ring_run_refines:
  "ring_inv r \<Longrightarrow> fst (run_ops (ring_step z) r ps) = fst (run_ops list_step (ring_list r) ps) \<and> ring_inv (snd (run_ops (ring_step z) r ps)) \<and>
     ring_list (snd (run_ops (ring_step z) r ps)) = snd (run_ops list_step (ring_list r) ps)"
proof (induction ps arbitrary: r)
  case (Cons p ps)
  from ring_step_refines [OF Cons.prems, of z p] Cons.IH [of "snd (ring_step z r p)"] show ?case
    by (auto simp: case_prod_beta)
qed simp

text \<open>
  C32. A ring is the list of its elements. Starting from a ring preallocated with any number of slots (also none), every sequence of PushBack,
  PopFront, Offset, writes through its pointer, Front, Back, Len, Empty and Clear returns what the same operations on a list
  return, panics exactly where an element asked for does not exist, and leaves a ring with exactly the elements of the list, through
  every wrap-around and growth.
\<close>

theorem RingBuffer_refines_list:
  "fst (run_ops (ring_step z) (RingBuffer_Init z RingBuffer_zero n) ps) = fst (run_ops list_step [] ps) \<and>
   ring_list (snd (run_ops (ring_step z) (RingBuffer_Init z RingBuffer_zero n) ps)) = snd (run_ops list_step [] ps)"
  using ring_run_refines [OF ring_inv_Init(1) [of z n], where z = z and ps = ps] by (simp add: ring_inv_Init(2))

end
