(* ===== verification/Packet_Queue.thy ===== *)
theory Packet_Queue
  imports Ring_Buffer
begin

text \<open>
  packetNumberIndexedQueue of congestion/bbr/packet_number_indexed_queue.go: a deque of
  entries indexed by packet number, stored in a ring. The theory has its operations, the map from
  packet numbers to entries it stands for, and the proof that the operations act on
  that map as insert-at-the-end, lookup, delete and restriction. Packet numbers are integers: the int64 of the source never wraps, since
  QUIC packet numbers are below 2^62.
\<close>

section \<open>The queue and its operations\<close>

definition invalidPacketNumber :: int where
  "invalidPacketNumber = -1"

record 'a entry_wrapper =
  ew_present :: bool
  ew_entry :: 'a

record 'a packet_queue =
  pq_entries :: "'a entry_wrapper ring_buffer"
  numberOfPresentEntries :: int
  firstPacket :: int

definition zero_wrapper :: "'a \<Rightarrow> 'a entry_wrapper" where
  "zero_wrapper z = \<lparr>ew_present = False, ew_entry = z\<rparr>"

definition newPacketNumberIndexedQueue :: "'a \<Rightarrow> nat \<Rightarrow> 'a packet_queue" where
  "newPacketNumberIndexedQueue z n =
     \<lparr>pq_entries = RingBuffer_Init (zero_wrapper z) RingBuffer_zero n, numberOfPresentEntries = 0,
      firstPacket = invalidPacketNumber\<rparr>"

definition PacketQueue_IsEmpty :: "'a packet_queue \<Rightarrow> bool" where
  "PacketQueue_IsEmpty p \<longleftrightarrow> numberOfPresentEntries p = 0"

definition PacketQueue_NumberOfPresentEntries :: "'a packet_queue \<Rightarrow> int" where
  "PacketQueue_NumberOfPresentEntries p = numberOfPresentEntries p"

definition PacketQueue_EntrySlotsUsed :: "'a packet_queue \<Rightarrow> nat" where
  "PacketQueue_EntrySlotsUsed p = RingBuffer_Len (pq_entries p)"

definition PacketQueue_FirstPacket :: "'a packet_queue \<Rightarrow> int" where
  "PacketQueue_FirstPacket p = firstPacket p"

definition PacketQueue_LastPacket :: "'a packet_queue \<Rightarrow> int" where
  "PacketQueue_LastPacket p =
     (if PacketQueue_IsEmpty p then invalidPacketNumber
      else firstPacket p + (int (RingBuffer_Len (pq_entries p)) - 1))"

text \<open>The loop that fills a gap: \<open>n\<close> pushes of an absent entry.\<close>

fun pushGap :: "'a \<Rightarrow> nat \<Rightarrow> 'a entry_wrapper ring_buffer \<Rightarrow> 'a entry_wrapper ring_buffer option" where
  "pushGap z 0 r = Some r"
| "pushGap z (Suc n) r =
     (case RingBuffer_PushBack (zero_wrapper z) r (zero_wrapper z) of None \<Rightarrow> None | Some r' \<Rightarrow> pushGap z n r')"

text \<open>
  Emplace returns whether the entry was inserted, and the queue; \<open>entry = None\<close> is a nil pointer
  and the outer \<open>None\<close> a panic of the ring.
\<close>

definition PacketQueue_Emplace :: "'a \<Rightarrow> 'a packet_queue \<Rightarrow> int \<Rightarrow> 'a option \<Rightarrow> (bool \<times> 'a packet_queue) option" where
  "PacketQueue_Emplace z p packetNumber entry =
     (case entry of
        None \<Rightarrow> Some (False, p)
      | Some e \<Rightarrow>
          if packetNumber = invalidPacketNumber then Some (False, p)
          else if PacketQueue_IsEmpty p then
            map_option (\<lambda>r. (True, \<lparr>pq_entries = r, numberOfPresentEntries = 1, firstPacket = packetNumber\<rparr>))
              (RingBuffer_PushBack (zero_wrapper z) (pq_entries p) \<lparr>ew_present = True, ew_entry = e\<rparr>)
          else if packetNumber \<le> PacketQueue_LastPacket p then Some (False, p)
          else
            (let offset = packetNumber - PacketQueue_FirstPacket p;
                 gap = offset - int (RingBuffer_Len (pq_entries p))
             in (case (if gap > 0 then pushGap z (nat gap) (pq_entries p) else Some (pq_entries p)) of
                   None \<Rightarrow> None
                 | Some r \<Rightarrow>
                     map_option (\<lambda>r'. (True, p\<lparr>pq_entries := r', numberOfPresentEntries := numberOfPresentEntries p + 1\<rparr>))
                       (RingBuffer_PushBack (zero_wrapper z) r \<lparr>ew_present = True, ew_entry = e\<rparr>))))"

text \<open>
  getEntryWraper returns a pointer into the ring: here the offset of the entry. The outer
  \<open>None\<close> is a panic, the inner one the nil pointer.
\<close>

definition PacketQueue_getEntryWraper :: "'a packet_queue \<Rightarrow> int \<Rightarrow> nat option option" where
  "PacketQueue_getEntryWraper p packetNumber =
     (if packetNumber = invalidPacketNumber \<or> PacketQueue_IsEmpty p \<or> packetNumber < firstPacket p
      then Some None
      else (let offset = nat (packetNumber - firstPacket p)
            in if offset \<ge> RingBuffer_Len (pq_entries p) then Some None
               else (case RingBuffer_at (pq_entries p) offset of
                       None \<Rightarrow> None
                     | Some ew \<Rightarrow> if ew_present ew then Some (Some offset) else Some None)))"

definition PacketQueue_GetEntry :: "'a packet_queue \<Rightarrow> int \<Rightarrow> 'a option option" where
  "PacketQueue_GetEntry p packetNumber =
     (case PacketQueue_getEntryWraper p packetNumber of
        None \<Rightarrow> None
      | Some None \<Rightarrow> Some None
      | Some (Some offset) \<Rightarrow> map_option (\<lambda>ew. Some (ew_entry ew)) (RingBuffer_at (pq_entries p) offset))"

text \<open>
  The loops of clearup and RemoveUpTo pop one slot per round. They are given fuel, and
  are called with one more than the slots of the ring; running out of it is \<open>None\<close>.
\<close>

fun clearup_loop :: "nat \<Rightarrow> 'a \<Rightarrow> 'a packet_queue \<Rightarrow> 'a packet_queue option" where
  "clearup_loop 0 z p = None"
| "clearup_loop (Suc fuel) z p =
     (if RingBuffer_Empty (pq_entries p) then Some p
      else (case RingBuffer_Front (pq_entries p) of
              None \<Rightarrow> None
            | Some slot \<Rightarrow>
                if ew_present (ring (pq_entries p) ! slot) then Some p
                else (case RingBuffer_PopFront (zero_wrapper z) (pq_entries p) of
                        None \<Rightarrow> None
                      | Some (_, r) \<Rightarrow> clearup_loop fuel z (p\<lparr>pq_entries := r, firstPacket := firstPacket p + 1\<rparr>))))"

definition PacketQueue_clearup :: "'a \<Rightarrow> 'a packet_queue \<Rightarrow> 'a packet_queue option" where
  "PacketQueue_clearup z p =
     map_option (\<lambda>q. if RingBuffer_Empty (pq_entries q) then q\<lparr>firstPacket := invalidPacketNumber\<rparr> else q)
       (clearup_loop (Suc (RingBuffer_Len (pq_entries p))) z p)"

text \<open>
  Remove returns the entry it passed to the callback \<open>f\<close> before removing it, \<open>None\<close> if
  there was none to remove.
\<close>

definition PacketQueue_Remove :: "'a \<Rightarrow> 'a packet_queue \<Rightarrow> int \<Rightarrow> ('a option \<times> 'a packet_queue) option" where
  "PacketQueue_Remove z p packetNumber =
     (case PacketQueue_getEntryWraper p packetNumber of
        None \<Rightarrow> None
      | Some None \<Rightarrow> Some (None, p)
      | Some (Some offset) \<Rightarrow>
          (case RingBuffer_at (pq_entries p) offset of
             None \<Rightarrow> None
           | Some ew \<Rightarrow>
               (case RingBuffer_set (pq_entries p) offset (ew\<lparr>ew_present := False\<rparr>) of
                  None \<Rightarrow> None
                | Some r \<Rightarrow>
                    (let p' = p\<lparr>pq_entries := r, numberOfPresentEntries := numberOfPresentEntries p - 1\<rparr>
                     in if packetNumber = PacketQueue_FirstPacket p'
                        then map_option (\<lambda>q. (Some (ew_entry ew), q)) (PacketQueue_clearup z p')
                        else Some (Some (ew_entry ew), p')))))"

fun removeUpTo_loop :: "nat \<Rightarrow> 'a \<Rightarrow> 'a packet_queue \<Rightarrow> int \<Rightarrow> 'a packet_queue option" where
  "removeUpTo_loop 0 z p packetNumber = None"
| "removeUpTo_loop (Suc fuel) z p packetNumber =
     (if \<not> RingBuffer_Empty (pq_entries p) \<and> firstPacket p \<noteq> invalidPacketNumber \<and> firstPacket p < packetNumber
      then (case RingBuffer_Front (pq_entries p) of
              None \<Rightarrow> None
            | Some slot \<Rightarrow>
                (let n = (if ew_present (ring (pq_entries p) ! slot) then numberOfPresentEntries p - 1
                          else numberOfPresentEntries p)
                 in (case RingBuffer_PopFront (zero_wrapper z) (pq_entries p) of
                       None \<Rightarrow> None
                     | Some (_, r) \<Rightarrow>
                         removeUpTo_loop fuel z
                           \<lparr>pq_entries = r, numberOfPresentEntries = n, firstPacket = firstPacket p + 1\<rparr> packetNumber)))
      else Some p)"

definition PacketQueue_RemoveUpTo :: "'a \<Rightarrow> 'a packet_queue \<Rightarrow> int \<Rightarrow> 'a packet_queue option" where
  "PacketQueue_RemoveUpTo z p packetNumber =
     (case removeUpTo_loop (Suc (RingBuffer_Len (pq_entries p))) z p packetNumber of
        None \<Rightarrow> None
      | Some q \<Rightarrow> PacketQueue_clearup z q)"

section \<open>Invariant and abstraction\<close>

text \<open>
  The slots from front to back are the packets from \<open>firstPacket\<close> on. While the queue is in
  use the front slot is present; an empty queue has no slots and no first packet.
\<close>

abbreviation slots :: "'a packet_queue \<Rightarrow> 'a entry_wrapper list" where
  "slots p \<equiv> ring_list (pq_entries p)"

definition count_present :: "'a entry_wrapper list \<Rightarrow> int" where
  "count_present xs = int (length (filter ew_present xs))"

definition pq_base :: "'a packet_queue \<Rightarrow> bool" where
  "pq_base p \<longleftrightarrow> ring_inv (pq_entries p) \<and> numberOfPresentEntries p = count_present (slots p) \<and>
     (slots p \<noteq> [] \<longrightarrow> 0 \<le> firstPacket p)"

definition pq_inv :: "'a packet_queue \<Rightarrow> bool" where
  "pq_inv p \<longleftrightarrow> pq_base p \<and>
     (case slots p of [] \<Rightarrow> firstPacket p = invalidPacketNumber | ew # _ \<Rightarrow> ew_present ew)"

definition slot_map :: "int \<Rightarrow> 'a entry_wrapper list \<Rightarrow> int \<Rightarrow> 'a option" where
  "slot_map first xs n =
     (if first \<le> n \<and> n < first + int (length xs) \<and> ew_present (xs ! nat (n - first))
      then Some (ew_entry (xs ! nat (n - first))) else None)"

definition pq_map :: "'a packet_queue \<Rightarrow> int \<Rightarrow> 'a option" where
  "pq_map p = slot_map (firstPacket p) (slots p)"

text \<open>The number after the last slot: what the next insertion must reach.\<close>

definition pq_end :: "'a packet_queue \<Rightarrow> int" where
  "pq_end p = firstPacket p + int (length (slots p))"

lemma slot_map_Nil [simp]: "slot_map f [] = (\<lambda>_. None)"
  by (auto simp: slot_map_def)

lemma slot_map_Cons:
  "slot_map f (x # xs) = (slot_map (f + 1) xs)(f := (if ew_present x then Some (ew_entry x) else None))"
proof
  fix n
  have "nat (n - f) = Suc (nat (n - (f + 1)))" if "f < n"
    using that by simp
  moreover have "slot_map (f + 1) xs f = None"
    by (simp add: slot_map_def)
  ultimately show "slot_map f (x # xs) n =
      ((slot_map (f + 1) xs)(f := (if ew_present x then Some (ew_entry x) else None))) n"
    by (cases "n = f") (auto simp: slot_map_def)
qed

lemma slot_map_below: "n < f \<Longrightarrow> slot_map f xs n = None"
  by (simp add: slot_map_def)

lemma slot_map_above: "f + int (length xs) \<le> n \<Longrightarrow> slot_map f xs n = None"
  by (simp add: slot_map_def)

lemma slot_map_append:
  "slot_map f (xs @ ys) n = (if n < f + int (length xs) then slot_map f xs n else slot_map (f + int (length xs)) ys n)"
  by (induction xs arbitrary: f) (auto simp: slot_map_Cons slot_map_below algebra_simps)

lemma slot_map_gap: "slot_map f (replicate k (zero_wrapper z)) = (\<lambda>_. None)"
  by (induction k arbitrary: f) (auto simp: slot_map_Cons zero_wrapper_def)

lemma slot_map_single: "slot_map f [x] = [f \<mapsto> ew_entry x]" if "ew_present x"
  using that by (auto simp: slot_map_Cons)

lemma slot_map_clear:
  "i < length xs \<Longrightarrow>
     slot_map f (xs[i := (xs ! i)\<lparr>ew_present := False\<rparr>]) = (slot_map f xs)(f + int i := None)"
proof (induction xs arbitrary: i f)
  case Nil
  then show ?case by simp
next
  case (Cons x xs)
  show ?case
  proof (cases i)
    case 0
    then show ?thesis by (auto simp: slot_map_Cons)
  next
    case (Suc j)
    with Cons show ?thesis by (auto simp: slot_map_Cons fun_eq_iff)
  qed
qed

lemma count_present_simps [simp]:
  "count_present [] = 0"
  "count_present (x # xs) = (if ew_present x then 1 else 0) + count_present xs"
  "count_present (xs @ ys) = count_present xs + count_present ys"
  "count_present (replicate k (zero_wrapper z)) = 0"
  by (auto simp: count_present_def zero_wrapper_def)

lemma count_present_nonneg [simp]: "0 \<le> count_present xs"
  by (simp add: count_present_def)

lemma count_present_clear:
  "i < length xs \<Longrightarrow> ew_present (xs ! i) \<Longrightarrow>
     count_present (xs[i := (xs ! i)\<lparr>ew_present := False\<rparr>]) = count_present xs - 1"
  by (induction xs arbitrary: i) (auto split: nat.splits)

lemma pushGap_ok:
  "ring_inv r \<Longrightarrow>
     \<exists>r'. pushGap z n r = Some r' \<and> ring_inv r' \<and> ring_list r' = ring_list r @ replicate n (zero_wrapper z)"
proof -
  assume inv: "ring_inv r"
  have "pushGap z n r = rq.push_all (zero_wrapper z) r (replicate n (zero_wrapper z))"
    by (induction n arbitrary: r) (auto split: option.splits)
  with rq.push_all_ok [OF inv] show ?thesis by metis
qed

lemma pq_IsEmpty: "pq_inv p \<Longrightarrow> PacketQueue_IsEmpty p \<longleftrightarrow> slots p = []"
proof -
  assume "pq_inv p"
  moreover have "1 + count_present xs \<noteq> 0" for xs :: "'a entry_wrapper list"
    using count_present_nonneg [of xs] by linarith
  ultimately show ?thesis
    by (cases "slots p") (auto simp: pq_inv_def pq_base_def PacketQueue_IsEmpty_def)
qed

section \<open>The operations on the map\<close>

lemma Emplace_empty:
  assumes inv: "pq_inv p" and e: "slots p = []" and pn: "0 \<le> n"
  shows "\<exists>p'. PacketQueue_Emplace z p n (Some x) = Some (True, p') \<and> pq_inv p' \<and>
    pq_map p' = (pq_map p)(n \<mapsto> x) \<and> pq_end p' = n + 1"
proof -
  have ri: "ring_inv (pq_entries p)"
    using inv by (simp add: pq_inv_def pq_base_def)
  obtain r where r: "RingBuffer_PushBack (zero_wrapper z) (pq_entries p) \<lparr>ew_present = True, ew_entry = x\<rparr> = Some r"
    "ring_inv r" "ring_list r = [\<lparr>ew_present = True, ew_entry = x\<rparr>]"
    using rq.push_ok [OF ri, of "zero_wrapper z" "\<lparr>ew_present = True, ew_entry = x\<rparr>"] e by auto
  with pn pq_IsEmpty [OF inv] e show ?thesis
    by (simp add: PacketQueue_Emplace_def invalidPacketNumber_def pq_inv_def pq_base_def pq_map_def slot_map_single
        pq_end_def del: length_ring_list)
qed

lemma Emplace_end:
  assumes inv: "pq_inv p" and ne: "slots p \<noteq> []" and pn: "firstPacket p + int (length (slots p)) \<le> n"
  shows "\<exists>p'. PacketQueue_Emplace z p n (Some x) = Some (True, p') \<and> pq_inv p' \<and>
    pq_map p' = (pq_map p)(n \<mapsto> x) \<and> pq_end p' = n + 1"
proof -
  have b: "ring_inv (pq_entries p)" "0 \<le> firstPacket p" "numberOfPresentEntries p = count_present (slots p)"
    using inv ne by (simp_all add: pq_inv_def pq_base_def)
  define gap where "gap = n - firstPacket p - int (length (slots p))"
  have gap: "0 \<le> gap" using pn by (simp add: gap_def)
  let ?ew = "\<lparr>ew_present = True, ew_entry = x\<rparr>"
  obtain r where r: "(if gap > 0 then pushGap z (nat gap) (pq_entries p) else Some (pq_entries p)) = Some r"
    "ring_inv r" "ring_list r = slots p @ replicate (nat gap) (zero_wrapper z)"
    using pushGap_ok [OF b(1), of z "nat gap"] b(1) gap by (cases "gap > 0") auto
  obtain r' where r': "RingBuffer_PushBack (zero_wrapper z) r ?ew = Some r'" "ring_inv r'" "ring_list r' = ring_list r @ [?ew]"
    using rq.push_ok [OF r(2)] by blast
  define p' where "p' = p\<lparr>pq_entries := r', numberOfPresentEntries := numberOfPresentEntries p + 1\<rparr>"
  have "n \<noteq> invalidPacketNumber" "\<not> PacketQueue_IsEmpty p" "\<not> n \<le> PacketQueue_LastPacket p"
    using b ne pn pq_IsEmpty [OF inv] by (simp_all add: invalidPacketNumber_def PacketQueue_LastPacket_def)
  then have "PacketQueue_Emplace z p n (Some x) =
      (case (if gap > 0 then pushGap z (nat gap) (pq_entries p) else Some (pq_entries p)) of
         None \<Rightarrow> None
       | Some r \<Rightarrow> map_option (\<lambda>r'. (True, p\<lparr>pq_entries := r', numberOfPresentEntries := numberOfPresentEntries p + 1\<rparr>))
           (RingBuffer_PushBack (zero_wrapper z) r ?ew))"
    unfolding gap_def length_ring_list
    by (simp add: PacketQueue_Emplace_def PacketQueue_FirstPacket_def Let_def)
  then have "PacketQueue_Emplace z p n (Some x) = Some (True, p')"
    unfolding r(1) by (simp add: r'(1) p'_def)
  moreover have "pq_inv p'"
    using inv ne b r(3) r'(2,3) by (cases "slots p") (simp_all add: pq_inv_def pq_base_def p'_def)
  moreover have "pq_end p' = n + 1"
    using gap by (simp add: pq_end_def p'_def r r' gap_def del: length_ring_list)
  moreover have "pq_map p' = (pq_map p)(n \<mapsto> x)"
  proof
    fix m
    have "firstPacket p + int (length (slots p @ replicate (nat gap) (zero_wrapper z))) = n"
      using gap by (simp add: gap_def)
    then show "pq_map p' m = ((pq_map p)(n \<mapsto> x)) m"
      using gap unfolding pq_map_def
      by (auto simp: p'_def r'(3) r(3) slot_map_append slot_map_gap slot_map_single slot_map_above slot_map_below)
  qed
  ultimately show ?thesis by blast
qed

lemma Emplace_rejected:
  assumes inv: "pq_inv p" and "slots p \<noteq> []" and "n < firstPacket p + int (length (slots p))"
  shows "PacketQueue_Emplace z p n (Some x) = Some (False, p)"
  using assms pq_IsEmpty [OF inv]
  by (simp add: PacketQueue_Emplace_def PacketQueue_LastPacket_def)

lemma pq_base_empty_iff: "ring_inv (pq_entries p) \<Longrightarrow> RingBuffer_Empty (pq_entries p) \<longleftrightarrow> slots p = []"
  using ring_Empty [of "pq_entries p"] by (simp flip: length_0_conv)

lemma getEntryWraper_eq:
  assumes inv: "pq_inv p"
  shows "PacketQueue_getEntryWraper p n =
    Some (if pq_map p n = None then None else Some (nat (n - firstPacket p)))"
proof -
  have b: "ring_inv (pq_entries p)" "slots p \<noteq> [] \<longrightarrow> 0 \<le> firstPacket p"
    using inv by (simp_all add: pq_inv_def pq_base_def)
  show ?thesis
  proof (cases "slots p = [] \<or> n < firstPacket p \<or> firstPacket p + int (length (slots p)) \<le> n")
    case True
    then have "pq_map p n = None"
      unfolding pq_map_def by (auto simp: slot_map_below slot_map_above)
    with True pq_IsEmpty [OF inv] show ?thesis
      by (auto simp: PacketQueue_getEntryWraper_def Let_def)
  next
    case False
    then have "n \<noteq> invalidPacketNumber" "nat (n - firstPacket p) < length (slots p)"
      using b by (auto simp: invalidPacketNumber_def)
    with False pq_IsEmpty [OF inv] show ?thesis
      using rq.get_ok [OF b(1)]
      by (auto simp: PacketQueue_getEntryWraper_def Let_def pq_map_def slot_map_def)
  qed
qed

lemma pq_map_SomeD:
  "pq_map p n = Some x \<Longrightarrow> nat (n - firstPacket p) < length (slots p) \<and> firstPacket p \<le> n \<and>
     ew_present (slots p ! nat (n - firstPacket p)) \<and> ew_entry (slots p ! nat (n - firstPacket p)) = x"
  by (auto simp: pq_map_def slot_map_def split: if_splits)

lemma GetEntry_eq:
  assumes inv: "pq_inv p"
  shows "PacketQueue_GetEntry p n = Some (pq_map p n)"
proof (cases "pq_map p n")
  case None
  then show ?thesis by (simp add: PacketQueue_GetEntry_def getEntryWraper_eq [OF inv])
next
  case (Some x)
  have "ring_inv (pq_entries p)"
    using inv by (simp add: pq_inv_def pq_base_def)
  with Some pq_map_SomeD [OF Some] show ?thesis
    by (simp add: PacketQueue_GetEntry_def getEntryWraper_eq [OF inv] rq.get_ok)
qed

text \<open>One round of the popping loops: the front slot goes and the numbering moves on by one.\<close>

lemma pop_front_slot:
  assumes "ring_inv (pq_entries p)" and "slots p = ew # rest"
  obtains r where "RingBuffer_Empty (pq_entries p) = False" "RingBuffer_Front (pq_entries p) = Some (headPos (pq_entries p))"
    "ring (pq_entries p) ! headPos (pq_entries p) = ew"
    "RingBuffer_PopFront (zero_wrapper z) (pq_entries p) = Some (ew, r)" "ring_inv r" "ring_list r = rest"
    "RingBuffer_Len (pq_entries p) = Suc (RingBuffer_Len r)"
proof -
  obtain r where r: "RingBuffer_PopFront (zero_wrapper z) (pq_entries p) = Some (ew, r)" "ring_inv r" "ring_list r = rest"
    using rq.pop_ok [OF assms] by blast
  have "\<not> RingBuffer_Empty (pq_entries p)"
    using pq_base_empty_iff [OF assms(1)] assms(2) by simp
  moreover from r(1) have "headPos (pq_entries p) < length (ring (pq_entries p))"
    "ring (pq_entries p) ! headPos (pq_entries p) = ew"
    by (auto simp: RingBuffer_PopFront_def Let_def split: if_splits)
  moreover have "RingBuffer_Len (pq_entries p) = Suc (RingBuffer_Len r)"
    using assms(2) r(3) length_ring_list [of "pq_entries p"] length_ring_list [of r] by simp
  ultimately show thesis
    using r by (intro that) (simp_all add: RingBuffer_Front_def)
qed

lemma clearup_loop_ok:
  "pq_base p \<Longrightarrow> RingBuffer_Len (pq_entries p) < fuel \<Longrightarrow>
     \<exists>q. clearup_loop fuel z p = Some q \<and> pq_base q \<and> pq_map q = pq_map p \<and> pq_end q = pq_end p \<and>
       (case slots q of [] \<Rightarrow> True | ew # _ \<Rightarrow> ew_present ew)"
proof (induction fuel arbitrary: p)
  case 0
  then show ?case by simp
next
  case (Suc fuel)
  have ri: "ring_inv (pq_entries p)" using Suc.prems(1) by (simp add: pq_base_def)
  show ?case
  proof (cases "slots p")
    case Nil
    with Suc.prems(1) pq_base_empty_iff [OF ri] show ?thesis by simp
  next
    case (Cons ew rest)
    obtain r where r: "RingBuffer_Empty (pq_entries p) = False"
      "RingBuffer_Front (pq_entries p) = Some (headPos (pq_entries p))"
      "ring (pq_entries p) ! headPos (pq_entries p) = ew"
      "RingBuffer_PopFront (zero_wrapper z) (pq_entries p) = Some (ew, r)" "ring_inv r" "ring_list r = rest"
      "RingBuffer_Len (pq_entries p) = Suc (RingBuffer_Len r)"
      using pop_front_slot [OF ri Cons] .
    show ?thesis
    proof (cases "ew_present ew")
      case True
      with r Cons Suc.prems(1) show ?thesis by simp
    next
      case False
      let ?p = "p\<lparr>pq_entries := r, firstPacket := firstPacket p + 1\<rparr>"
      have "pq_base ?p"
        using Suc.prems(1) r Cons False by (auto simp: pq_base_def)
      moreover have "pq_map ?p = pq_map p"
        using r(6) Cons False by (auto simp: pq_map_def slot_map_Cons slot_map_below)
      moreover have "pq_end ?p = pq_end p"
        using r(6) Cons by (simp add: pq_end_def del: length_ring_list)
      moreover have "RingBuffer_Len (pq_entries ?p) < fuel"
        using r(7) Suc.prems(2) by simp
      ultimately show ?thesis
        using Suc.IH [of ?p] r False by simp
    qed
  qed
qed

lemma clearup_ok:
  assumes "pq_base p"
  shows "\<exists>q. PacketQueue_clearup z p = Some q \<and> pq_inv q \<and> pq_map q = pq_map p \<and>
    (slots q \<noteq> [] \<longrightarrow> pq_end q = pq_end p)"
proof -
  obtain q where q: "clearup_loop (Suc (RingBuffer_Len (pq_entries p))) z p = Some q" "pq_base q"
    "pq_map q = pq_map p" "pq_end q = pq_end p" "case slots q of [] \<Rightarrow> True | ew # _ \<Rightarrow> ew_present ew"
    using clearup_loop_ok [OF assms] by blast
  have e: "RingBuffer_Empty (pq_entries q) \<longleftrightarrow> slots q = []"
    using q(2) by (intro pq_base_empty_iff) (simp add: pq_base_def)
  show ?thesis
  proof (cases "slots q")
    case Nil
    with q e show ?thesis
      by (auto simp: PacketQueue_clearup_def pq_inv_def pq_base_def pq_map_def)
  next
    case (Cons ew rest)
    with q e show ?thesis
      by (auto simp: PacketQueue_clearup_def pq_inv_def)
  qed
qed

lemma Remove_absent: "pq_inv p \<Longrightarrow> pq_map p n = None \<Longrightarrow> PacketQueue_Remove z p n = Some (None, p)"
  by (simp add: PacketQueue_Remove_def getEntryWraper_eq)

lemma Remove_present:
  assumes inv: "pq_inv p" and x: "pq_map p n = Some x"
  shows "\<exists>q. PacketQueue_Remove z p n = Some (Some x, q) \<and> pq_inv q \<and> pq_map q = (pq_map p)(n := None) \<and>
    (slots q \<noteq> [] \<longrightarrow> pq_end q = pq_end p)"
proof -
  have b: "ring_inv (pq_entries p)" "pq_base p" using inv by (simp_all add: pq_inv_def pq_base_def)
  define i where "i = nat (n - firstPacket p)"
  have i: "i < length (slots p)" "firstPacket p + int i = n" "ew_present (slots p ! i)" "ew_entry (slots p ! i) = x"
    using pq_map_SomeD [OF x] by (simp_all add: i_def)
  obtain r where r: "RingBuffer_set (pq_entries p) i ((slots p ! i)\<lparr>ew_present := False\<rparr>) = Some r"
    "ring_inv r" "ring_list r = (slots p)[i := (slots p ! i)\<lparr>ew_present := False\<rparr>]"
    using rq.set_ok [OF b(1) i(1)] by blast
  define p' where "p' = p\<lparr>pq_entries := r, numberOfPresentEntries := numberOfPresentEntries p - 1\<rparr>"
  have base: "pq_base p'"
    using b(2) r i count_present_clear [OF i(1,3)] by (auto simp: pq_base_def p'_def)
  have m: "pq_map p' = (pq_map p)(n := None)"
    using slot_map_clear [OF i(1), of "firstPacket p"] i(2) by (simp add: pq_map_def p'_def r(3))
  have e: "pq_end p' = pq_end p"
    by (simp add: pq_end_def p'_def r(3) del: length_ring_list)
  have rem: "PacketQueue_Remove z p n =
    (if n = firstPacket p then map_option (\<lambda>q. (Some x, q)) (PacketQueue_clearup z p') else Some (Some x, p'))"
    using x i(1,4) r(1) rq.get_ok [OF b(1)]
    by (simp add: PacketQueue_Remove_def getEntryWraper_eq [OF inv] i_def [symmetric] p'_def
        PacketQueue_FirstPacket_def Let_def)
  show ?thesis
  proof (cases "n = firstPacket p")
    case True
    with clearup_ok [OF base, of z] m e show ?thesis unfolding rem by auto
  next
    case False
    with i(2) have "0 < i" by (cases i) auto
    then have "pq_inv p'"
      using inv base r(3) i(1) by (cases "slots p"; cases i) (simp_all add: pq_inv_def p'_def)
    with False m e show ?thesis unfolding rem by auto
  qed
qed

lemma removeUpTo_loop_ok:
  "pq_base p \<Longrightarrow> RingBuffer_Len (pq_entries p) < fuel \<Longrightarrow>
     \<exists>q. removeUpTo_loop fuel z p n = Some q \<and> pq_base q \<and> pq_end q = pq_end p \<and>
       pq_map q = (\<lambda>m. if m < n then None else pq_map p m)"
proof (induction fuel arbitrary: p)
  case 0
  then show ?case by simp
next
  case (Suc fuel)
  have ri: "ring_inv (pq_entries p)" using Suc.prems(1) by (simp add: pq_base_def)
  show ?case
  proof (cases "slots p = [] \<or> n \<le> firstPacket p")
    case True
    then have "pq_map p = (\<lambda>m. if m < n then None else pq_map p m)"
      by (auto simp: pq_map_def slot_map_below)
    with True Suc.prems(1) pq_base_empty_iff [OF ri] show ?thesis by auto
  next
    case False
    then obtain ew rest where Cons: "slots p = ew # rest" by (cases "slots p") auto
    obtain r where r: "RingBuffer_Empty (pq_entries p) = False"
      "RingBuffer_Front (pq_entries p) = Some (headPos (pq_entries p))"
      "ring (pq_entries p) ! headPos (pq_entries p) = ew"
      "RingBuffer_PopFront (zero_wrapper z) (pq_entries p) = Some (ew, r)" "ring_inv r" "ring_list r = rest"
      "RingBuffer_Len (pq_entries p) = Suc (RingBuffer_Len r)"
      using pop_front_slot [OF ri Cons] .
    let ?n = "if ew_present ew then numberOfPresentEntries p - 1 else numberOfPresentEntries p"
    let ?p = "\<lparr>pq_entries = r, numberOfPresentEntries = ?n, firstPacket = firstPacket p + 1\<rparr>"
    have first: "0 \<le> firstPacket p" using Suc.prems(1) Cons by (simp add: pq_base_def)
    have "pq_base ?p"
      using Suc.prems(1) r Cons by (auto simp: pq_base_def)
    moreover have "RingBuffer_Len (pq_entries ?p) < fuel"
      using r(7) Suc.prems(2) by simp
    moreover have "removeUpTo_loop (Suc fuel) z p n = removeUpTo_loop fuel z ?p n"
      using r(1-4) False first by (simp add: invalidPacketNumber_def Let_def)
    moreover have "pq_end ?p = pq_end p"
      using r(6) Cons by (simp add: pq_end_def del: length_ring_list)
    moreover have "(\<lambda>m. if m < n then None else pq_map ?p m) = (\<lambda>m. if m < n then None else pq_map p m)"
      using r(6) Cons False by (auto simp: pq_map_def slot_map_Cons fun_eq_iff)
    ultimately show ?thesis using Suc.IH [of ?p] by simp
  qed
qed

lemma RemoveUpTo_ok:
  assumes "pq_inv p"
  shows "\<exists>q. PacketQueue_RemoveUpTo z p n = Some q \<and> pq_inv q \<and>
    pq_map q = (\<lambda>m. if m < n then None else pq_map p m) \<and> (slots q \<noteq> [] \<longrightarrow> pq_end q = pq_end p)"
proof -
  obtain q where q: "removeUpTo_loop (Suc (RingBuffer_Len (pq_entries p))) z p n = Some q" "pq_base q"
    "pq_end q = pq_end p" "pq_map q = (\<lambda>m. if m < n then None else pq_map p m)"
    using removeUpTo_loop_ok [of p] assms unfolding pq_inv_def by blast
  with clearup_ok [OF q(2), of z] show ?thesis
    by (auto simp: PacketQueue_RemoveUpTo_def)
qed

section \<open>The queue as a map\<close>

text \<open>
  What the queue promises, on a map and the highest number inserted since it was last empty:
  insertion only above that number, lookup and removal by number, and removal of everything below a number.
\<close>

datatype 'a pq_op = OpEmplace int "'a option" | OpGetEntry int | OpRemove int | OpRemoveUpTo int

datatype 'a pq_out = OutOk bool | OutEntry "'a option" | OutNone

fun pq_step :: "'a \<Rightarrow> 'a packet_queue \<Rightarrow> 'a pq_op \<Rightarrow> ('a pq_out \<times> 'a packet_queue) option" where
  "pq_step z p (OpEmplace n x) = map_option (\<lambda>(ok, q). (OutOk ok, q)) (PacketQueue_Emplace z p n x)"
| "pq_step z p (OpGetEntry n) = map_option (\<lambda>e. (OutEntry e, p)) (PacketQueue_GetEntry p n)"
| "pq_step z p (OpRemove n) = map_option (\<lambda>(e, q). (OutEntry e, q)) (PacketQueue_Remove z p n)"
| "pq_step z p (OpRemoveUpTo n) = map_option (\<lambda>q. (OutNone, q)) (PacketQueue_RemoveUpTo z p n)"

fun pq_run :: "'a \<Rightarrow> 'a packet_queue \<Rightarrow> 'a pq_op list \<Rightarrow> 'a pq_out list option" where
  "pq_run z p [] = Some []"
| "pq_run z p (op # ops) =
     (case pq_step z p op of None \<Rightarrow> None | Some (out, q) \<Rightarrow> map_option ((#) out) (pq_run z q ops))"

fun map_step :: "(int \<Rightarrow> 'a option) \<times> int \<Rightarrow> 'a pq_op \<Rightarrow> 'a pq_out \<times> (int \<Rightarrow> 'a option) \<times> int" where
  "map_step (m, hi) (OpEmplace n x) =
     (if x = None \<or> n = -1 \<or> (m \<noteq> Map.empty \<and> n \<le> hi) then (OutOk False, m, hi)
      else (OutOk True, m(n := x), n))"
| "map_step (m, hi) (OpGetEntry n) = (OutEntry (m n), m, hi)"
| "map_step (m, hi) (OpRemove n) = (OutEntry (m n), m(n := None), hi)"
| "map_step (m, hi) (OpRemoveUpTo n) = (OutNone, (\<lambda>k. if k < n then None else m k), hi)"

fun map_run :: "(int \<Rightarrow> 'a option) \<times> int \<Rightarrow> 'a pq_op list \<Rightarrow> 'a pq_out list" where
  "map_run s [] = []"
| "map_run s (op # ops) = (case map_step s op of (out, s') \<Rightarrow> out # map_run s' ops)"

text \<open>Packet numbers are not negative; -1 is the invalid number.\<close>

fun valid_op :: "'a pq_op \<Rightarrow> bool" where
  "valid_op (OpEmplace n _) \<longleftrightarrow> -1 \<le> n"
| "valid_op _ \<longleftrightarrow> True"

definition pq_rel :: "'a packet_queue \<Rightarrow> (int \<Rightarrow> 'a option) \<times> int \<Rightarrow> bool" where
  "pq_rel p s \<longleftrightarrow> pq_inv p \<and> pq_map p = fst s \<and> (slots p \<noteq> [] \<longrightarrow> pq_end p = snd s + 1)"

lemma pq_map_empty_iff: "pq_inv p \<Longrightarrow> pq_map p = Map.empty \<longleftrightarrow> slots p = []"
  by (cases "slots p") (auto simp: pq_inv_def pq_map_def slot_map_Cons fun_eq_iff)

lemma Emplace_refines:
  assumes rel: "pq_rel p (m, hi)" and n: "-1 \<le> n"
  shows "\<exists>q. PacketQueue_Emplace z p n x =
      Some (\<not> (x = None \<or> n = -1 \<or> (m \<noteq> Map.empty \<and> n \<le> hi)), q) \<and> pq_rel q (snd (map_step (m, hi) (OpEmplace n x)))"
proof (cases "x = None \<or> n = -1")
  case True
  with rel show ?thesis
    by (auto simp: PacketQueue_Emplace_def invalidPacketNumber_def split: option.splits)
next
  case False
  then obtain y where x: "x = Some y" and n0: "0 \<le> n" "n \<noteq> -1" using n by auto
  have inv: "pq_inv p" and m: "m = pq_map p" using rel by (simp_all add: pq_rel_def)
  note me = pq_map_empty_iff [OF inv]
  consider (e) "slots p = []" | (above) "slots p \<noteq> []" "hi < n" | (rej) "slots p \<noteq> []" "n \<le> hi" by linarith
  then show ?thesis
  proof cases
    case e
    with Emplace_empty [OF inv e n0(1), of z y] me show ?thesis
      by (auto simp: x m pq_rel_def n0)
  next
    case above
    then have "firstPacket p + int (length (slots p)) \<le> n" using rel by (simp add: pq_rel_def pq_end_def)
    from Emplace_end [OF inv above(1) this, of z y] above me show ?thesis
      by (auto simp: x m pq_rel_def n0)
  next
    case rej
    then have "n < firstPacket p + int (length (slots p))" using rel by (simp add: pq_rel_def pq_end_def)
    from Emplace_rejected [OF inv rej(1) this, of z y] rej me rel show ?thesis
      by (auto simp: x m n0)
  qed
qed

lemma step_refines:
  assumes rel: "pq_rel p s" and v: "valid_op op"
  shows "\<exists>q. pq_step z p op = Some (fst (map_step s op), q) \<and> pq_rel q (snd (map_step s op))"
proof -
  obtain m hi where s: "s = (m, hi)" by (cases s)
  have inv: "pq_inv p" and m: "m = pq_map p" using rel by (simp_all add: pq_rel_def s)
  show ?thesis
  proof (cases op)
    case (OpEmplace n x)
    obtain q where "PacketQueue_Emplace z p n x =
        Some (\<not> (x = None \<or> n = -1 \<or> (m \<noteq> Map.empty \<and> n \<le> hi)), q)" "pq_rel q (snd (map_step s op))"
      using Emplace_refines [OF rel [unfolded s], of n z x] v by (auto simp: OpEmplace s)
    then show ?thesis by (intro exI [of _ q]) (simp add: OpEmplace s)
  next
    case (OpGetEntry n)
    with rel GetEntry_eq [OF inv] m s show ?thesis by simp
  next
    case (OpRemove n)
    show ?thesis
    proof (cases "pq_map p n")
      case None
      then have "(pq_map p)(n := None) = pq_map p" by auto
      with Remove_absent [OF inv None, of z] rel show ?thesis by (simp add: OpRemove s m None)
    next
      case (Some y)
      with Remove_present [OF inv Some, of z] rel show ?thesis
        by (auto simp: OpRemove s m pq_rel_def pq_map_empty_iff [symmetric])
    qed
  next
    case (OpRemoveUpTo n)
    obtain q where q: "PacketQueue_RemoveUpTo z p n = Some q" "pq_inv q"
      "pq_map q = (\<lambda>m. if m < n then None else pq_map p m)" "slots q \<noteq> [] \<longrightarrow> pq_end q = pq_end p"
      using RemoveUpTo_ok [OF inv, of z n] by blast
    have "slots p = [] \<Longrightarrow> slots q = []"
      unfolding pq_map_empty_iff [OF inv, symmetric] pq_map_empty_iff [OF q(2), symmetric] q(3) by auto
    with q rel show ?thesis
      by (auto simp: OpRemoveUpTo s m pq_rel_def)
  qed
qed

lemma run_refines:
  "pq_rel p s \<Longrightarrow> list_all valid_op ops \<Longrightarrow> pq_run z p ops = Some (map_run s ops)"
proof (induction ops arbitrary: p s)
  case Nil
  then show ?case by simp
next
  case (Cons op ops)
  obtain q where "pq_step z p op = Some (fst (map_step s op), q)" "pq_rel q (snd (map_step s op))"
    using step_refines [OF Cons.prems(1), of op z] Cons.prems(2) by auto
  with Cons.IH [of q] Cons.prems(2) show ?case by (simp split: prod.splits)
qed

lemma new_rel: "pq_rel (newPacketNumberIndexedQueue z n) (Map.empty, hi)"
  by (simp add: ring_inv_Init pq_rel_def newPacketNumberIndexedQueue_def pq_inv_def pq_base_def pq_map_def)

text \<open>
  C33. The packet queue is a map from packet numbers. Started with any initial size and given
  any sequence of insertions, lookups, removals and truncations of packet numbers that are not
  below -1, it never panics and answers as the map does: an entry is inserted unless it is nil,
  its number is invalid or not above the highest number inserted since the queue was last empty;
  a lookup or a removal returns what was last stored under the number and not removed since.
\<close>

theorem PacketQueue_refines_map:
  "list_all valid_op ops \<Longrightarrow> pq_run z (newPacketNumberIndexedQueue z n) ops = Some (map_run (Map.empty, 0) ops)"
  by (rule run_refines [OF new_rel])

theorem PacketQueue_refines_map_witness:
  "list_all valid_op [OpEmplace 3 (Some CHR ''a''), OpEmplace 6 (Some CHR ''b''), OpGetEntry 4, OpRemove 3, OpGetEntry 6] \<and>
   map_run (Map.empty, 0) [OpEmplace 3 (Some CHR ''a''), OpEmplace 6 (Some CHR ''b''), OpGetEntry 4, OpRemove 3, OpGetEntry 6]
     = [OutOk True, OutOk True, OutEntry None, OutEntry (Some CHR ''a''), OutEntry (Some CHR ''b'')] \<and>
   pq_run CHR ''z'' (newPacketNumberIndexedQueue CHR ''z'' 2)
       [OpEmplace 3 (Some CHR ''a''), OpEmplace 6 (Some CHR ''b''), OpGetEntry 4, OpRemove 3, OpGetEntry 6]
     = Some [OutOk True, OutOk True, OutEntry None, OutEntry (Some CHR ''a''), OutEntry (Some CHR ''b'')]"
  using PacketQueue_refines_map [of "[OpEmplace 3 (Some CHR ''a''), OpEmplace 6 (Some CHR ''b''), OpGetEntry 4, OpRemove 3, OpGetEntry 6]"
      "CHR ''z''" 2]
  by (simp add: fun_eq_iff)

end
