(* ===== verification/Windowed_Filter.thy ===== *)
theory Windowed_Filter
  imports Prelude
begin

text \<open>
  WindowedFilter of congestion/bbr/windowed_filter.go: Nichols' three-estimate running
  maximum over a window. Both uses in the repository measure time in round trips, an unsigned
  64-bit count, so times are words and their differences wrap as in the code. The comparator is an
  argument; the locale \<open>ranking\<close> says what the filter needs of it.
\<close>

section \<open>The filter\<close>

record 'v windowed_filter =
  windowLength :: u64
  estimates :: "('v \<times> u64) \<times> ('v \<times> u64) \<times> ('v \<times> u64)"
  comparator :: "'v \<Rightarrow> 'v \<Rightarrow> int"

definition MaxFilter :: "'o :: linorder \<Rightarrow> 'o \<Rightarrow> int" where
  "MaxFilter a b = (if a > b then 1 else if a < b then -1 else 0)"

definition MinFilter :: "'o :: linorder \<Rightarrow> 'o \<Rightarrow> int" where
  "MinFilter a b = (if a < b then 1 else if a > b then -1 else 0)"

definition NewWindowedFilter :: "'v \<Rightarrow> u64 \<Rightarrow> ('v \<Rightarrow> 'v \<Rightarrow> int) \<Rightarrow> 'v windowed_filter" where
  "NewWindowedFilter z w c =
     \<lparr>windowLength = w, estimates = ((z, 0), (z, 0), (z, 0)), comparator = c\<rparr>"

definition WindowedFilter_SetWindowLength :: "'v windowed_filter \<Rightarrow> u64 \<Rightarrow> 'v windowed_filter" where
  "WindowedFilter_SetWindowLength f w = f\<lparr>windowLength := w\<rparr>"

definition WindowedFilter_GetBest :: "'v windowed_filter \<Rightarrow> 'v" where
  "WindowedFilter_GetBest f = fst (fst (estimates f))"

definition WindowedFilter_GetSecondBest :: "'v windowed_filter \<Rightarrow> 'v" where
  "WindowedFilter_GetSecondBest f = fst (fst (snd (estimates f)))"

definition WindowedFilter_GetThirdBest :: "'v windowed_filter \<Rightarrow> 'v" where
  "WindowedFilter_GetThirdBest f = fst (snd (snd (estimates f)))"

definition WindowedFilter_Reset :: "'v windowed_filter \<Rightarrow> 'v \<Rightarrow> u64 \<Rightarrow> 'v windowed_filter" where
  "WindowedFilter_Reset f newSample newTime =
     f\<lparr>estimates := ((newSample, newTime), (newSample, newTime), (newSample, newTime))\<rparr>"

definition WindowedFilter_Clear :: "'v \<Rightarrow> 'v windowed_filter \<Rightarrow> 'v windowed_filter" where
  "WindowedFilter_Clear z f = f\<lparr>estimates := ((z, 0), (z, 0), (z, 0))\<rparr>"

text \<open>
  Update, in two parts as in the code: the new sample replaces the estimates it beats, then the
  estimates that are too old are promoted or renewed.
\<close>

definition update_replace ::
  "('v \<Rightarrow> 'v \<Rightarrow> int) \<Rightarrow> ('v \<times> u64) \<times> ('v \<times> u64) \<Rightarrow> 'v \<Rightarrow> u64 \<Rightarrow> ('v \<times> u64) \<times> ('v \<times> u64)" where
  "update_replace c es newSample newTime =
     (case es of (e1, e2) \<Rightarrow>
        if c newSample (fst e1) \<ge> 0 then ((newSample, newTime), (newSample, newTime))
        else if c newSample (fst e2) \<ge> 0 then (e1, (newSample, newTime))
        else (e1, e2))"

definition update_expire ::
  "('v \<Rightarrow> 'v \<Rightarrow> int) \<Rightarrow> u64 \<Rightarrow> ('v \<times> u64) \<times> ('v \<times> u64) \<times> ('v \<times> u64) \<Rightarrow> 'v \<Rightarrow> u64 \<Rightarrow>
     ('v \<times> u64) \<times> ('v \<times> u64) \<times> ('v \<times> u64)" where
  "update_expire c w es newSample newTime =
     (case es of (e0, e1, e2) \<Rightarrow>
        if newTime - snd e0 > w then
          (if newTime - snd e1 > w then (e2, (newSample, newTime), (newSample, newTime))
           else (e1, e2, (newSample, newTime)))
        else if c (fst e1) (fst e0) = 0 \<and> newTime - snd e1 > w div 4 then
          (e0, (newSample, newTime), (newSample, newTime))
        else if c (fst e2) (fst e1) = 0 \<and> newTime - snd e2 > w div 2 then
          (e0, e1, (newSample, newTime))
        else (e0, e1, e2))"

definition WindowedFilter_Update :: "'v \<Rightarrow> 'v windowed_filter \<Rightarrow> 'v \<Rightarrow> u64 \<Rightarrow> 'v windowed_filter" where
  "WindowedFilter_Update z f newSample newTime =
     (case estimates f of (e0, e1, e2) \<Rightarrow>
        if comparator f (fst e0) z = 0 \<or> comparator f newSample (fst e0) \<ge> 0 \<or> newTime - snd e2 > windowLength f
        then WindowedFilter_Reset f newSample newTime
        else f\<lparr>estimates :=
               update_expire (comparator f) (windowLength f)
                 (e0, update_replace (comparator f) (e1, e2) newSample newTime) newSample newTime\<rparr>)"

definition filter_run :: "'v \<Rightarrow> 'v windowed_filter \<Rightarrow> ('v \<times> u64) list \<Rightarrow> 'v windowed_filter" where
  "filter_run z f samples = foldl (\<lambda>g (v, t). WindowedFilter_Update z g v t) f samples"

lemma filter_run_keeps [simp]:
  "comparator (filter_run z f samples) = comparator f" "windowLength (filter_run z f samples) = windowLength f"
  by (induction samples arbitrary: f)
    (auto simp: filter_run_def WindowedFilter_Update_def WindowedFilter_Reset_def split: prod.splits)

section \<open>What a comparator has to be\<close>

text \<open>
  A comparator ranks the samples by a key, higher is better. The filter's lemmas are
  proved once for every ranking.
\<close>

locale ranking =
  fixes cmp :: "'v \<Rightarrow> 'v \<Rightarrow> int" and key :: "'v \<Rightarrow> int"
  assumes cmp_ge: "0 \<le> cmp x y \<longleftrightarrow> key y \<le> key x"
    and cmp_eq: "cmp x y = 0 \<longleftrightarrow> key x = key y"
begin

text \<open>An estimate is sound if it is a sample, and every sample from that one on ranks at most as high.\<close>

definition sound :: "('v \<times> u64) list \<Rightarrow> 'v \<times> u64 \<Rightarrow> bool" where
  "sound hist e \<longleftrightarrow> (\<exists>i < length hist. hist ! i = e \<and> (\<forall>k. i \<le> k \<longrightarrow> k < length hist \<longrightarrow> key (fst (hist ! k)) \<le> key (fst e)))"

lemma sound_new [simp]: "sound (hist @ [e]) e"
  unfolding sound_def by (intro exI [of _ "length hist"]) (auto simp: nth_append)

lemma sound_old: "sound hist e \<Longrightarrow> key v \<le> key (fst e) \<Longrightarrow> sound (hist @ [(v, t)]) e"
  unfolding sound_def by (auto simp: nth_append less_Suc_eq)

text \<open>The three estimates: sound, ranked downwards, recorded in order, and the best within the window.\<close>

definition filter_inv :: "('v \<times> u64) list \<Rightarrow> 'v windowed_filter \<Rightarrow> bool" where
  "filter_inv hist f \<longleftrightarrow>
     (case estimates f of (e0, e1, e2) \<Rightarrow>
        sound hist e0 \<and> sound hist e1 \<and> sound hist e2 \<and>
        key (fst e1) \<le> key (fst e0) \<and> key (fst e2) \<le> key (fst e1) \<and>
        snd e0 \<le> snd e1 \<and> snd e1 \<le> snd e2 \<and> snd e2 \<le> snd (last hist) \<and>
        snd (last hist) - snd e0 \<le> windowLength f)"

lemma Reset_inv: "filter_inv (hist @ [(v, t)]) (WindowedFilter_Reset f v t)"
  by (simp add: filter_inv_def WindowedFilter_Reset_def)

lemma Update_inv:
  assumes cmp: "comparator f = cmp" and inv: "filter_inv hist f" and t: "snd (last hist) \<le> t"
  shows "filter_inv (hist @ [(v, t)]) (WindowedFilter_Update z f v t)"
proof -
  obtain e0 e1 e2 where es: "estimates f = (e0, e1, e2)" by (cases "estimates f") auto
  obtain d1 d2 where d: "update_replace cmp (e1, e2) v t = (d1, d2)" by (cases "update_replace cmp (e1, e2) v t")
  show ?thesis
  proof (cases "cmp (fst e0) z = 0 \<or> 0 \<le> cmp v (fst e0) \<or> t - snd e2 > windowLength f")
    case True
    then show ?thesis using Reset_inv by (simp add: WindowedFilter_Update_def es cmp)
  next
    case False
    then have v0: "key v \<le> key (fst e0)" and e2: "t - snd e2 \<le> windowLength f"
      by (auto simp: cmp_ge)
    have old: "sound hist e0" "sound hist e1" "sound hist e2" "key (fst e1) \<le> key (fst e0)" "key (fst e2) \<le> key (fst e1)"
      "snd e0 \<le> snd e1" "snd e1 \<le> snd e2" "snd e2 \<le> t"
      using inv t by (auto simp: filter_inv_def es intro: order_trans)
    then have new: "sound (hist @ [(v, t)]) e0" "sound (hist @ [(v, t)]) d1" "sound (hist @ [(v, t)]) d2"
      "key (fst d1) \<le> key (fst e0)" "key (fst d2) \<le> key (fst d1)" "key v \<le> key (fst d2)"
      "snd e0 \<le> snd d1" "snd d1 \<le> snd d2" "snd d2 \<le> t" "t - snd d2 \<le> windowLength f"
      using d v0 e2
      by (auto simp: update_replace_def cmp_ge intro: sound_old order_trans split: if_splits)
    then have v1: "key v \<le> key (fst d1)" by linarith
    have "WindowedFilter_Update z f v t = f\<lparr>estimates := update_expire cmp (windowLength f) (e0, d1, d2) v t\<rparr>"
      using False by (simp add: WindowedFilter_Update_def es cmp d)
    with new v0 v1 show ?thesis
      by (auto simp: filter_inv_def update_expire_def not_less intro: order_trans)
  qed
qed

text \<open>The best estimate only gets worse when it has left the window.\<close>

lemma Update_best_drops:
  assumes cmp: "comparator f = cmp" and inv: "filter_inv hist f" and t: "snd (last hist) \<le> t"
    and z: "key z \<le> key v" and fresh: "t - snd (fst (estimates f)) \<le> windowLength f"
  shows "key (WindowedFilter_GetBest f) \<le> key (WindowedFilter_GetBest (WindowedFilter_Update z f v t))"
proof -
  obtain e0 e1 e2 where es: "estimates f = (e0, e1, e2)" by (cases "estimates f") auto
  have ord: "snd e0 \<le> snd e2" "snd e2 \<le> t" using inv t by (auto simp: filter_inv_def es intro: order_trans)
  then have "t - snd e2 \<le> t - snd e0"
    using order_trans [OF ord] by (simp add: word_le_nat_alt unat_sub)
  with fresh have "\<not> t - snd e2 > windowLength f" by (simp add: es)
  with fresh z show ?thesis
    by (auto simp: WindowedFilter_Update_def WindowedFilter_GetBest_def WindowedFilter_Reset_def es cmp
        update_expire_def cmp_ge cmp_eq split: prod.splits)
qed

lemma filter_run_inv:
  assumes "comparator f = cmp" and "filter_inv hist f"
    and "sorted (map snd (last hist # samples))"
  shows "filter_inv (hist @ samples) (filter_run z f samples)"
  using assms
proof (induction samples arbitrary: hist f)
  case Nil
  then show ?case by (simp add: filter_run_def)
next
  case (Cons s samples)
  obtain v t where s: "s = (v, t)" by (cases s)
  have "filter_inv (hist @ [(v, t)]) (WindowedFilter_Update z f v t)"
    using Cons.prems by (intro Update_inv) (auto simp: s)
  moreover have "comparator (WindowedFilter_Update z f v t) = cmp"
    using Cons.prems(1) by (simp add: WindowedFilter_Update_def WindowedFilter_Reset_def split: prod.splits)
  ultimately show ?case
    using Cons.IH [of "WindowedFilter_Update z f v t" "hist @ [(v, t)]"] Cons.prems(3)
    by (simp add: s filter_run_def)
qed

lemma filter_run_new:
  assumes "sorted (map snd samples)" and "samples \<noteq> []"
  shows "filter_inv samples (filter_run z (NewWindowedFilter z w cmp) samples)"
proof -
  obtain v t rest where s: "samples = (v, t) # rest" using assms(2) by (cases samples) auto
  let ?f = "WindowedFilter_Update z (NewWindowedFilter z w cmp) v t"
  have f: "?f = WindowedFilter_Reset (NewWindowedFilter z w cmp) v t"
    by (simp add: WindowedFilter_Update_def NewWindowedFilter_def cmp_eq)
  then have "filter_inv [(v, t)] ?f" using Reset_inv [of "[]"] by simp
  with filter_run_inv [of ?f "[(v, t)]" rest z] assms(1) f show ?thesis
    by (simp add: s filter_run_def WindowedFilter_Reset_def NewWindowedFilter_def)
qed

end

interpretation maxf: ranking MaxFilter "\<lambda>x :: u64. uint x"
  by unfold_locales (auto simp: MaxFilter_def word_less_def word_uint_eq_iff)

interpretation minf: ranking MinFilter "\<lambda>x :: u64. - uint x"
  by unfold_locales (auto simp: MinFilter_def word_less_def word_uint_eq_iff)

text \<open>
  C34. After any samples with non-decreasing times, the best estimate of a maximum filter is a
  sample not older than the window, and the maximum of all samples from that one on; and the next
  sample lowers it only if by then it has left the window.
\<close>

theorem WindowedFilter_max:
  fixes samples :: "(u64 \<times> u64) list"
  assumes "sorted (map snd samples)" and "samples \<noteq> []"
    and "f = filter_run 0 (NewWindowedFilter 0 w MaxFilter) samples"
  shows "(\<exists>i < length samples. fst (estimates f) = samples ! i \<and> snd (last samples) - snd (samples ! i) \<le> w \<and>
      WindowedFilter_GetBest f = Max (set (map fst (drop i samples)))) \<and>
    (\<forall>v t. snd (last samples) \<le> t \<longrightarrow> t - snd (fst (estimates f)) \<le> w \<longrightarrow>
      WindowedFilter_GetBest f \<le> WindowedFilter_GetBest (WindowedFilter_Update 0 f v t))"
proof -
  have inv: "maxf.filter_inv samples f" using maxf.filter_run_new [OF assms(1,2)] assms(3) by simp
  have c: "comparator f = MaxFilter" "windowLength f = w"
    unfolding assms(3) by (simp_all add: NewWindowedFilter_def)
  obtain i where i: "i < length samples" "samples ! i = fst (estimates f)"
    "\<And>k. i \<le> k \<Longrightarrow> k < length samples \<Longrightarrow> fst (samples ! k) \<le> fst (fst (estimates f))"
    "snd (last samples) - snd (fst (estimates f)) \<le> w"
    using inv c(2) by (auto simp: maxf.filter_inv_def maxf.sound_def word_le_def [symmetric] split: prod.splits)
  have "WindowedFilter_GetBest f = Max (set (map fst (drop i samples)))"
  proof (rule Max_eqI [symmetric])
    show "WindowedFilter_GetBest f \<in> set (map fst (drop i samples))"
      using i(1,2) by (auto simp: WindowedFilter_GetBest_def simp flip: Cons_nth_drop_Suc)
  next
    fix y assume "y \<in> set (map fst (drop i samples))"
    then obtain k where "k < length samples - i" "y = fst (samples ! (i + k))"
      by (auto simp: in_set_conv_nth)
    with i(3) [of "i + k"] show "y \<le> WindowedFilter_GetBest f"
      by (simp add: WindowedFilter_GetBest_def)
  qed simp
  moreover have "WindowedFilter_GetBest f \<le> WindowedFilter_GetBest (WindowedFilter_Update 0 f v t)"
    if "snd (last samples) \<le> t" "t - snd (fst (estimates f)) \<le> w" for v t
    using maxf.Update_best_drops [OF c(1) inv that(1), of 0 v] that(2) c(2) by (simp add: word_le_def)
  ultimately show ?thesis using i by metis
qed

theorem WindowedFilter_max_witness:
  "sorted (map snd [(7, 1), (9 :: u64, 2 :: u64), (4, 5)]) \<and>
   WindowedFilter_GetBest (filter_run 0 (NewWindowedFilter 0 10 MaxFilter) [(7, 1), (9 :: u64, 2), (4, 5)]) = 9 \<and>
   WindowedFilter_GetBest (filter_run 0 (NewWindowedFilter 0 10 MaxFilter) [(7, 1), (9 :: u64, 2), (4, 5)]) \<le>
   WindowedFilter_GetBest (WindowedFilter_Update 0 (filter_run 0 (NewWindowedFilter 0 10 MaxFilter) [(7, 1), (9, 2), (4, 5)]) 1 12)"
proof -
  let ?s = "[(7, 1), (9 :: u64, 2 :: u64), (4, 5)]"
  have run: "filter_run 0 (NewWindowedFilter 0 10 MaxFilter) ?s =
      \<lparr>windowLength = 10, estimates = ((9, 2), (4, 5), (4, 5)), comparator = MaxFilter\<rparr>"
    by (simp add: filter_run_def NewWindowedFilter_def WindowedFilter_Update_def WindowedFilter_Reset_def
        update_expire_def update_replace_def MaxFilter_def)
  have "sorted (map snd ?s)" by simp
  from WindowedFilter_max [OF this _ refl, of 10]
  have "\<forall>v t. 5 \<le> t \<longrightarrow> t - 2 \<le> 10 \<longrightarrow> (9 :: u64) \<le> WindowedFilter_GetBest (WindowedFilter_Update 0
      \<lparr>windowLength = 10, estimates = ((9, 2), (4, 5), (4, 5)), comparator = MaxFilter\<rparr> v t)"
    unfolding run by (simp add: WindowedFilter_GetBest_def)
  from this [rule_format, of 12 1] show ?thesis
    unfolding run by (simp add: WindowedFilter_GetBest_def)
qed

end
