(* ===== verification/Spec2Isabelle.thy ===== *)
theory Spec2Isabelle
  imports Server_Leases Room_Leases Transport_Setup Hello_Exchange Hello_Replay Client_Race Stream_Mux Packet_Queue Windowed_Filter
begin

text \<open>
  A model of telekit, a Go library for peer-to-peer connections: a server and its clients find each other over a
  signaling broker, authenticate with pre-shared keys and a pinned server key, set up an ICE path, and
  exchange encrypted frames over a transport (QUIC, KCP, SCTP, HTTP/3 or raw UDP). Paths below are
  relative to src/.

  \<^bold>\<open>Parts and theories.\<close>
  \<^item> \<open>Prelude\<close>: bytes, errors, results, 64-bit wrap-around, big-endian codecs.
  \<^item> \<open>Replay_Window\<close>: peer/replay.go, the 64-number sliding bitmap. The locale \<open>once_filter\<close> is what its users rely on.
  \<^item> \<open>Byte_Budget\<close>, \<open>Recv_Buffer\<close>: peer/buffer.go and the counters of peer/server/limits.go. The lock-free reservation
    loop is a step relation; the locale \<open>bounded_counter\<close> covers both counters. A blocking Read is a step that is
    enabled when data, close or the deadline allow it.
  \<^item> \<open>Handshake\<close>: peer/psk.go, peer/handshake.go, the key schedule and the signed transcript.
  \<^item> \<open>Encryption\<close>, \<open>Codec\<close>, \<open>Data_Channel\<close>: utils/encryption, peer/codec.go, peer/types.go, peer/data_channel.go,
    peer/signaling_channel.go: nonces, additional data, messages and data frames.
  \<^item> \<open>Transport_IO\<close>: Write, sendHeartbeat and the readers of peer/server/write.go, peer/client/write.go,
    peer/server/conn.go and peer/client/connect.go.
  \<^item> \<open>Addressing\<close>, \<open>Config\<close>: peer/addr.go, signaling/types.go and the routes of its adapters, relays/websocket names,
    transports/ice.go limits, peer/api, the options of peer/server/new.go and peer/client/new.go.
  \<^item> \<open>Server_State\<close>, \<open>Server_Leases\<close>: the server's record, its store of connections and the operations of
    peer/server/conn.go, close.go, limits.go and listener.go; then the same operations as lists of atomic actions of
    concurrently running goroutines.
  \<^item> \<open>Listening\<close>, \<open>Room_Leases\<close>, \<open>Transport_Setup\<close>: peer/server/listen.go and factory.go with the agent calls of transports/ice.go: the
    leases of rooms, the subscription for offers and the setup of a transport, in whose gaps other goroutines run (\<open>oi_env\<close>).
  \<^item> \<open>Hello\<close>, \<open>Key_Agreement\<close>, \<open>Hello_Samples\<close>, \<open>Hello_Exchange\<close>, \<open>Hello_Replay\<close>: peer/client/hello.go,
    peer/server/hello.go, security.go and the hello subscription of listen.go; the agreement of the two sides;
    concrete instances of the parameters; the properties of the exchange.
  \<^item> \<open>Client_State\<close>, \<open>Client_Lifecycle\<close>, \<open>Client_Race\<close>: the client's record and peer/client conn.go, connect.go, disconnect.go, reconnect.go,
    read.go and write.go, with connecting, disconnecting, reading, monitoring and reconnecting as goroutines made of atomic actions.
  \<^item> \<open>Stream_Mux\<close>: example/p2pssh/streammux/mux.go, sessions and streams over one connection, one operation or frame at a time.
  \<^item> \<open>Ring_Buffer\<close>, \<open>Packet_Queue\<close>, \<open>Windowed_Filter\<close>: the containers of
    transports/transport_quic/congestion/bbr. The locales \<open>fifo_queue\<close>, \<open>indexed_queue\<close> and \<open>ranking\<close> are their interfaces.

  \<^bold>\<open>How code is represented.\<close> Structs are records, pointers to shared objects are indices into a store, a nil pointer
  is None, errors are values of \<open>go_error\<close> in a sum, a panic is None or \<open>Panicked\<close>. Machine integers are words, or
  integers with \<open>wrap64\<close> and \<open>uwrap64\<close> at the operations that can wrap; the one float64 of the options is \<open>float64\<close>, with the
  infinities and NaN. Critical sections and atomic accesses are single steps: a mutex has no state of its own, so nothing is said about the order of
  locking. Times are nanoseconds.

  \<^bold>\<open>Parameters.\<close> Code outside the repository is an argument: the ciphers, hashes, HKDF, Ed25519 and X25519
  (\<open>crypto_lib\<close>, \<open>aead_lib\<close>, \<open>hello_lib\<close>), encoding/gob (\<open>gob\<close>), random bytes (\<open>random\<close>), the LRU cache (\<open>lru_lib\<close>), the
  URL parsers. What is relied on is a named hypothesis (\<open>lib_ok\<close>, \<open>hello_lib_ok\<close>, \<open>gob_carries\<close>, \<open>lru_ok\<close>), and
  each is shown to hold of a concrete instance (\<open>symbolic_lib\<close>, \<open>sum_lib\<close>, \<open>meeting_lib\<close>, \<open>list_lru\<close>). Where a statement is about
  one key, signature or ciphertext that an adversary may have made, what is assumed of it is a hypothesis of that statement, and session keys are
  compared by the inputs of HKDF; so the security statements are about the protocol, not about the strength of the ciphers.

  \<^bold>\<open>What the lemmas show.\<close> The honest handshake succeeds and gives both ends one session; accepting a message
  implies who sent it and for which context; no hello opens two sessions. Frames are delivered at most once and only if
  authentic; a stream arrives as it was written; a Write ends. Leases, budgets and buffers balance under every
  interleaving, and closing loses no lease. A room has one server, and a transport setup loses no handle whatever runs beside it. Every agent
  and transport of a client is in one place or closed, and a disconnect is final. Multiplexed streams deliver what was written. Containers
  refine lists and maps. Names and routes do not collide.

  \<^bold>\<open>Fuel.\<close> Loops that may not end take fuel and return \<open>Running\<close> when it is spent. \<open>writeLoop\<close> is run with one
  round per byte, which suffices for every limit but 64 (\<open>Write_terminates\<close>); a reader takes a frame per round, and
  \<open>Write_Read_stream\<close> shows that two rounds more than there are frames are enough.

  \<^bold>\<open>Not modelled.\<close> The broker adapters and servers of signaling, the input and output of the WebSocket relay, the wrappers of
  the transports in transports, the BBR and Brutal senders, peer/callback_pool.go, the examples but for the multiplexer, and the
  user's callbacks: they are input and output, floating-point rates driven by quic-go, or calls of other libraries. The peers see them only
  through the arguments above.
\<close>

end
